(* ===== verification/Go_Prelude.thy ===== *)
theory Go_Prelude
  imports Main "HOL-Library.Word" "HOL-Library.Multiset"
begin

text \<open>
  What every component shares: byte strings, CIDs, the error values that the Go code compares
  or inspects, nanosecond times with the saturating subtraction of \<open>time.Since\<close>, and the generic
  list and map lemmas the component theories use. Go's \<open>error\<close> result is a \<open>go_error option\<close>
  (\<open>None\<close> is \<open>nil\<close>) when it is the only result, and a sum \<open>go_error + 'a\<close> when it comes
  with a value.
\<close>

section \<open>Bytes and content identifiers\<close>

text \<open>
  A Go string or byte slice is a sequence of bytes, here a \<open>char list\<close>. A \<open>cid.Cid\<close> is a
  comparable struct around the binary form of the identifier; it is used as a map key.
\<close>

type_synonym bytes = "char list"

datatype cid = Cid (cid_bytes: bytes)

section \<open>Errors\<close>

text \<open>
  The errors that the code tells apart, each with the package that declares it, and the two ways
  of making another: a plain message, and \<open>fmt.Errorf\<close> with \<open>%w\<close>, which keeps the cause.
\<close>

datatype go_error =
    NotFound                    \<comment> \<open>ipld \<open>ErrNotFound\<close>\<close>
  | WaitTimeout                 \<comment> \<open>blocks \<open>ErrWaitTimeout\<close>\<close>
  | CtxDone                     \<comment> \<open>the error of a cancelled or expired context\<close>
  | RetrievalAlreadyRunning     \<comment> \<open>lassie \<open>ErrRetrievalAlreadyRunning\<close>\<close>
  | NoCandidates                \<comment> \<open>lassie \<open>ErrNoCandidates\<close>\<close>
  | NotExist                    \<comment> \<open>os \<open>ErrNotExist\<close>\<close>
  | KeyInfoNotFound             \<comment> \<open>lotus \<open>ErrKeyInfoNotFound\<close>\<close>
  | KeyExists                   \<comment> \<open>lotus \<open>ErrKeyExists\<close>\<close>
  | InvalidEndpointURL          \<comment> \<open>endpoint \<open>ErrInvalidEndpointURL\<close>\<close>
  | EndpointRequestFailed       \<comment> \<open>endpoint \<open>ErrEndpointRequestFailed\<close>\<close>
  | EndpointBodyInvalid         \<comment> \<open>endpoint \<open>ErrEndpointBodyInvalid\<close>\<close>
  | YamlTypeError string       \<comment> \<open>yaml \<open>TypeError\<close> with one message\<close>
  | Msg string
  | Wrapped string go_error

text \<open>\<open>errors.Is\<close> against a sentinel looks through every wrapping.\<close>

fun root_cause :: "go_error \<Rightarrow> go_error" where
  "root_cause (Wrapped m e) = root_cause e"
| "root_cause e = e"

definition errors_is :: "go_error \<Rightarrow> go_error \<Rightarrow> bool" where
  "errors_is e target \<longleftrightarrow> root_cause e = target"

definition is_not_found :: "go_error \<Rightarrow> bool" where
  "is_not_found e \<longleftrightarrow> errors_is e NotFound"

lemma is_not_found_simps [simp]:
  "is_not_found NotFound"
  "\<not> is_not_found WaitTimeout"
  "\<not> is_not_found CtxDone"
  "\<not> is_not_found (Msg m)"
  "is_not_found (Wrapped m e) = is_not_found e"
  by (simp_all add: is_not_found_def errors_is_def)

text \<open>A call either returns or panics; a panic that nobody recovers ends the process.\<close>

datatype 'a outcome = Returns 'a | Panics string

text \<open>A pointer or interface that is read: \<open>None\<close> is \<open>nil\<close>.\<close>

definition deref :: "'a option \<Rightarrow> 'a outcome" where
  "deref p = (case p of None \<Rightarrow> Panics ''nil pointer dereference'' | Some x \<Rightarrow> Returns x)"

section \<open>Times and durations\<close>

text \<open>
  Times and durations are nanoseconds. \<open>time.Since\<close> saturates at the bounds of an \<open>int64\<close>, and
  the zero \<open>time.Time\<close> is the start of year 1; times count from the Unix epoch.
\<close>

type_synonym go_time = int
type_synonym duration = int

definition second :: duration where "second = 1000000000"
definition minute :: duration where "minute = 60 * second"
definition hour :: duration where "hour = 60 * minute"

definition max_duration :: duration where "max_duration = 2 ^ 63 - 1"
definition min_duration :: duration where "min_duration = - (2 ^ 63)"

definition zero_time :: go_time where
  "zero_time = - 62135596800 * second"

definition time_since :: "go_time \<Rightarrow> go_time \<Rightarrow> duration" where
  "time_since now t = max min_duration (min max_duration (now - t))"

lemmas duration_defs = second_def minute_def hour_def max_duration_def min_duration_def

lemma time_since_mono: "now \<le> now' \<Longrightarrow> time_since now t \<le> time_since now' t"
  by (auto simp: time_since_def)

lemma time_since_zero_time: "0 \<le> now \<Longrightarrow> minute < time_since now zero_time"
  by (simp add: time_since_def zero_time_def duration_defs)

section \<open>Shared lists and maps\<close>

text \<open>Reading a missing key of a Go map of slices gives the nil slice.\<close>

definition slice_at :: "('k \<rightharpoonup> 'v list) \<Rightarrow> 'k \<Rightarrow> 'v list" where
  "slice_at m k = (case m k of None \<Rightarrow> [] | Some vs \<Rightarrow> vs)"

lemma slice_at_simps [simp]:
  "m k = None \<Longrightarrow> slice_at m k = []"
  "m k = Some vs \<Longrightarrow> slice_at m k = vs"
  by (simp_all add: slice_at_def)

lemma slice_at_upd [simp]:
  "slice_at (m(k \<mapsto> vs)) k' = (if k' = k then vs else slice_at m k')"
  "slice_at (m(k := None)) k' = (if k' = k then [] else slice_at m k')"
  by (simp_all add: slice_at_def)

text \<open>Replacing position \<open>i\<close> by the last element and shrinking by one removes exactly \<open>xs ! i\<close>.\<close>

definition swap_remove :: "nat \<Rightarrow> 'a list \<Rightarrow> 'a list" where
  "swap_remove i xs = butlast (xs[i := last xs])"

lemma length_swap_remove [simp]: "length (swap_remove i xs) = length xs - 1"
  by (simp add: swap_remove_def)

lemma nth_swap_remove_less: "j < i \<Longrightarrow> i < length xs \<Longrightarrow> swap_remove i xs ! j = xs ! j"
  by (simp add: swap_remove_def nth_butlast)

lemma take_swap_remove: "i < length xs \<Longrightarrow> take i (swap_remove i xs) = take i xs"
  by (rule nth_equalityI) (auto simp: nth_swap_remove_less)

lemma mset_swap_remove:
  assumes "i < length xs"
  shows "mset xs = add_mset (xs ! i) (mset (swap_remove i xs))"
proof -
  from assms have ne: "xs \<noteq> []" by auto
  let ?ys = "xs[i := last xs]"
  from ne have ys: "?ys \<noteq> []" by simp
  have "last ?ys = last xs"
    using ne by (simp add: last_list_update)
  with ys have "mset ?ys = add_mset (last xs) (mset (butlast ?ys))"
    by (metis append_butlast_last_id add_mset_add_single mset.simps(1) mset.simps(2) mset_append)
  moreover have "mset ?ys = add_mset (last xs) (mset xs - {#xs ! i#})"
    using assms by (simp add: mset_update)
  ultimately have "mset (butlast ?ys) = mset xs - {#xs ! i#}"
    by simp
  with assms show ?thesis
    by (simp add: swap_remove_def)
qed

lemma set_swap_remove: "i < length es \<Longrightarrow> set (swap_remove i es) \<subseteq> set es"
  using mset_swap_remove [of i es] by (metis set_mset_add_mset_insert set_mset_mset subset_insertI)

end
