(* ===== verification/Blockstore.thy ===== *)
theory Blockstore
  imports Go_Prelude "HOL-Library.AList"
begin

text \<open>
  The \<open>Blockstore\<close> interface of go-ipfs-blockstore, which is not part of this repository. It is
  a parameter of the model: a record of operations over a store state \<open>'s\<close>, passed to every
  operation that embeds or calls a blockstore (\<open>blocks.Manager\<close>, \<open>blocks.RandomPruner\<close>,
  \<open>bitswap.Provider\<close>), so that a wrapper is again a record of the same type. What the code
  relies on is stated as locales over an abstraction function \<open>contents\<close>: which blocks the
  store holds. Every operation may also fail, and then the laws say only what a failed
  operation leaves behind.
\<close>

section \<open>The interface\<close>

record block =
  blk_cid :: cid
  raw_data :: bytes

record 's blockstore =
  bs_has :: "'s \<Rightarrow> cid \<Rightarrow> go_error + bool"
  bs_get :: "'s \<Rightarrow> cid \<Rightarrow> go_error + block"
  bs_get_size :: "'s \<Rightarrow> cid \<Rightarrow> go_error + int"
  bs_put :: "'s \<Rightarrow> block \<Rightarrow> go_error option \<times> 's"
  bs_put_many :: "'s \<Rightarrow> block list \<Rightarrow> go_error option \<times> 's"
  bs_delete :: "'s \<Rightarrow> cid \<Rightarrow> go_error option \<times> 's"
  bs_all_keys :: "'s \<Rightarrow> go_error + cid list"

type_synonym store_contents = "cid \<rightharpoonup> bytes"

text \<open>
  What a successful put does to the contents: a block already held is kept as it is (the
  identifier is a hash of the data), a new one is added.
\<close>

definition add_block :: "block \<Rightarrow> store_contents \<Rightarrow> store_contents" where
  "add_block b m = (if blk_cid b \<in> dom m then m else m(blk_cid b \<mapsto> raw_data b))"

lemma dom_add_block [simp]: "dom (add_block b m) = insert (blk_cid b) (dom m)"
  by (auto simp: add_block_def)

lemma add_block_other: "c \<noteq> blk_cid b \<Longrightarrow> add_block b m c = m c"
  by (simp add: add_block_def)

lemma add_block_extends: "m \<subseteq>\<^sub>m add_block b m"
  by (auto simp: add_block_def map_le_def)

lemma dom_fold_add_block [simp]:
  "dom (fold add_block bs m) = blk_cid ` set bs \<union> dom m"
  by (induction bs arbitrary: m) auto

lemma fold_add_block_extends: "m \<subseteq>\<^sub>m fold add_block bs m"
  by (induction bs arbitrary: m) (auto intro: map_le_trans add_block_extends)

section \<open>What a blockstore promises\<close>

text \<open>Reading: a found block is in the contents, and a not-found error means it is not.\<close>

locale block_reader =
  fixes bs :: "'s blockstore"
    and contents :: "'s \<Rightarrow> store_contents"
  assumes get_size_found: "bs_get_size bs s c = Inr n \<Longrightarrow> \<exists>d. contents s c = Some d \<and> n = int (length d)"
    and get_size_missing: "bs_get_size bs s c = Inl e \<Longrightarrow> is_not_found e \<Longrightarrow> contents s c = None"
    and has_found: "bs_has bs s c = Inr r \<Longrightarrow> r \<longleftrightarrow> contents s c \<noteq> None"
    and get_found: "bs_get bs s c = Inr b \<Longrightarrow> blk_cid b = c \<and> contents s c = Some (raw_data b)"
begin

lemma get_size_dom: "bs_get_size bs s c = Inr n \<Longrightarrow> c \<in> dom (contents s)"
  using get_size_found by blast

lemma get_size_nonneg: "bs_get_size bs s c = Inr n \<Longrightarrow> 0 \<le> n"
  using get_size_found by fastforce

lemma get_size_stored:
  "contents s c = Some d \<Longrightarrow> bs_get_size bs s c = Inr n \<Longrightarrow> n = int (length d)"
  using get_size_found by fastforce

lemma get_size_absent_fails:
  "contents s c = None \<Longrightarrow> \<exists>e. bs_get_size bs s c = Inl e"
  by (cases "bs_get_size bs s c") (auto dest: get_size_found)

end

text \<open>
  Writing: what each operation does to the contents. The contents of a store are finite, and
  \<open>AllKeysChan\<close> yields each held identifier once.
\<close>

locale block_store = block_reader +
  assumes finite_contents: "finite (dom (contents s))"
    and put_ok: "bs_put bs s b = (None, s') \<Longrightarrow> contents s' = add_block b (contents s)"
    and put_failed: "bs_put bs s b = (Some e, s') \<Longrightarrow> contents s' = contents s"
    and put_many_ok: "bs_put_many bs s blks = (None, s') \<Longrightarrow> contents s' = fold add_block blks (contents s)"
    and put_many_failed: "bs_put_many bs s blks = (Some e, s') \<Longrightarrow> contents s \<subseteq>\<^sub>m contents s'"
    and delete_ok: "bs_delete bs s c = (None, s') \<Longrightarrow> contents s' = (contents s)(c := None)"
    and delete_failed: "bs_delete bs s c = (Some e, s') \<Longrightarrow> contents s' = contents s"
    and all_keys: "bs_all_keys bs s = Inr cs \<Longrightarrow> distinct cs \<and> set cs = dom (contents s)"
begin

lemma put_extends: "bs_put bs s b = (r, s') \<Longrightarrow> contents s \<subseteq>\<^sub>m contents s'"
  by (cases r) (auto simp: put_ok put_failed add_block_extends)

lemma put_many_extends: "bs_put_many bs s blks = (r, s') \<Longrightarrow> contents s \<subseteq>\<^sub>m contents s'"
  by (cases r) (auto simp: put_many_ok put_many_failed fold_add_block_extends)

lemma put_dom: "bs_put bs s b = (None, s') \<Longrightarrow> dom (contents s') = insert (blk_cid b) (dom (contents s))"
  by (simp add: put_ok)

lemma put_many_dom:
  "bs_put_many bs s blks = (None, s') \<Longrightarrow> dom (contents s') = blk_cid ` set blks \<union> dom (contents s)"
  by (simp add: put_many_ok)

lemma put_many_failed_dom:
  "bs_put_many bs s blks = (Some e, s') \<Longrightarrow> dom (contents s) \<subseteq> dom (contents s')"
  by (blast dest: put_many_failed map_le_implies_dom_le)

lemma delete_sub: "bs_delete bs s c = (r, s') \<Longrightarrow> contents s' \<subseteq>\<^sub>m contents s"
  by (cases r) (auto simp: delete_ok delete_failed map_le_def)

lemma delete_other: "bs_delete bs s c = (r, s') \<Longrightarrow> c' \<noteq> c \<Longrightarrow> contents s' c' = contents s c'"
  by (cases r) (auto simp: delete_ok delete_failed)

lemma delete_dom: "bs_delete bs s c = (None, s') \<Longrightarrow> dom (contents s') = dom (contents s) - {c}"
  by (simp add: delete_ok)

end

text \<open>
  A store whose operations succeed whenever the block they need is there: no input or output
  error happens. The claims that an operation returns a result, rather than an error, need it.
\<close>

locale reliable_block_store = block_store +
  assumes get_size_total: "contents s c = Some d \<Longrightarrow> bs_get_size bs s c = Inr (int (length d))"
    and get_size_not_found: "contents s c = None \<Longrightarrow> \<exists>e. bs_get_size bs s c = Inl e \<and> is_not_found e"
    and has_total: "\<exists>r. bs_has bs s c = Inr r"
    and delete_total: "contents s c \<noteq> None \<Longrightarrow> \<exists>s'. bs_delete bs s c = (None, s')"
    and all_keys_total: "\<exists>cs. bs_all_keys bs s = Inr cs"

section \<open>A store in memory\<close>

text \<open>
  The map-backed store that the repository's tests use in place of the flatfs one, as an
  association list. It instantiates the parameter where a concrete run is evaluated.
\<close>

type_synonym mem_store = "(cid \<times> bytes) list"

definition mem_put :: "mem_store \<Rightarrow> block \<Rightarrow> mem_store" where
  "mem_put s b = (case map_of s (blk_cid b) of None \<Rightarrow> (blk_cid b, raw_data b) # s | Some d \<Rightarrow> s)"

definition mem_blockstore :: "mem_store blockstore" where
  "mem_blockstore =
     \<lparr>bs_has = (\<lambda>s c. Inr (map_of s c \<noteq> None)),
      bs_get = (\<lambda>s c. case map_of s c of None \<Rightarrow> Inl NotFound | Some d \<Rightarrow> Inr \<lparr>blk_cid = c, raw_data = d\<rparr>),
      bs_get_size = (\<lambda>s c. case map_of s c of None \<Rightarrow> Inl NotFound | Some d \<Rightarrow> Inr (int (length d))),
      bs_put = (\<lambda>s b. (None, mem_put s b)),
      bs_put_many = (\<lambda>s blks. (None, fold (\<lambda>b s. mem_put s b) blks s)),
      bs_delete = (\<lambda>s c. (None, AList.delete c s)),
      bs_all_keys = (\<lambda>s. Inr (remdups (map fst s)))\<rparr>"

lemma mem_blockstore_sel [simp]:
  "bs_has mem_blockstore s c = Inr (map_of s c \<noteq> None)"
  "bs_get mem_blockstore s c =
     (case map_of s c of None \<Rightarrow> Inl NotFound | Some d \<Rightarrow> Inr \<lparr>blk_cid = c, raw_data = d\<rparr>)"
  "bs_get_size mem_blockstore s c =
     (case map_of s c of None \<Rightarrow> Inl NotFound | Some d \<Rightarrow> Inr (int (length d)))"
  "bs_put mem_blockstore s b = (None, mem_put s b)"
  "bs_put_many mem_blockstore s blks = (None, fold (\<lambda>b s. mem_put s b) blks s)"
  "bs_delete mem_blockstore s c = (None, AList.delete c s)"
  "bs_all_keys mem_blockstore s = Inr (remdups (map fst s))"
  by (simp_all add: mem_blockstore_def)

lemma map_of_mem_put: "map_of (mem_put s b) = add_block b (map_of s)"
  by (auto simp: mem_put_def add_block_def split: option.splits)

lemma map_of_fold_mem_put: "map_of (fold (\<lambda>b s. mem_put s b) blks s) = fold add_block blks (map_of s)"
  by (induction blks arbitrary: s) (auto simp: map_of_mem_put)

interpretation mem: reliable_block_store mem_blockstore map_of
  by unfold_locales
    (auto simp: map_of_mem_put map_of_fold_mem_put delete_conv' dom_map_of_conv_image_fst
      finite_dom_map_of split: option.splits)

end
