(* ===== verification/Block_Manager.thy ===== *)
theory Block_Manager
  imports Blockstore
begin

text \<open>
  \<open>blocks.Manager\<close> (src/blocks/manager.go): a blockstore wrapper that lets callers wait for a block
  to be put. Its state is the wrapped store, the buffered channel \<open>readyBlocks\<close> between the
  putting goroutines and the notifying one, and the wait list, a map from identifiers to slices
  of waiting entries. A Go closure registered as a callback is a value of type \<open>'cb\<close>, and the
  record \<open>cb_env\<close> says what running one does to the state \<open>'w\<close> of the rest of the program and
  which contexts are done in it.
\<close>

section \<open>Data\<close>

text \<open>\<open>type Block struct\<close>: what a callback receives.\<close>

record ready_block =
  rb_cid :: cid
  rb_size :: int

definition empty_ready :: ready_block where
  "empty_ready = \<lparr>rb_cid = Cid [], rb_size = 0\<rparr>"

definition ready_of :: "block \<Rightarrow> ready_block" where
  "ready_of b = \<lparr>rb_cid = blk_cid b, rb_size = int (length (raw_data b))\<rparr>"

lemma rb_cid_ready_of [simp]: "rb_cid (ready_of b) = blk_cid b"
  by (simp add: ready_of_def)

text \<open>A context is a root one, or derived from another by \<open>WithCancel\<close>; the numbers tell apart those of
  one origin. \<open>ctx_err\<close> is the context's \<open>Err()\<close>.\<close>

datatype ctx = Root nat | Derived ctx nat

record 'cb wait_entry =
  we_ctx :: ctx
  we_cb :: 'cb
  we_at :: go_time

record ('cb, 'w) cb_env =
  ctx_err :: "'w \<Rightarrow> ctx \<Rightarrow> go_error option"
  invoke :: "'cb \<Rightarrow> ready_block \<Rightarrow> go_error option \<Rightarrow> 'w \<Rightarrow> 'w"

type_synonym 'cb wait_map = "cid \<rightharpoonup> 'cb wait_entry list"

record ('s, 'cb) manager =
  inner :: 's
  ready_blocks :: "ready_block list"
  wait_list :: "'cb wait_map"
  await_timeout :: duration

text \<open>\<open>make(chan Block, 10)\<close>.\<close>

definition ready_cap :: nat where "ready_cap = 10"

datatype goroutine = PollReadyBlocks | PollCleanup

text \<open>\<open>NewManager\<close>: the manager and the goroutines it starts.\<close>

definition new_manager :: "'s \<Rightarrow> duration \<Rightarrow> ('s, 'cb) manager \<times> goroutine list" where
  "new_manager s timeout =
     (\<lparr>inner = s, ready_blocks = [], wait_list = Map.empty, await_timeout = timeout\<rparr>,
      PollReadyBlocks # (if timeout \<noteq> 0 then [PollCleanup] else []))"

section \<open>Operations\<close>

definition register :: "cid \<Rightarrow> 'cb wait_entry \<Rightarrow> ('s, 'cb) manager \<Rightarrow> ('s, 'cb) manager" where
  "register c e m = m\<lparr>wait_list := (wait_list m)(c \<mapsto> slice_at (wait_list m) c @ [e])\<rparr>"

text \<open>
  \<open>AwaitBlock\<close>, run without interruption: the result, the manager and the rest of the state. The
  callback runs at once when the block is there, and also when the lookup fails with an error
  other than not-found.
\<close>

definition await_block ::
  "'s blockstore \<Rightarrow> ('cb, 'w) cb_env \<Rightarrow> go_time \<Rightarrow> ctx \<Rightarrow> cid \<Rightarrow> 'cb \<Rightarrow>
   ('s, 'cb) manager \<times> 'w \<Rightarrow> bool \<times> ('s, 'cb) manager \<times> 'w" where
  "await_block bs env now x c cb = (\<lambda>(m, w).
     case bs_get_size bs (inner m) c of
       Inl e \<Rightarrow>
         if \<not> is_not_found e then (False, m, invoke env cb empty_ready (Some e) w)
         else (False, register c \<lparr>we_ctx = x, we_cb = cb, we_at = now\<rparr> m, w)
     | Inr n \<Rightarrow> (True, m, invoke env cb \<lparr>rb_cid = c, rb_size = n\<rparr> None w))"

text \<open>
  The \<open>select\<close> of \<open>Put\<close> and \<open>PutMany\<close>: send to the channel or see the context done. When both
  are possible the runtime picks one (\<open>pick\<close>); when neither is, the goroutine waits.
\<close>

datatype 'm send_result = Sent 'm | SendAborted go_error | SendBlocked

definition send_ready ::
  "bool \<Rightarrow> go_error option \<Rightarrow> ready_block \<Rightarrow> ('s, 'cb) manager \<Rightarrow> ('s, 'cb) manager send_result" where
  "send_ready pick cerr b m =
     (if length (ready_blocks m) < ready_cap \<and> (cerr = None \<or> pick)
      then Sent (m\<lparr>ready_blocks := ready_blocks m @ [b]\<rparr>)
      else case cerr of Some e \<Rightarrow> SendAborted e | None \<Rightarrow> SendBlocked)"

text \<open>
  The loop over the blocks still to announce: it returns, or it waits with the blocks that are
  left. \<open>sel k\<close> is the runtime's choice and the context's error at the \<open>k\<close>-th \<open>select\<close>. Nothing else runs
  between its sends, so with more blocks than the channel has room for it ends \<open>Parked\<close>; how the notifier makes room
  meanwhile, and the put goes on, are steps of \<open>mgr_step\<close>.
\<close>

datatype put_status = Returned "go_error option" | Parked "ready_block list"

fun send_all ::
  "(nat \<Rightarrow> bool \<times> go_error option) \<Rightarrow> nat \<Rightarrow> ready_block list \<Rightarrow> ('s, 'cb) manager \<Rightarrow>
   put_status \<times> ('s, 'cb) manager" where
  "send_all sel k [] m = (Returned None, m)"
| "send_all sel k (b # bl) m =
     (case send_ready (fst (sel k)) (snd (sel k)) b m of
        Sent m' \<Rightarrow> send_all sel (Suc k) bl m'
      | SendAborted e \<Rightarrow> (Returned (Some e), m)
      | SendBlocked \<Rightarrow> (Parked (b # bl), m))"

definition manager_put ::
  "'s blockstore \<Rightarrow> (nat \<Rightarrow> bool \<times> go_error option) \<Rightarrow> block \<Rightarrow> ('s, 'cb) manager \<Rightarrow>
   put_status \<times> ('s, 'cb) manager" where
  "manager_put bs sel b m =
     (case bs_put bs (inner m) b of
        (Some e, s') \<Rightarrow> (Returned (Some e), m\<lparr>inner := s'\<rparr>)
      | (None, s') \<Rightarrow> send_all sel 0 [ready_of b] (m\<lparr>inner := s'\<rparr>))"

definition manager_put_many ::
  "'s blockstore \<Rightarrow> (nat \<Rightarrow> bool \<times> go_error option) \<Rightarrow> block list \<Rightarrow> ('s, 'cb) manager \<Rightarrow>
   put_status \<times> ('s, 'cb) manager" where
  "manager_put_many bs sel blks m =
     (case bs_put_many bs (inner m) blks of
        (Some e, s') \<Rightarrow> (Returned (Some e), m\<lparr>inner := s'\<rparr>)
      | (None, s') \<Rightarrow> send_all sel 0 (map ready_of blks) (m\<lparr>inner := s'\<rparr>))"

text \<open>\<open>notifyWaitCallbacks\<close>: take the waiters of the block's identifier and call them in order.\<close>

definition notify_wait_callbacks ::
  "('cb, 'w) cb_env \<Rightarrow> ready_block \<Rightarrow> ('s, 'cb) manager \<times> 'w \<Rightarrow> ('s, 'cb) manager \<times> 'w" where
  "notify_wait_callbacks env b = (\<lambda>(m, w).
     case wait_list m (rb_cid b) of
       None \<Rightarrow> (m, w)
     | Some es \<Rightarrow>
         (m\<lparr>wait_list := (wait_list m)(rb_cid b := None)\<rparr>,
          fold (\<lambda>e. invoke env (we_cb e) b None) es w))"

text \<open>\<open>startPollReadyBlocks\<close>: one iteration per block in the channel; \<open>None\<close> is waiting.\<close>

definition poll_ready ::
  "('cb, 'w) cb_env \<Rightarrow> ('s, 'cb) manager \<times> 'w \<Rightarrow> (('s, 'cb) manager \<times> 'w) option" where
  "poll_ready env = (\<lambda>(m, w).
     case ready_blocks m of
       [] \<Rightarrow> None
     | b # bl \<Rightarrow> Some (notify_wait_callbacks env b (m\<lparr>ready_blocks := bl\<rparr>, w)))"

text \<open>
  The inner loop of \<open>startPollCleanup\<close>, over the slice of one identifier: an entry whose context is
  done or that has waited too long is replaced by the last element, the slice shrinks by one, and
  the index stays; its callback runs with \<open>ErrWaitTimeout\<close> unless its context is done.
\<close>

function cleanup_slice ::
  "('cb, 'w) cb_env \<Rightarrow> go_time \<Rightarrow> duration \<Rightarrow> nat \<Rightarrow> 'cb wait_entry list \<Rightarrow> 'w \<Rightarrow>
   'cb wait_entry list \<times> 'w" where
  "cleanup_slice env now timeout i es w =
     (if i < length es then
        (let e = es ! i in
         if ctx_err env w (we_ctx e) \<noteq> None \<or> timeout < time_since now (we_at e)
         then cleanup_slice env now timeout i (swap_remove i es)
                (if ctx_err env w (we_ctx e) = None
                 then invoke env (we_cb e) empty_ready (Some WaitTimeout) w else w)
         else cleanup_slice env now timeout (Suc i) es w)
      else (es, w))"
  by pat_completeness auto
termination
  by (relation "measure (\<lambda>(env, now, timeout, i, es, w). length es - i)") auto

declare cleanup_slice.simps [simp del]

lemma cleanup_slice_nil [simp]: "cleanup_slice env now timeout i [] w = ([], w)"
  by (simp add: cleanup_slice.simps)

definition cleanup_cid ::
  "('cb, 'w) cb_env \<Rightarrow> go_time \<Rightarrow> cid \<Rightarrow> ('s, 'cb) manager \<times> 'w \<Rightarrow> ('s, 'cb) manager \<times> 'w" where
  "cleanup_cid env now c = (\<lambda>(m, w).
     let (es, w') = cleanup_slice env now (await_timeout m) 0 (slice_at (wait_list m) c) w
     in (m\<lparr>wait_list := (wait_list m)(c := if es = [] then None else Some es)\<rparr>, w'))"

text \<open>One tick of \<open>startPollCleanup\<close>; \<open>cids\<close> is the order in which the map is ranged over.\<close>

definition cleanup_pass ::
  "('cb, 'w) cb_env \<Rightarrow> go_time \<Rightarrow> cid list \<Rightarrow> ('s, 'cb) manager \<times> 'w \<Rightarrow> ('s, 'cb) manager \<times> 'w" where
  "cleanup_pass env now cids = fold (cleanup_cid env now) cids"

section \<open>The operations on one state\<close>

lemma register_sel [simp]:
  "inner (register c e m) = inner m"
  "ready_blocks (register c e m) = ready_blocks m"
  "await_timeout (register c e m) = await_timeout m"
  "slice_at (wait_list (register c e m)) k =
     (if k = c then slice_at (wait_list m) c @ [e] else slice_at (wait_list m) k)"
  "dom (wait_list (register c e m)) = insert c (dom (wait_list m))"
  by (auto simp: register_def)

lemma send_ready_Sent:
  "send_ready pick cerr b m = Sent m' \<Longrightarrow>
     m' = m\<lparr>ready_blocks := ready_blocks m @ [b]\<rparr> \<and> length (ready_blocks m) < ready_cap"
  by (auto simp: send_ready_def split: if_splits option.splits)

lemma send_ready_room:
  "length (ready_blocks m) < ready_cap \<Longrightarrow>
     send_ready pick None b m = Sent (m\<lparr>ready_blocks := ready_blocks m @ [b]\<rparr>)"
  by (simp add: send_ready_def)

text \<open>The announcing loop sends a prefix of the blocks and returns or waits with the others.\<close>

lemma send_all_split:
  "send_all sel k bl m = (r, m') \<Longrightarrow>
     \<exists>sent rest. bl = sent @ rest \<and> m' = m\<lparr>ready_blocks := ready_blocks m @ sent\<rparr> \<and>
       (r = Returned None \<longrightarrow> rest = []) \<and> (r = Parked rest \<or> (\<exists>e. r = Returned e))"
proof (induction sel k bl m arbitrary: r m' rule: send_all.induct)
  case (1 sel k m)
  then show ?case by auto
next
  case (2 sel k b bl m)
  show ?case
  proof (cases "send_ready (fst (sel k)) (snd (sel k)) b m")
    case (Sent m1)
    with "2.prems" have "send_all sel (Suc k) bl m1 = (r, m')" by simp
    from "2.IH" [OF Sent this] obtain sent rest where
      "bl = sent @ rest" "m' = m1\<lparr>ready_blocks := ready_blocks m1 @ sent\<rparr>"
      "r = Returned None \<longrightarrow> rest = []" "r = Parked rest \<or> (\<exists>e. r = Returned e)"
      by blast
    with send_ready_Sent [OF Sent] show ?thesis
      by - (rule exI [of _ "b # sent"], rule exI [of _ "rest"], simp)
  next
    case (SendAborted e)
    with "2.prems" show ?thesis
      by - (rule exI [of _ "[]"], rule exI [of _ "b # bl"], auto)
  next
    case SendBlocked
    with "2.prems" show ?thesis
      by - (rule exI [of _ "[]"], rule exI [of _ "b # bl"], auto)
  qed
qed

lemma send_all_room:
  assumes "length (ready_blocks m) + length bl \<le> ready_cap" and "\<forall>i. snd (sel i) = None"
  shows "send_all sel k bl m = (Returned None, m\<lparr>ready_blocks := ready_blocks m @ bl\<rparr>)"
  using assms
proof (induction bl arbitrary: k m)
  case Nil
  then show ?case by simp
next
  case (Cons b bl)
  from Cons.prems have "send_ready (fst (sel k)) (snd (sel k)) b m =
      Sent (m\<lparr>ready_blocks := ready_blocks m @ [b]\<rparr>)"
    by (simp add: send_ready_room)
  with Cons show ?case by simp
qed

lemma notify_sel:
  "notify_wait_callbacks env b (m, w) =
     (m\<lparr>wait_list := (wait_list m)(rb_cid b := None)\<rparr>,
      fold (\<lambda>e. invoke env (we_cb e) b None) (slice_at (wait_list m) (rb_cid b)) w)"
  by (auto simp: notify_wait_callbacks_def slice_at_def fun_upd_idem split: option.splits)

section \<open>The cleanup loop\<close>

text \<open>The reference: which entries of a slice are dropped, and which of them are told.\<close>

definition overdue :: "go_time \<Rightarrow> duration \<Rightarrow> 'cb wait_entry \<Rightarrow> bool" where
  "overdue now timeout e \<longleftrightarrow> timeout < time_since now (we_at e)"

definition dropped :: "('cb, 'w) cb_env \<Rightarrow> go_time \<Rightarrow> duration \<Rightarrow> 'w \<Rightarrow> 'cb wait_entry \<Rightarrow> bool" where
  "dropped env now timeout w e \<longleftrightarrow> ctx_err env w (we_ctx e) \<noteq> None \<or> overdue now timeout e"

definition timed_out :: "('cb, 'w) cb_env \<Rightarrow> go_time \<Rightarrow> duration \<Rightarrow> 'w \<Rightarrow> 'cb wait_entry \<Rightarrow> bool" where
  "timed_out env now timeout w e \<longleftrightarrow> ctx_err env w (we_ctx e) = None \<and> overdue now timeout e"

definition tell_timeout :: "('cb, 'w) cb_env \<Rightarrow> 'cb wait_entry \<Rightarrow> 'w \<Rightarrow> 'w" where
  "tell_timeout env e w = invoke env (we_cb e) empty_ready (Some WaitTimeout) w"

text \<open>A callback of an entry can end the entry's own context, and no other context of the list.\<close>

definition ctx_local :: "('cb, 'w) cb_env \<Rightarrow> 'cb wait_entry list \<Rightarrow> bool" where
  "ctx_local env es \<longleftrightarrow> distinct (map we_ctx es) \<and>
     (\<forall>e \<in> set es. \<forall>e' \<in> set es. \<forall>w b r. we_ctx e' \<noteq> we_ctx e \<longrightarrow>
        ctx_err env (invoke env (we_cb e) b r w) (we_ctx e') = ctx_err env w (we_ctx e'))"

lemma ctx_local_permI:
  assumes "mset es = mset (es' @ zs)" and "ctx_local env es"
  shows "ctx_local env (es' @ zs)"
proof -
  from assms(1) have "mset (map we_ctx es) = mset (map we_ctx (es' @ zs))"
    by (metis mset_map)
  then have "distinct (map we_ctx es) = distinct (map we_ctx (es' @ zs))"
    by (rule mset_eq_imp_distinct_iff)
  moreover from assms(1) have "set es = set (es' @ zs)"
    by (rule mset_eq_setD)
  ultimately show ?thesis
    using assms(2) by (simp add: ctx_local_def)
qed

lemma ctx_local_appendD: "ctx_local env (xs @ ys) \<Longrightarrow> ctx_local env xs"
  by (auto simp: ctx_local_def)

lemma ctx_local_swap_remove:
  assumes "ctx_local env es" and "i < length es"
  shows "ctx_local env (swap_remove i es)"
    and "\<forall>e \<in> set (swap_remove i es). we_ctx e \<noteq> we_ctx (es ! i)"
proof -
  have "mset es = mset (swap_remove i es @ [es ! i])"
    using mset_swap_remove [OF assms(2)] by simp
  then have loc: "ctx_local env (swap_remove i es @ [es ! i])"
    using assms(1) by (rule ctx_local_permI)
  then show "ctx_local env (swap_remove i es)"
    by (rule ctx_local_appendD)
  from loc have "we_ctx (es ! i) \<notin> we_ctx ` set (swap_remove i es)"
    by (simp add: ctx_local_def)
  then show "\<forall>e \<in> set (swap_remove i es). we_ctx e \<noteq> we_ctx (es ! i)"
    by (metis imageI)
qed

lemma dropped_tell_other:
  assumes "ctx_local env es" and "e \<in> set es" and "e' \<in> set es" and "we_ctx e' \<noteq> we_ctx e"
  shows "dropped env now timeout (tell_timeout env e w) e' = dropped env now timeout w e'"
    and "timed_out env now timeout (tell_timeout env e w) e' = timed_out env now timeout w e'"
  using assms by (auto simp: ctx_local_def dropped_def timed_out_def tell_timeout_def)

text \<open>
  The swap-remove loop keeps exactly the entries that are not dropped, and calls each timed-out
  one exactly once.
\<close>

lemma cleanup_slice_from:
  assumes "i \<le> length es" and "ctx_local env es"
    and "\<forall>e \<in> set (take i es). \<not> dropped env now timeout w e"
  shows "\<exists>told. mset told = filter_mset (timed_out env now timeout w) (mset es) \<and>
     snd (cleanup_slice env now timeout i es w) = fold (tell_timeout env) told w \<and>
     mset (fst (cleanup_slice env now timeout i es w)) =
       filter_mset (\<lambda>e. \<not> dropped env now timeout w e) (mset es)"
  using assms
proof (induction env now timeout i es w rule: cleanup_slice.induct)
  case (1 env now timeout i es w)
  note unfold = cleanup_slice.simps [of env now timeout i es w]
  let ?e = "es ! i" and ?es = "swap_remove i es"
  show ?case
  proof (cases "i < length es")
    case False
    with "1.prems" have keep: "\<forall>e \<in> set es. \<not> dropped env now timeout w e" by simp
    then have "filter_mset (timed_out env now timeout w) (mset es) = {#}"
      by (auto simp: dropped_def timed_out_def)
    moreover have "filter_mset (\<lambda>e. \<not> dropped env now timeout w e) (mset es) = mset es"
      using keep by (simp add: filter_mset_eq_conv)
    ultimately show ?thesis using False unfold by (intro exI [of _ "[]"]) simp
  next
    case True
    show ?thesis
    proof (cases "dropped env now timeout w ?e")
      case False
      with True "1.prems" have "\<forall>e \<in> set (take (Suc i) es). \<not> dropped env now timeout w e"
        by (auto simp: take_Suc_conv_app_nth)
      moreover from False have nd: "\<not> (ctx_err env w (we_ctx ?e) \<noteq> None \<or> timeout < time_since now (we_at ?e))"
        by (simp add: dropped_def overdue_def)
      ultimately show ?thesis
        using "1.IH"(2) [OF True refl nd] True "1.prems" unfold nd by simp
    next
      case drop: True
      let ?w = "if ctx_err env w (we_ctx ?e) = None then tell_timeout env ?e w else w"
      have d: "ctx_err env w (we_ctx ?e) \<noteq> None \<or> timeout < time_since now (we_at ?e)"
        using drop by (simp add: dropped_def overdue_def)
      note loc = ctx_local_swap_remove [OF "1.prems"(2) True]
      have same: "dropped env now timeout ?w e' = dropped env now timeout w e'"
        "timed_out env now timeout ?w e' = timed_out env now timeout w e'"
        if "e' \<in> set ?es" for e'
        using dropped_tell_other [OF "1.prems"(2) nth_mem [OF True]] loc(2) that
          set_swap_remove [OF True] by auto
      have "set (take i ?es) \<subseteq> set ?es" by (rule set_take_subset)
      moreover have "take i ?es = take i es" using True by (rule take_swap_remove)
      ultimately have pre: "\<forall>e \<in> set (take i ?es). \<not> dropped env now timeout ?w e"
        using "1.prems"(3) same(1) by (metis subsetD)
      have le: "i \<le> length ?es" using True by simp
      from "1.IH"(1) [OF True refl d] le loc(1) pre obtain told where told:
        "mset told = filter_mset (timed_out env now timeout ?w) (mset ?es)"
        "snd (cleanup_slice env now timeout i ?es ?w) = fold (tell_timeout env) told ?w"
        "mset (fst (cleanup_slice env now timeout i ?es ?w)) =
           filter_mset (\<lambda>e. \<not> dropped env now timeout ?w e) (mset ?es)"
        unfolding tell_timeout_def by blast
      have step: "cleanup_slice env now timeout i es w = cleanup_slice env now timeout i ?es ?w"
        using unfold True d by (simp add: tell_timeout_def Let_def)
      have filters: "filter_mset (timed_out env now timeout ?w) (mset ?es) =
          filter_mset (timed_out env now timeout w) (mset ?es)"
        "filter_mset (\<lambda>e. \<not> dropped env now timeout ?w e) (mset ?es) =
          filter_mset (\<lambda>e. \<not> dropped env now timeout w e) (mset ?es)"
        using same by (auto intro!: filter_mset_cong)
      note split = mset_swap_remove [OF True]
      show ?thesis
      proof (cases "ctx_err env w (we_ctx ?e) = None")
        case True
        with d have "timed_out env now timeout w ?e"
          by (simp add: timed_out_def overdue_def)
        with True told step filters split drop show ?thesis
          by (intro exI [of _ "?e # told"]) simp
      next
        case False
        then have "\<not> timed_out env now timeout w ?e" by (simp add: timed_out_def)
        with False told step filters split drop show ?thesis
          by (intro exI [of _ told]) auto
      qed
    qed
  qed
qed

lemma dropped_fold_tell_other:
  assumes "ctx_local env (es @ zs)" and "set told \<subseteq> set es" and "e \<in> set zs"
  shows "dropped env now timeout (fold (tell_timeout env) told w) e = dropped env now timeout w e \<and>
     timed_out env now timeout (fold (tell_timeout env) told w) e = timed_out env now timeout w e"
  using assms(2)
proof (induction told arbitrary: w)
  case Nil
  then show ?case by simp
next
  case (Cons a told)
  then have "a \<in> set (es @ zs)" and "e \<in> set (es @ zs)" and "we_ctx e \<noteq> we_ctx a"
    using assms(1,3) by (auto simp: ctx_local_def)
  with Cons assms(1) show ?case
    by (simp add: dropped_tell_other [OF assms(1)])
qed

definition waiting_entries :: "'cb wait_map \<Rightarrow> cid list \<Rightarrow> 'cb wait_entry list" where
  "waiting_entries wl cids = concat (map (slice_at wl) cids)"

lemma cleanup_cid_result:
  fixes m :: "('s, 'cb) manager"
  assumes "ctx_local env (slice_at (wait_list m) c)"
  obtains told m' where
    "cleanup_cid env now c (m, w) = (m', fold (tell_timeout env) told w)"
    "mset told = filter_mset (timed_out env now (await_timeout m) w) (mset (slice_at (wait_list m) c))"
    "mset (slice_at (wait_list m') c) =
       filter_mset (\<lambda>e. \<not> dropped env now (await_timeout m) w e) (mset (slice_at (wait_list m) c))"
    "\<forall>k. k \<noteq> c \<longrightarrow> wait_list m' k = wait_list m k" "wait_list m' c \<noteq> Some []"
    "inner m' = inner m" "ready_blocks m' = ready_blocks m" "await_timeout m' = await_timeout m"
proof -
  let ?es = "slice_at (wait_list m) c"
  let ?r = "cleanup_slice env now (await_timeout m) 0 ?es w"
  from cleanup_slice_from [of 0 ?es env now "await_timeout m" w] assms
  obtain told where told:
    "mset told = filter_mset (timed_out env now (await_timeout m) w) (mset ?es)"
    "snd ?r = fold (tell_timeout env) told w"
    "mset (fst ?r) = filter_mset (\<lambda>e. \<not> dropped env now (await_timeout m) w e) (mset ?es)"
    by auto
  let ?m = "m\<lparr>wait_list := (wait_list m)(c := if fst ?r = [] then None else Some (fst ?r))\<rparr>"
  have "cleanup_cid env now c (m, w) = (?m, fold (tell_timeout env) told w)"
    using told(2) by (simp add: cleanup_cid_def split_beta)
  moreover have "slice_at (wait_list ?m) c = fst ?r" by (simp add: slice_at_def)
  ultimately show thesis
    using told by (intro that [of ?m told]) auto
qed

lemma cleanup_pass_from:
  fixes m :: "('s, 'cb) manager"
  assumes "distinct cids" and "ctx_local env (waiting_entries (wait_list m) cids)"
  shows "\<exists>told m'. cleanup_pass env now cids (m, w) = (m', fold (tell_timeout env) told w) \<and>
     mset told = filter_mset (timed_out env now (await_timeout m) w)
       (mset (waiting_entries (wait_list m) cids)) \<and>
     (\<forall>c \<in> set cids. mset (slice_at (wait_list m') c) =
        filter_mset (\<lambda>e. \<not> dropped env now (await_timeout m) w e) (mset (slice_at (wait_list m) c)) \<and>
        wait_list m' c \<noteq> Some []) \<and>
     (\<forall>c. c \<notin> set cids \<longrightarrow> wait_list m' c = wait_list m c) \<and>
     inner m' = inner m \<and> ready_blocks m' = ready_blocks m \<and> await_timeout m' = await_timeout m"
  using assms
proof (induction cids arbitrary: m w)
  case Nil
  then show ?case
    by - (rule exI [of _ "[]"], rule exI [of _ m], simp add: cleanup_pass_def waiting_entries_def)
next
  case (Cons c cids)
  let ?es = "slice_at (wait_list m) c" and ?zs = "waiting_entries (wait_list m) cids"
  have app: "waiting_entries (wait_list m) (c # cids) = ?es @ ?zs"
    by (simp add: waiting_entries_def)
  with Cons.prems have loc: "ctx_local env (?es @ ?zs)" and "c \<notin> set cids" and "distinct cids"
    by simp_all
  obtain told1 m1 where one:
    "cleanup_cid env now c (m, w) = (m1, fold (tell_timeout env) told1 w)"
    "mset told1 = filter_mset (timed_out env now (await_timeout m) w) (mset ?es)"
    "mset (slice_at (wait_list m1) c) =
       filter_mset (\<lambda>e. \<not> dropped env now (await_timeout m) w e) (mset ?es)"
    "\<forall>k. k \<noteq> c \<longrightarrow> wait_list m1 k = wait_list m k" "wait_list m1 c \<noteq> Some []"
    "inner m1 = inner m" "ready_blocks m1 = ready_blocks m" "await_timeout m1 = await_timeout m"
    by (rule cleanup_cid_result [OF ctx_local_appendD [OF loc]])
  let ?w = "fold (tell_timeout env) told1 w"
  have same: "slice_at (wait_list m1) k = slice_at (wait_list m) k" if "k \<in> set cids" for k
    using that \<open>c \<notin> set cids\<close> one(4) by (auto simp: slice_at_def)
  then have zs: "waiting_entries (wait_list m1) cids = ?zs"
    by (auto simp: waiting_entries_def intro!: arg_cong [where f = concat] map_cong)
  have "ctx_local env ?zs" using loc by (auto simp: ctx_local_def)
  with Cons.IH [of m1 ?w] \<open>distinct cids\<close> zs one(8) obtain told2 m2 where two:
    "cleanup_pass env now cids (m1, ?w) = (m2, fold (tell_timeout env) told2 ?w)"
    "mset told2 = filter_mset (timed_out env now (await_timeout m) ?w) (mset ?zs)"
    "\<forall>k \<in> set cids. mset (slice_at (wait_list m2) k) =
        filter_mset (\<lambda>e. \<not> dropped env now (await_timeout m) ?w e) (mset (slice_at (wait_list m1) k)) \<and>
        wait_list m2 k \<noteq> Some []"
    "\<forall>k. k \<notin> set cids \<longrightarrow> wait_list m2 k = wait_list m1 k"
    "inner m2 = inner m1" "ready_blocks m2 = ready_blocks m1" "await_timeout m2 = await_timeout m"
    by auto
  have told1: "set told1 \<subseteq> set ?es"
    using one(2) by (metis multiset_filter_subset set_mset_mono set_mset_mset)
  note keep = dropped_fold_tell_other [OF loc told1]
  have in_zs: "set (slice_at (wait_list m) k) \<subseteq> set ?zs" if "k \<in> set cids" for k
    using that by (auto simp: waiting_entries_def)
  have f2: "mset told2 = filter_mset (timed_out env now (await_timeout m) w) (mset ?zs)"
    using two(2) keep by (auto intro!: filter_mset_cong)
  have f3: "mset (slice_at (wait_list m2) k) =
      filter_mset (\<lambda>e. \<not> dropped env now (await_timeout m) w e) (mset (slice_at (wait_list m) k))"
    if "k \<in> set cids" for k
    using two(3) same keep in_zs that by (fastforce intro!: filter_mset_cong)
  have "wait_list m2 c = wait_list m1 c" using two(4) \<open>c \<notin> set cids\<close> by simp
  then have c2: "slice_at (wait_list m2) c = slice_at (wait_list m1) c" by (simp add: slice_at_def)
  show ?case
    using one two f2 f3 c2 app \<open>wait_list m2 c = wait_list m1 c\<close>
    by - (rule exI [of _ "told1 @ told2"], rule exI [of _ m2], auto simp: cleanup_pass_def)
qed

section \<open>Properties\<close>

text \<open>C11. One tick of the cleanup goroutine, whatever the order in which the map is ranged over:
  of every slice it keeps exactly the entries whose context is live and that have not waited
  longer than the timeout; it calls each entry that timed out with a live context exactly once, with
  \<open>ErrWaitTimeout\<close>, and none with a done context; no key is left with an empty slice; the store,
  the channel and the timeout are untouched.\<close>

theorem cleanup_pass_correct:
  fixes m :: "('s, 'cb) manager"
  assumes "distinct cids" and "set cids = dom (wait_list m)"
    and "ctx_local env (waiting_entries (wait_list m) cids)"
  shows "\<exists>told m'. cleanup_pass env now cids (m, w) = (m', fold (tell_timeout env) told w) \<and>
     mset told = filter_mset (timed_out env now (await_timeout m) w)
       (mset (waiting_entries (wait_list m) cids)) \<and>
     (\<forall>c. mset (slice_at (wait_list m') c) =
        filter_mset (\<lambda>e. \<not> dropped env now (await_timeout m) w e) (mset (slice_at (wait_list m) c)) \<and>
        (wait_list m' c \<noteq> Some [])) \<and>
     inner m' = inner m \<and> ready_blocks m' = ready_blocks m \<and> await_timeout m' = await_timeout m"
proof -
  from cleanup_pass_from [OF assms(1,3), of now w] obtain told m' where r:
    "cleanup_pass env now cids (m, w) = (m', fold (tell_timeout env) told w)"
    "mset told = filter_mset (timed_out env now (await_timeout m) w) (mset (waiting_entries (wait_list m) cids))"
    "\<forall>c \<in> set cids. mset (slice_at (wait_list m') c) =
        filter_mset (\<lambda>e. \<not> dropped env now (await_timeout m) w e) (mset (slice_at (wait_list m) c)) \<and>
        wait_list m' c \<noteq> Some []"
    "\<forall>c. c \<notin> set cids \<longrightarrow> wait_list m' c = wait_list m c"
    "inner m' = inner m" "ready_blocks m' = ready_blocks m" "await_timeout m' = await_timeout m"
    by blast
  have "mset (slice_at (wait_list m') c) =
      filter_mset (\<lambda>e. \<not> dropped env now (await_timeout m) w e) (mset (slice_at (wait_list m) c)) \<and>
      wait_list m' c \<noteq> Some []" for c
  proof (cases "c \<in> set cids")
    case True
    with r(3) show ?thesis by blast
  next
    case False
    with assms(2) have "wait_list m c = None" by (auto simp: domIff)
    with False r(4) show ?thesis by simp
  qed
  with r show ?thesis by blast
qed

definition demo_env :: "(nat, nat list) cb_env" where
  "demo_env = \<lparr>ctx_err = (\<lambda>w x. if x = Root 2 then Some CtxDone else None), invoke = (\<lambda>cb b e w. w @ [cb])\<rparr>"

definition demo_entries :: "nat wait_entry list" where
  "demo_entries = [\<lparr>we_ctx = Root 1, we_cb = 11, we_at = 0\<rparr>, \<lparr>we_ctx = Root 2, we_cb = 12, we_at = 900\<rparr>,
     \<lparr>we_ctx = Root 3, we_cb = 13, we_at = 950\<rparr>]"

definition demo_manager :: "(mem_store, nat) manager" where
  "demo_manager = \<lparr>inner = [], ready_blocks = [], wait_list = [Cid ''a'' \<mapsto> demo_entries],
     await_timeout = 500\<rparr>"

lemmas demo_defs = demo_env_def demo_entries_def demo_manager_def

theorem cleanup_pass_correct_witness:
  "\<exists>told m'. cleanup_pass demo_env 1000 [Cid ''a''] (demo_manager, []) =
       (m', fold (tell_timeout demo_env) told []) \<and>
     mset told = {#demo_entries ! 0#} \<and> mset (slice_at (wait_list m') (Cid ''a'')) = {#demo_entries ! 2#}"
proof -
  have "distinct [Cid ''a'']" and "set [Cid ''a''] = dom (wait_list demo_manager)"
    and "ctx_local demo_env (waiting_entries (wait_list demo_manager) [Cid ''a''])"
    by (simp_all add: demo_defs waiting_entries_def ctx_local_def)
  from cleanup_pass_correct [OF this, of 1000 "[]"] obtain told m' where
    "cleanup_pass demo_env 1000 [Cid ''a''] (demo_manager, []) = (m', fold (tell_timeout demo_env) told [])"
    "mset told = filter_mset (timed_out demo_env 1000 500 []) (mset demo_entries)"
    "mset (slice_at (wait_list m') (Cid ''a'')) =
       filter_mset (\<lambda>e. \<not> dropped demo_env 1000 500 [] e) (mset demo_entries)"
    by (auto simp: demo_manager_def waiting_entries_def)
  then show ?thesis
    by (intro exI [of _ told] exI [of _ m'])
      (simp add: demo_defs timed_out_def dropped_def overdue_def time_since_def duration_defs)
qed

text \<open>A put through the manager wakes every waiter: when the store accepts the block, the
  channel was empty and the context is live, \<open>Put\<close> returns without an error, and the notifier's next
  iteration calls every entry registered for the block's identifier once, in the order of
  registration, with the identifier and the length of the data, and takes the whole slice off the
  wait list; the slices of other identifiers are untouched.\<close>

lemma put_wakes_waiters:
  fixes m :: "('s, 'cb) manager"
  assumes "bs_put bs (inner m) b = (None, s')" and "ready_blocks m = []" and "\<forall>i. snd (sel i) = None"
  shows "\<exists>m1 m2. manager_put bs sel b m = (Returned None, m1) \<and>
     poll_ready env (m1, w) = Some (m2, fold (\<lambda>e. invoke env (we_cb e)
        \<lparr>rb_cid = blk_cid b, rb_size = int (length (raw_data b))\<rparr> None)
        (slice_at (wait_list m) (blk_cid b)) w) \<and>
     wait_list m2 (blk_cid b) = None \<and> (\<forall>c. c \<noteq> blk_cid b \<longrightarrow> wait_list m2 c = wait_list m c) \<and>
     ready_blocks m2 = [] \<and> inner m2 = s'"
proof -
  have "send_all sel 0 [ready_of b] (m\<lparr>inner := s'\<rparr>) =
      (Returned None, m\<lparr>inner := s', ready_blocks := [ready_of b]\<rparr>)"
    using send_all_room [of "m\<lparr>inner := s'\<rparr>" "[ready_of b]" sel 0] assms(2,3)
    by (simp add: ready_cap_def)
  with assms show ?thesis
    by (simp add: manager_put_def poll_ready_def notify_sel ready_of_def)
qed

theorem put_wakes_waiters_witness:
  "\<exists>m1 m2. manager_put mem_blockstore (\<lambda>i. (True, None)) \<lparr>blk_cid = Cid ''a'', raw_data = ''xyz''\<rparr> demo_manager =
       (Returned None, m1) \<and> poll_ready demo_env (m1, []) = Some (m2, [11, 12, 13]) \<and>
       wait_list m2 (Cid ''a'') = None"
proof -
  let ?b = "\<lparr>blk_cid = Cid ''a'', raw_data = ''xyz''\<rparr>"
  have "bs_put mem_blockstore (inner demo_manager) ?b = (None, [(Cid ''a'', ''xyz'')])"
    and "ready_blocks demo_manager = []" and "\<forall>i :: nat. snd ((\<lambda>i. (True, None :: go_error option)) i) = None"
    by (simp_all add: demo_manager_def mem_put_def)
  from put_wakes_waiters [OF this, of demo_env "[]"] show ?thesis
    by (auto simp: demo_defs)
qed


section \<open>One put of many blocks and many puts of one\<close>

text \<open>The reference for \<open>PutMany\<close>: a \<open>Put\<close> for each block, up to the first that does not succeed.\<close>

fun put_each ::
  "'s blockstore \<Rightarrow> (nat \<Rightarrow> bool \<times> go_error option) \<Rightarrow> block list \<Rightarrow> ('s, 'cb) manager \<Rightarrow> put_status \<times> ('s, 'cb) manager" where
  "put_each bs sel [] m = (Returned None, m)"
| "put_each bs sel (b # blks) m =
     (case manager_put bs sel b m of
        (Returned None, m') \<Rightarrow> put_each bs sel blks m'
      | (Returned (Some e), m') \<Rightarrow> (Returned (Some e), m')
      | (Parked bl, m') \<Rightarrow> (Parked bl, m'))"

lemma manager_put_ok:
  assumes "manager_put bs sel b m = (Returned None, m')"
  shows "\<exists>st. bs_put bs (inner m) b = (None, st) \<and> m' = m\<lparr>inner := st, ready_blocks := ready_blocks m @ [ready_of b]\<rparr>"
proof -
  obtain st where st: "bs_put bs (inner m) b = (None, st)" "send_all sel 0 [ready_of b] (m\<lparr>inner := st\<rparr>) = (Returned None, m')"
    using assms by (auto simp: manager_put_def split: prod.splits option.splits)
  with send_all_split [OF st(2)] show ?thesis by auto
qed

lemma manager_put_many_ok:
  assumes "manager_put_many bs sel blks m = (Returned None, m')"
  shows "\<exists>st. bs_put_many bs (inner m) blks = (None, st) \<and>
     m' = m\<lparr>inner := st, ready_blocks := ready_blocks m @ map ready_of blks\<rparr>"
proof -
  obtain st where st: "bs_put_many bs (inner m) blks = (None, st)"
    "send_all sel 0 (map ready_of blks) (m\<lparr>inner := st\<rparr>) = (Returned None, m')"
    using assms by (auto simp: manager_put_many_def split: prod.splits option.splits)
  with send_all_split [OF st(2)] show ?thesis by auto
qed

text \<open>C28. \<open>PutMany\<close> does what a \<open>Put\<close> of each block does. When both succeed, whatever the state of the channel and of the
  contexts, the same blocks are announced in the same order, the store holds the same contents, and the
  waiters and the timeout are untouched, so that whatever runs next, the notifier first, finds the same.\<close>

theorem put_many_is_put_each:
  assumes "block_store bs contents"
    and "manager_put_many bs sel blks m = (Returned None, m1)" and "put_each bs sel' blks m = (Returned None, m2)"
  shows "contents (inner m1) = contents (inner m2) \<and> ready_blocks m1 = ready_blocks m2 \<and>
     wait_list m1 = wait_list m2 \<and> await_timeout m1 = await_timeout m2 \<and>
     contents (inner m1) = fold add_block blks (contents (inner m)) \<and>
     ready_blocks m1 = ready_blocks m @ map ready_of blks \<and> wait_list m1 = wait_list m"
proof -
  obtain st where one: "bs_put_many bs (inner m) blks = (None, st)"
    "m1 = m\<lparr>inner := st, ready_blocks := ready_blocks m @ map ready_of blks\<rparr>"
    using manager_put_many_ok [OF assms(2)] by blast
  have each: "contents (inner m2) = fold add_block blks (contents (inner m)) \<and>
      ready_blocks m2 = ready_blocks m @ map ready_of blks \<and> wait_list m2 = wait_list m \<and> await_timeout m2 = await_timeout m"
    using assms(3)
  proof (induction blks arbitrary: m)
    case (Cons b blks)
    then obtain m' where put: "manager_put bs sel' b m = (Returned None, m')" "put_each bs sel' blks m' = (Returned None, m2)"
      by (auto split: prod.splits put_status.splits option.splits)
    then obtain st' where st': "bs_put bs (inner m) b = (None, st')"
      "m' = m\<lparr>inner := st', ready_blocks := ready_blocks m @ [ready_of b]\<rparr>"
      using manager_put_ok by blast
    with Cons.IH [OF put(2)] block_store.put_ok [OF assms(1) st'(1)] show ?case by simp
  qed simp
  with one block_store.put_many_ok [OF assms(1) one(1)] show ?thesis by simp
qed

lemma put_many_is_put_each_witness:
  "map_of (inner (snd (put_each mem_blockstore (\<lambda>i. (True, None)) [\<lparr>blk_cid = Cid ''a'', raw_data = ''x''\<rparr>,
       \<lparr>blk_cid = Cid ''b'', raw_data = ''y''\<rparr>] (fst (new_manager [] second :: (mem_store, unit) manager \<times> goroutine list))))) (Cid ''b'') =
     Some ''y''"
proof -
  let ?blks = "[\<lparr>blk_cid = Cid ''a'', raw_data = ''x''\<rparr>, \<lparr>blk_cid = Cid ''b'', raw_data = ''y''\<rparr>]"
  let ?m = "fst (new_manager [] second) :: (mem_store, unit) manager" and ?sel = "\<lambda>i :: nat. (True, None :: go_error option)"
  obtain m1 where 1: "manager_put_many mem_blockstore ?sel ?blks ?m = (Returned None, m1)"
    by (simp add: manager_put_many_def new_manager_def send_ready_def ready_cap_def)
  obtain m2 where 2: "put_each mem_blockstore ?sel ?blks ?m = (Returned None, m2)"
    by (simp add: manager_put_def new_manager_def send_ready_def ready_cap_def)
  have "map_of (inner m2) = fold add_block ?blks (map_of (inner ?m))"
    using put_many_is_put_each [OF mem.block_store_axioms 1 2] by metis
  then have "map_of (inner m2) (Cid ''b'') = Some ''y''" by (simp add: new_manager_def add_block_def)
  then show ?thesis unfolding 2 by simp
qed

end
