(* ===== verification/Manager_Runs.thy ===== *)
theory Manager_Runs
  imports Block_Manager
begin

text \<open>
  The manager under concurrency. Goroutines of four kinds share one \<open>blocks.Manager\<close>: callers of
  \<open>AwaitBlock\<close>, callers of \<open>Put\<close> and \<open>PutMany\<close>, the notifier \<open>startPollReadyBlocks\<close> and the
  ticker \<open>startPollCleanup\<close>. A step is what one of them does between two points where another can
  run: \<open>waitListLk\<close> is held from the lookup of \<open>AwaitBlock\<close> to its append and during a whole cleanup
  pass, but not by a put, which first writes the store and then sends its blocks one at a time.
  Blocks may also be deleted, and may be written to the wrapped store without going through the
  manager, as the link system of the bitswap provider does.
\<close>

section \<open>States and steps\<close>

record ('s, 'cb, 'w) msys =
  ms_mgr :: "('s, 'cb) manager"
  ms_world :: 'w
  ms_holder :: "(cid \<times> ctx \<times> 'cb) option"
    \<comment> \<open>an \<open>AwaitBlock\<close> that holds the lock, past a lookup that found nothing\<close>
  ms_senders :: "(ctx \<times> ready_block list) list"
    \<comment> \<open>puts that have written the store, with the blocks they have not sent yet\<close>
  ms_notifying :: "ready_block option"
    \<comment> \<open>the block the notifier has received, before it takes the lock\<close>

datatype 'cb mevent =
    Awaited ctx 'cb          \<comment> \<open>\<open>AwaitBlock\<close> called, up to its append\<close>
  | Registered               \<comment> \<open>the append, and the release of the lock\<close>
  | Stored "cid set"         \<comment> \<open>the store write of a put, to be announced\<close>
  | PutFailed                \<comment> \<open>a failed \<open>Put\<close>\<close>
  | PutManyFailed            \<comment> \<open>a failed \<open>PutMany\<close>\<close>
  | Announced                \<comment> \<open>one send to the channel\<close>
  | SendsDropped "cid set"   \<comment> \<open>a put that sees its context done and returns\<close>
  | PutReturned
  | Received
  | Notified ready_block
  | Cleaned
  | Deleted cid
  | WrittenInside "cid set"  \<comment> \<open>a write to the wrapped store itself\<close>
  | Elsewhere                \<comment> \<open>the rest of the program\<close>

definition init_msys :: "('s, 'cb) manager \<Rightarrow> 'w \<Rightarrow> ('s, 'cb, 'w) msys" where
  "init_msys m w = \<lparr>ms_mgr = m, ms_world = w, ms_holder = None, ms_senders = [], ms_notifying = None\<rparr>"

abbreviation set_inner :: "'s \<Rightarrow> ('s, 'cb, 'w) msys \<Rightarrow> ('s, 'cb, 'w) msys" where
  "set_inner st s \<equiv> s\<lparr>ms_mgr := (ms_mgr s)\<lparr>inner := st\<rparr>\<rparr>"

inductive mgr_step ::
  "'s blockstore \<Rightarrow> ('cb, 'w) cb_env \<Rightarrow> ('w \<Rightarrow> 'w \<Rightarrow> bool) \<Rightarrow>
   ('s, 'cb, 'w) msys \<Rightarrow> 'cb mevent \<Rightarrow> ('s, 'cb, 'w) msys \<Rightarrow> bool"
  for bs :: "'s blockstore" and env :: "('cb, 'w) cb_env" and wstep :: "'w \<Rightarrow> 'w \<Rightarrow> bool" where
  await_now: "ms_holder s = None \<Longrightarrow>
     \<forall>e. bs_get_size bs (inner (ms_mgr s)) c = Inl e \<longrightarrow> \<not> is_not_found e \<Longrightarrow>
     await_block bs env now x c cb (ms_mgr s, ms_world s) = (hit, m', w') \<Longrightarrow>
     mgr_step bs env wstep s (Awaited x cb) (s\<lparr>ms_mgr := m', ms_world := w'\<rparr>)"
| await_miss: "ms_holder s = None \<Longrightarrow> bs_get_size bs (inner (ms_mgr s)) c = Inl e \<Longrightarrow> is_not_found e \<Longrightarrow>
     mgr_step bs env wstep s (Awaited x cb) (s\<lparr>ms_holder := Some (c, x, cb)\<rparr>)"
| await_register: "ms_holder s = Some (c, x, cb) \<Longrightarrow>
     mgr_step bs env wstep s Registered
       (s\<lparr>ms_holder := None, ms_mgr := register c \<lparr>we_ctx = x, we_cb = cb, we_at = now\<rparr> (ms_mgr s)\<rparr>)"
| put_store: "bs_put bs (inner (ms_mgr s)) b = (None, st) \<Longrightarrow>
     mgr_step bs env wstep s (Stored {blk_cid b})
       ((set_inner st s)\<lparr>ms_senders := ms_senders s @ [(x, [ready_of b])]\<rparr>)"
| put_store_many: "bs_put_many bs (inner (ms_mgr s)) blks = (None, st) \<Longrightarrow>
     mgr_step bs env wstep s (Stored (blk_cid ` set blks))
       ((set_inner st s)\<lparr>ms_senders := ms_senders s @ [(x, map ready_of blks)]\<rparr>)"
| put_failed: "bs_put bs (inner (ms_mgr s)) b = (Some e, st) \<Longrightarrow>
     mgr_step bs env wstep s PutFailed (set_inner st s)"
| put_many_failed: "bs_put_many bs (inner (ms_mgr s)) blks = (Some e, st) \<Longrightarrow>
     mgr_step bs env wstep s PutManyFailed (set_inner st s)"
| announce: "ms_senders s = ss @ (x, b # bl) # ss' \<Longrightarrow>
     send_ready pick (ctx_err env (ms_world s) x) b (ms_mgr s) = Sent m' \<Longrightarrow>
     mgr_step bs env wstep s Announced (s\<lparr>ms_mgr := m', ms_senders := ss @ (x, bl) # ss'\<rparr>)"
| drop_sends: "ms_senders s = ss @ (x, b # bl) # ss' \<Longrightarrow>
     send_ready pick (ctx_err env (ms_world s) x) b (ms_mgr s) = SendAborted e \<Longrightarrow>
     mgr_step bs env wstep s (SendsDropped (rb_cid ` set (b # bl))) (s\<lparr>ms_senders := ss @ ss'\<rparr>)"
| put_return: "ms_senders s = ss @ (x, []) # ss' \<Longrightarrow>
     mgr_step bs env wstep s PutReturned (s\<lparr>ms_senders := ss @ ss'\<rparr>)"
| receive: "ms_notifying s = None \<Longrightarrow> ready_blocks (ms_mgr s) = b # bl \<Longrightarrow>
     mgr_step bs env wstep s Received
       (s\<lparr>ms_mgr := (ms_mgr s)\<lparr>ready_blocks := bl\<rparr>, ms_notifying := Some b\<rparr>)"
| notify: "ms_notifying s = Some b \<Longrightarrow> ms_holder s = None \<Longrightarrow>
     notify_wait_callbacks env b (ms_mgr s, ms_world s) = (m', w') \<Longrightarrow>
     mgr_step bs env wstep s (Notified b) (s\<lparr>ms_mgr := m', ms_world := w', ms_notifying := None\<rparr>)"
| cleanup: "ms_holder s = None \<Longrightarrow> await_timeout (ms_mgr s) \<noteq> 0 \<Longrightarrow>
     distinct cids \<Longrightarrow> set cids = dom (wait_list (ms_mgr s)) \<Longrightarrow>
     cleanup_pass env now cids (ms_mgr s, ms_world s) = (m', w') \<Longrightarrow>
     mgr_step bs env wstep s Cleaned (s\<lparr>ms_mgr := m', ms_world := w'\<rparr>)"
| delete: "bs_delete bs (inner (ms_mgr s)) c = (r, st) \<Longrightarrow>
     mgr_step bs env wstep s (Deleted c) (set_inner st s)"
| write_inside: "bs_put bs (inner (ms_mgr s)) b = (r, st) \<Longrightarrow>
     mgr_step bs env wstep s (WrittenInside {blk_cid b}) (set_inner st s)"
| elsewhere: "wstep (ms_world s) w' \<Longrightarrow>
     mgr_step bs env wstep s Elsewhere (s\<lparr>ms_world := w'\<rparr>)"

inductive mgr_run ::
  "'s blockstore \<Rightarrow> ('cb, 'w) cb_env \<Rightarrow> ('w \<Rightarrow> 'w \<Rightarrow> bool) \<Rightarrow>
   ('s, 'cb, 'w) msys \<Rightarrow> 'cb mevent list \<Rightarrow> ('s, 'cb, 'w) msys \<Rightarrow> bool"
  for bs :: "'s blockstore" and env :: "('cb, 'w) cb_env" and wstep :: "'w \<Rightarrow> 'w \<Rightarrow> bool" where
  run_nil: "mgr_run bs env wstep s [] s"
| run_step: "mgr_run bs env wstep s evs t \<Longrightarrow> mgr_step bs env wstep t ev u \<Longrightarrow>
     mgr_run bs env wstep s (evs @ [ev]) u"

section \<open>No lost wake-up\<close>

text \<open>The identifiers that are announced: in the channel, still to be sent, or being notified.\<close>

definition announced :: "('s, 'cb, 'w) msys \<Rightarrow> cid set" where
  "announced s = rb_cid ` (set (ready_blocks (ms_mgr s)) \<union> (\<Union>(x, bl) \<in> set (ms_senders s). set bl) \<union>
     set_option (ms_notifying s))"

text \<open>The identifiers some caller waits for.\<close>

definition awaited :: "('s, 'cb, 'w) msys \<Rightarrow> cid set" where
  "awaited s = dom (wait_list (ms_mgr s)) \<union> fst ` set_option (ms_holder s)"

definition stored :: "('s \<Rightarrow> store_contents) \<Rightarrow> ('s, 'cb, 'w) msys \<Rightarrow> cid set" where
  "stored contents s = dom (contents (inner (ms_mgr s)))"

text \<open>Awaited identifiers whose block is in the store, with no announcement under way.\<close>

definition stranded :: "('s \<Rightarrow> store_contents) \<Rightarrow> ('s, 'cb, 'w) msys \<Rightarrow> cid set" where
  "stranded contents s = awaited s \<inter> stored contents s - announced s"

text \<open>The identifiers whose block an event puts or leaves in the store with nobody to announce it, and the events
  after which there may be such a block.\<close>

fun bypassed :: "'cb mevent \<Rightarrow> cid set" where
  "bypassed (SendsDropped cs) = cs"
| "bypassed (WrittenInside cs) = cs"
| "bypassed ev = {}"

fun silent :: "'cb mevent \<Rightarrow> bool" where
  "silent (SendsDropped cs) = True"
| "silent (WrittenInside cs) = True"
| "silent PutManyFailed = True"
| "silent ev = False"

lemma dom_cleanup_pass:
  "dom (wait_list (fst (cleanup_pass env now cids (m, w)))) \<subseteq> dom (wait_list m) \<and>
   inner (fst (cleanup_pass env now cids (m, w))) = inner m \<and>
   ready_blocks (fst (cleanup_pass env now cids (m, w))) = ready_blocks m"
proof (induction cids arbitrary: m w)
  case Nil
  show ?case by (simp add: cleanup_pass_def)
next
  case (Cons c cids)
  obtain m1 w1 where one: "cleanup_cid env now c (m, w) = (m1, w1)" by fastforce
  have fst_cons: "cleanup_pass env now (c # cids) (m, w) = cleanup_pass env now cids (m1, w1)"
    using one by (simp add: cleanup_pass_def)
  from one have "dom (wait_list m1) \<subseteq> dom (wait_list m)" "inner m1 = inner m"
    "ready_blocks m1 = ready_blocks m"
    by (cases "wait_list m c"; auto simp: cleanup_cid_def split_beta split: if_splits)+
  then show ?case using Cons.IH [of m1 w1] unfolding fst_cons by (metis subset_trans)
qed

lemma notify_sel_dom:
  assumes "notify_wait_callbacks env b (m, w) = (m', w')"
  shows "dom (wait_list m') = dom (wait_list m) - {rb_cid b}" "inner m' = inner m"
    "ready_blocks m' = ready_blocks m"
proof -
  from assms have "m' = m\<lparr>wait_list := (wait_list m)(rb_cid b := None)\<rparr>"
    by (simp add: notify_sel)
  then show "dom (wait_list m') = dom (wait_list m) - {rb_cid b}" "inner m' = inner m"
    "ready_blocks m' = ready_blocks m" by simp_all
qed

lemma await_block_found_sel:
  assumes "await_block bs env now x c cb (m, w) = (hit, m', w')"
    and "\<forall>e. bs_get_size bs (inner m) c = Inl e \<longrightarrow> \<not> is_not_found e"
  shows "m' = m"
  using assms by (auto simp: await_block_def split: sum.splits if_splits)

context block_store
begin

text \<open>
  A step strands no identifier but those it bypasses, unless it is a failed \<open>PutMany\<close>; so the steps that
  are not silent keep the set of stranded identifiers empty.
\<close>

lemma strandedI:
  assumes "awaited t \<subseteq> awaited s \<union> A" "A \<inter> stored contents t \<subseteq> announced t"
    and "stored contents t \<subseteq> stored contents s \<union> announced t \<union> B"
    and "announced s \<inter> awaited t \<subseteq> announced t \<union> B"
  shows "stranded contents t \<subseteq> stranded contents s \<union> B"
  using assms unfolding stranded_def by blast

lemma step_stranded:
  assumes "mgr_step bs env wstep s ev t" and "ev \<noteq> PutManyFailed"
  shows "stranded contents t \<subseteq> stranded contents s \<union> bypassed ev"
  using assms
proof (induction rule: mgr_step.induct)
  case (await_now s c now x cb hit m' w')
  then have "m' = ms_mgr s" by (blast dest: await_block_found_sel)
  with await_now show ?case by (simp add: stranded_def announced_def awaited_def stored_def)
next
  case (await_miss s c e x cb)
  then have miss: "c \<notin> stored contents s" by (auto simp: stored_def dest: get_size_missing)
  show ?case
    by (rule strandedI [where A = "{c}"])
      (use miss in \<open>simp_all add: awaited_def announced_def stored_def Int_commute le_supI1 subset_insertI2\<close>)
next
  case (await_register s c x cb now)
  have "awaited (s\<lparr>ms_holder := None, ms_mgr := register c \<lparr>we_ctx = x, we_cb = cb, we_at = now\<rparr> (ms_mgr s)\<rparr>) =
      awaited s"
    using await_register(1) by (simp add: awaited_def)
  then show ?case
    by (intro strandedI [where A = "{}"])
      (simp_all add: announced_def stored_def)
next
  case (put_store s b st x)
  then show ?case
    by (intro strandedI [where A = "{}"])
      (auto simp: announced_def awaited_def stored_def put_dom simp del: domIff)
next
  case (put_store_many s blks st x)
  show ?case
  proof (rule strandedI [where A = "{}"], goal_cases)
    case 3
    show ?case using put_many_dom [OF put_store_many(1)]
      by (simp add: announced_def stored_def image_Un image_image Un_upper1 le_supI1 le_supI2)
  qed (auto simp: announced_def awaited_def stored_def simp del: domIff)
next
  case (announce s ss x b bl ss' pick m')
  let ?t = "s\<lparr>ms_mgr := m', ms_senders := ss @ (x, bl) # ss'\<rparr>"
  from send_ready_Sent [OF announce(2)] have
    m': "m' = (ms_mgr s)\<lparr>ready_blocks := ready_blocks (ms_mgr s) @ [b]\<rparr>" by simp
  with announce(1) have "announced ?t = announced s"
    by (simp add: announced_def image_Un Un_ac)
  then show ?case
    by (intro strandedI [where A = "{}"])
      (simp_all add: awaited_def stored_def m')
next
  case (put_return s ss x ss')
  then have "announced (s\<lparr>ms_senders := ss @ ss'\<rparr>) = announced s"
    by (simp add: announced_def)
  with put_return show ?case by (simp add: stranded_def awaited_def stored_def)
next
  case (receive s b bl)
  then have "announced (s\<lparr>ms_mgr := (ms_mgr s)\<lparr>ready_blocks := bl\<rparr>, ms_notifying := Some b\<rparr>) = announced s"
    by (simp add: announced_def image_Un Un_ac)
  with receive show ?case by (simp add: stranded_def awaited_def stored_def)
next
  case (notify s b m' w')
  note sel = notify_sel_dom [OF notify(3)]
  let ?t = "s\<lparr>ms_mgr := m', ms_world := w', ms_notifying := None\<rparr>"
  have "announced s = insert (rb_cid b) (announced ?t)" "awaited ?t = awaited s - {rb_cid b}"
    using notify(1,2) sel by (simp_all add: announced_def awaited_def)
  then show ?case
    by (intro strandedI [where A = "{}"]) (auto simp: stored_def sel)
next
  case (cleanup s cids now m' w')
  then have "dom (wait_list m') \<subseteq> dom (wait_list (ms_mgr s))" "inner m' = inner (ms_mgr s)"
    "ready_blocks m' = ready_blocks (ms_mgr s)"
    using dom_cleanup_pass [of env now cids "ms_mgr s" "ms_world s"] by simp_all
  then show ?case
    by (intro strandedI [where A = "{}"])
      (simp_all add: announced_def awaited_def stored_def Int_commute le_supI1)
next
  case (delete s c r st)
  then have "dom (contents st) \<subseteq> dom (contents (inner (ms_mgr s)))"
    by (metis delete_sub map_le_implies_dom_le)
  then show ?case
    by (intro strandedI [where A = "{}"])
      (simp_all add: announced_def awaited_def stored_def le_supI1)
next
  case (elsewhere s w')
  then show ?case by (simp add: stranded_def announced_def awaited_def stored_def)
next
  case (put_failed s b e st)
  then show ?case by (simp add: stranded_def announced_def awaited_def stored_def
      block_store.put_failed [OF block_store_axioms])
next
  case (drop_sends s ss x b bl ss' pick e)
  then show ?case
    by (intro strandedI [where A = "{}"]) (auto simp: announced_def awaited_def stored_def simp del: domIff)
next
  case (write_inside s b r st)
  then have "dom (contents st) \<subseteq> insert (blk_cid b) (dom (contents (inner (ms_mgr s))))"
    by (cases r) (simp_all add: put_dom block_store.put_failed [OF block_store_axioms] subset_insertI)
  then have "stored contents (set_inner st s) \<subseteq> insert (blk_cid b) (stored contents s)" by (simp add: stored_def)
  moreover have "announced (set_inner st s) = announced s" "awaited (set_inner st s) = awaited s"
    by (simp_all add: announced_def awaited_def)
  ultimately show ?case unfolding stranded_def bypassed.simps by blast
qed simp_all

lemma step_not_stranded:
  assumes "mgr_step bs env wstep s ev t" and "\<not> silent ev" and "stranded contents s = {}"
  shows "stranded contents t = {}"
proof -
  have "ev \<noteq> PutManyFailed" "bypassed ev = {}" using assms(2) by (cases ev; simp)+
  with step_stranded [OF assms(1)] assms(3) show ?thesis by simp
qed

lemma run_not_stranded:
  assumes "mgr_run bs env wstep s evs t" and "\<forall>ev \<in> set evs. \<not> silent ev"
    and "stranded contents s = {}"
  shows "stranded contents t = {}"
  using assms
proof (induction rule: mgr_run.induct)
  case (run_step s evs t ev u)
  then show ?case using step_not_stranded [of env wstep t ev u] by simp
qed simp

end

lemma stranded_init [simp]:
  "stranded contents (init_msys (fst (new_manager st timeout)) w) = {}"
  by (simp add: stranded_def awaited_def init_msys_def new_manager_def)

section \<open>Every callback runs at most once\<close>

text \<open>
  Any environment can be instrumented with a log of the callbacks it runs. The ledger compares the
  log and the entries still waiting with the calls of \<open>AwaitBlock\<close> made so far.
\<close>

type_synonym 'cb call = "'cb \<times> ready_block \<times> go_error option"

definition logged :: "('cb, 'w) cb_env \<Rightarrow> ('cb, 'cb call list \<times> 'w) cb_env" where
  "logged env =
     \<lparr>ctx_err = (\<lambda>lw. ctx_err env (snd lw)),
      invoke = (\<lambda>cb b e lw. (fst lw @ [(cb, b, e)], invoke env cb b e (snd lw)))\<rparr>"

lemma logged_sel [simp]:
  "ctx_err (logged env) lw = ctx_err env (snd lw)"
  "invoke (logged env) cb b e lw = (fst lw @ [(cb, b, e)], invoke env cb b e (snd lw))"
  by (simp_all add: logged_def)

definition log_kept :: "('w \<Rightarrow> 'w \<Rightarrow> bool) \<Rightarrow> 'cb call list \<times> 'w \<Rightarrow> 'cb call list \<times> 'w \<Rightarrow> bool" where
  "log_kept wstep lw lw' \<longleftrightarrow> fst lw' = fst lw \<and> wstep (snd lw) (snd lw')"

definition cbs :: "'cb wait_entry list \<Rightarrow> 'cb multiset" where
  "cbs es = image_mset we_cb (mset es)"

definition called :: "'cb call list \<times> 'w \<Rightarrow> 'cb multiset" where
  "called lw = image_mset fst (mset (fst lw))"

definition waiting :: "'cb wait_map \<Rightarrow> 'cb multiset" where
  "waiting wl = (\<Sum>c \<in> dom wl. cbs (slice_at wl c))"

definition held :: "(cid \<times> ctx \<times> 'cb) option \<Rightarrow> 'cb multiset" where
  "held h = (case h of None \<Rightarrow> {#} | Some (c, x, cb) \<Rightarrow> {#cb#})"

fun awaits :: "'cb mevent list \<Rightarrow> 'cb multiset" where
  "awaits [] = {#}"
| "awaits (ev # evs) = (case ev of Awaited x cb \<Rightarrow> {#cb#} | _ \<Rightarrow> {#}) + awaits evs"

lemma awaits_append [simp]: "awaits (evs @ evs') = awaits evs + awaits evs'"
  by (induction evs) (auto split: mevent.splits)

lemma cbs_simps [simp]:
  "cbs [] = {#}" "cbs (e # es) = add_mset (we_cb e) (cbs es)" "cbs (es @ es') = cbs es + cbs es'"
  by (simp_all add: cbs_def)

lemma waiting_on:
  assumes "finite A" and "dom wl \<subseteq> A"
  shows "waiting wl = (\<Sum>c \<in> A. cbs (slice_at wl c))"
  unfolding waiting_def using assms
  by (intro sum.mono_neutral_left) (auto simp: slice_at_def split: option.splits)

lemma waiting_upd:
  assumes "finite (dom wl)"
  shows "waiting (wl(c := v)) + cbs (slice_at wl c) = waiting wl + cbs (slice_at (wl(c := v)) c)"
proof -
  define m where "m = wl(c := v)"
  let ?A = "insert c (dom wl)"
  have fin: "finite ?A" using assms by simp
  have "waiting m = (\<Sum>k \<in> ?A. cbs (slice_at m k))"
    by (rule waiting_on [OF fin]) (auto simp: m_def domIff)
  then have m: "waiting m = cbs (slice_at m c) + (\<Sum>k \<in> ?A - {c}. cbs (slice_at m k))"
    using sum.remove [OF fin, of c "\<lambda>k. cbs (slice_at m k)"] by simp
  have same: "(\<Sum>k \<in> ?A - {c}. cbs (slice_at m k)) = (\<Sum>k \<in> ?A - {c}. cbs (slice_at wl k))"
    by (rule sum.cong) (auto simp: slice_at_def m_def)
  have wl: "waiting wl = cbs (slice_at wl c) + (\<Sum>k \<in> ?A - {c}. cbs (slice_at wl k))"
    using waiting_on [OF fin, of wl] sum.remove [OF fin, of c "\<lambda>k. cbs (slice_at wl k)"]
    by (simp add: subset_insertI)
  show ?thesis
    unfolding m_def [symmetric] using m same wl by (simp add: ac_simps)
qed

lemma waiting_empty [simp]: "waiting Map.empty = {#}"
  by (simp add: waiting_def)

lemma called_fold:
  "called (fold (\<lambda>e. invoke (logged env) (we_cb e) b r) es lw) = called lw + cbs es"
  by (induction es arbitrary: lw) (simp_all add: called_def)

text \<open>A context that is never done, whatever happens: a background context.\<close>

definition undying :: "('cb, 'w) cb_env \<Rightarrow> ctx \<Rightarrow> bool" where
  "undying env x \<longleftrightarrow> (\<forall>w. ctx_err env w x = None)"

text \<open>A pass only moves callbacks from waiting to called, and loses those of done contexts.\<close>

definition live_cb :: "('cb, 'w) cb_env \<Rightarrow> 'cb \<Rightarrow> 'cb wait_entry list \<Rightarrow> bool" where
  "live_cb env cb es \<longleftrightarrow> (\<forall>e \<in> set es. we_cb e = cb \<longrightarrow> undying env (we_ctx e))"

lemma cbs_swap_remove: "i < length es \<Longrightarrow> cbs es = add_mset (we_cb (es ! i)) (cbs (swap_remove i es))"
  using mset_swap_remove [of i es] by (simp add: cbs_def)

lemma cleanup_slice_ledger:
  fixes lw :: "'cb call list \<times> 'w"
  assumes "cleanup_slice (logged env) now timeout i es lw = (es', lw')"
  shows "count (called lw' + cbs es') cb \<le> count (called lw + cbs es) cb \<and>
     (live_cb env cb es \<longrightarrow> count (called lw' + cbs es') cb = count (called lw + cbs es) cb) \<and>
     set es' \<subseteq> set es"
  using assms
proof (induction "logged env" now timeout i es lw arbitrary: es' lw' rule: cleanup_slice.induct)
  case (1 now timeout i es lw)
  note unfold = cleanup_slice.simps [of "logged env" now timeout i es lw]
  let ?e = "es ! i"
  show ?case
  proof (cases "i < length es")
    case False
    with "1.prems" unfold show ?thesis by simp
  next
    case True
    show ?thesis
    proof (cases "ctx_err (logged env) lw (we_ctx ?e) \<noteq> None \<or> timeout < time_since now (we_at ?e)")
      case False
      with True "1.prems" unfold have "cleanup_slice (logged env) now timeout (Suc i) es lw = (es', lw')"
        by (simp add: Let_def)
      from "1.hyps"(2) [OF True refl False this] show ?thesis .
    next
      case drop: True
      let ?lw = "if ctx_err (logged env) lw (we_ctx ?e) = None
        then invoke (logged env) (we_cb ?e) empty_ready (Some WaitTimeout) lw else lw"
      have "cleanup_slice (logged env) now timeout i (swap_remove i es) ?lw = (es', lw')"
        using True "1.prems" unfold drop by (simp add: Let_def split: if_splits)
      note IH = "1.hyps"(1) [OF True refl drop this]
      have split: "cbs es = add_mset (we_cb ?e) (cbs (swap_remove i es))"
        by (rule cbs_swap_remove [OF True])
      have le: "count (called ?lw + cbs (swap_remove i es)) cb \<le> count (called lw + cbs es) cb"
        using split by (simp add: called_def)
      have eq: "count (called ?lw + cbs (swap_remove i es)) cb = count (called lw + cbs es) cb"
        if "live_cb env cb es"
        using that split nth_mem [OF True] by (auto simp: called_def live_cb_def undying_def)
      have sub: "set (swap_remove i es) \<subseteq> set es" by (rule set_swap_remove [OF True])
      then have "live_cb env cb es \<longrightarrow> live_cb env cb (swap_remove i es)"
        by (auto simp: live_cb_def)
      with IH le eq sub show ?thesis by fastforce
    qed
  qed
qed

definition live_map :: "('cb, 'w) cb_env \<Rightarrow> 'cb \<Rightarrow> 'cb wait_map \<Rightarrow> bool" where
  "live_map env cb wl \<longleftrightarrow> (\<forall>c. live_cb env cb (slice_at wl c))"

lemma cleanup_cid_ledger:
  fixes lw :: "'cb call list \<times> 'w"
  assumes "cleanup_cid (logged env) now c (m, lw) = (m', lw')" and "finite (dom (wait_list m))"
  shows "count (called lw' + waiting (wait_list m')) cb \<le> count (called lw + waiting (wait_list m)) cb \<and>
     (live_map env cb (wait_list m) \<longrightarrow>
        count (called lw' + waiting (wait_list m')) cb = count (called lw + waiting (wait_list m)) cb) \<and>
     (\<forall>k. set (slice_at (wait_list m') k) \<subseteq> set (slice_at (wait_list m) k)) \<and>
     finite (dom (wait_list m'))"
proof -
  let ?es = "slice_at (wait_list m) c"
  obtain es' where cs: "cleanup_slice (logged env) now (await_timeout m) 0 ?es lw = (es', lw')"
    and m': "m' = m\<lparr>wait_list := (wait_list m)(c := if es' = [] then None else Some es')\<rparr>"
    using assms(1) by (auto simp: cleanup_cid_def split_beta prod_eq_iff)
  have slice: "slice_at (wait_list m') c = es'" using m' by (simp add: slice_at_def)
  have "waiting (wait_list m') + cbs ?es = waiting (wait_list m) + cbs es'"
    using waiting_upd [OF assms(2), of c "if es' = [] then None else Some es'"] m' slice by simp
  then have sums: "count (waiting (wait_list m')) cb + count (cbs ?es) cb =
      count (waiting (wait_list m)) cb + count (cbs es') cb"
    by (metis count_union)
  note led = cleanup_slice_ledger [OF cs, of cb]
  have "\<forall>k. set (slice_at (wait_list m') k) \<subseteq> set (slice_at (wait_list m) k)"
    using led slice m' by (auto simp: slice_at_def split: if_splits)
  moreover have "finite (dom (wait_list m'))" using assms(2) m' by simp
  moreover have "live_map env cb (wait_list m) \<longrightarrow> live_cb env cb ?es" by (simp add: live_map_def)
  ultimately show ?thesis using led sums by auto
qed

lemma cleanup_pass_ledger:
  fixes lw :: "'cb call list \<times> 'w"
  assumes "cleanup_pass (logged env) now cids (m, lw) = (m', lw')" and "finite (dom (wait_list m))"
  shows "count (called lw' + waiting (wait_list m')) cb \<le> count (called lw + waiting (wait_list m)) cb \<and>
     (live_map env cb (wait_list m) \<longrightarrow>
        count (called lw' + waiting (wait_list m')) cb = count (called lw + waiting (wait_list m)) cb) \<and>
     (\<forall>k. set (slice_at (wait_list m') k) \<subseteq> set (slice_at (wait_list m) k)) \<and>
     finite (dom (wait_list m'))"
  using assms
proof (induction cids arbitrary: m lw)
  case Nil
  then show ?case by (simp add: cleanup_pass_def)
next
  case (Cons c cids)
  obtain m1 lw1 where one: "cleanup_cid (logged env) now c (m, lw) = (m1, lw1)"
    by (cases "cleanup_cid (logged env) now c (m, lw)")
  note led1 = cleanup_cid_ledger [OF one Cons.prems(2), of cb]
  have "cleanup_pass (logged env) now cids (m1, lw1) = (m', lw')"
    using Cons.prems(1) one by (simp add: cleanup_pass_def)
  note led2 = Cons.IH [OF this led1 [THEN conjunct2, THEN conjunct2, THEN conjunct2]]
  have "live_map env cb (wait_list m) \<longrightarrow> live_map env cb (wait_list m1)"
    using led1 by (auto simp: live_map_def live_cb_def)
  moreover have "\<forall>k. set (slice_at (wait_list m') k) \<subseteq> set (slice_at (wait_list m) k)"
    using led1 led2 by blast
  moreover have "count (called lw' + waiting (wait_list m')) cb \<le> count (called lw + waiting (wait_list m)) cb"
    using led1 led2 by linarith
  ultimately show ?case using led1 led2 by simp
qed

text \<open>The ledger of a run, and the bookkeeping facts that keep it.\<close>

definition open_cbs :: "('s, 'cb, 'w) msys \<Rightarrow> 'cb multiset" where
  "open_cbs s = waiting (wait_list (ms_mgr s)) + held (ms_holder s)"

definition known_waiters :: "'cb mevent list \<Rightarrow> ('s, 'cb, 'w) msys \<Rightarrow> bool" where
  "known_waiters evs s \<longleftrightarrow> finite (dom (wait_list (ms_mgr s))) \<and>
     (\<forall>c. \<forall>e \<in> set (slice_at (wait_list (ms_mgr s)) c). Awaited (we_ctx e) (we_cb e) \<in> set evs) \<and>
     (\<forall>c x cb. ms_holder s = Some (c, x, cb) \<longrightarrow> Awaited x cb \<in> set evs)"

definition ledger ::
  "('cb, 'w) cb_env \<Rightarrow> 'cb mevent list \<Rightarrow> ('s, 'cb, 'cb call list \<times> 'w) msys \<Rightarrow> 'cb \<Rightarrow> bool" where
  "ledger env evs s cb \<longleftrightarrow>
     count (called (ms_world s) + open_cbs s) cb \<le> count (awaits evs) cb \<and>
     ((\<forall>x. Awaited x cb \<in> set evs \<longrightarrow> undying env x) \<longrightarrow>
        count (called (ms_world s) + open_cbs s) cb = count (awaits evs) cb)"

text \<open>A step that does not call \<open>AwaitBlock\<close> keeps the ledger when it moves callbacks forward.\<close>

lemma ledger_step:
  assumes "ledger env evs s cb" and "awaits [ev] = {#}" and "\<And>x. ev \<noteq> Awaited x cb"
    and "count (called (ms_world t) + open_cbs t) cb \<le> count (called (ms_world s) + open_cbs s) cb"
    and "(\<forall>x. Awaited x cb \<in> set evs \<longrightarrow> undying env x) \<Longrightarrow>
       count (called (ms_world t) + open_cbs t) cb = count (called (ms_world s) + open_cbs s) cb"
  shows "ledger env (evs @ [ev]) t cb"
  using assms by (auto simp: ledger_def)

lemma ledger_frame:
  assumes "ledger env evs s cb" and "awaits [ev] = {#}" and "\<And>x. ev \<noteq> Awaited x cb"
    and "called (ms_world t) = called (ms_world s)" and "open_cbs t = open_cbs s"
  shows "ledger env (evs @ [ev]) t cb"
  using assms(1-3) by (rule ledger_step) (simp_all add: assms(4,5))

lemma ledger_await:
  assumes "ledger env evs s cb"
    and "called (ms_world t) + open_cbs t = add_mset cb' (called (ms_world s) + open_cbs s)"
  shows "ledger env (evs @ [Awaited x cb']) t cb"
  using assms by (auto simp: ledger_def)

lemma known_waiters_frame:
  assumes "known_waiters evs s" and "wait_list (ms_mgr t) = wait_list (ms_mgr s)"
    and "ms_holder t = ms_holder s"
  shows "known_waiters (evs @ evs') t"
  using assms by (auto simp: known_waiters_def)

lemma waiting_register:
  assumes "finite (dom (wait_list m))"
  shows "waiting (wait_list (register c e m)) = add_mset (we_cb e) (waiting (wait_list m))"
proof -
  have "waiting (wait_list (register c e m)) + cbs (slice_at (wait_list m) c) =
      waiting (wait_list m) + (cbs (slice_at (wait_list m) c) + {#we_cb e#})"
    using waiting_upd [OF assms, of c "Some (slice_at (wait_list m) c @ [e])"]
    by (simp add: register_def)
  then show ?thesis by simp
qed

lemma waiting_remove:
  assumes "finite (dom wl)"
  shows "waiting (wl(c := None)) + cbs (slice_at wl c) = waiting wl"
  using waiting_upd [OF assms, of c None] by simp

lemma step_ledger:
  fixes s :: "('s, 'cb, 'cb call list \<times> 'w) msys"
  assumes "mgr_step bs (logged env) (log_kept wstep) s ev t"
    and "known_waiters evs s" and "\<forall>cb. ledger env evs s cb"
  shows "known_waiters (evs @ [ev]) t \<and> (\<forall>cb. ledger env (evs @ [ev]) t cb)"
  using assms
proof (induction rule: mgr_step.induct)
  case (await_now s c now x cb hit m' w')
  then have "m' = ms_mgr s" and "called w' = add_mset cb (called (ms_world s))"
    by (auto simp: await_block_def called_def split: sum.splits if_splits)
  with await_now show ?case
    by (auto simp: open_cbs_def intro!: ledger_await known_waiters_frame)
next
  case (await_miss s c e x cb)
  have "known_waiters (evs @ [Awaited x cb]) (s\<lparr>ms_holder := Some (c, x, cb)\<rparr>)"
    using await_miss(4) by (auto simp: known_waiters_def)
  with await_miss show ?case
    by (auto simp: open_cbs_def held_def intro!: ledger_await)
next
  case (await_register s c x cb now)
  let ?e = "\<lparr>we_ctx = x, we_cb = cb, we_at = now\<rparr>"
  have "finite (dom (wait_list (ms_mgr s)))" using await_register(2) by (simp add: known_waiters_def)
  then have "open_cbs (s\<lparr>ms_holder := None, ms_mgr := register c ?e (ms_mgr s)\<rparr>) = open_cbs s"
    using await_register(1) by (simp add: open_cbs_def held_def waiting_register)
  moreover have "known_waiters (evs @ [Registered])
      (s\<lparr>ms_holder := None, ms_mgr := register c ?e (ms_mgr s)\<rparr>)"
    using await_register(1,2) by (auto simp: known_waiters_def)
  ultimately show ?case
    using await_register(3) by (auto intro!: ledger_frame)
next
  case (announce s ss x b bl ss' pick m')
  from send_ready_Sent [OF announce(2)] have "wait_list m' = wait_list (ms_mgr s)" by simp
  with announce(3,4) show ?case
    by (auto simp: open_cbs_def intro!: ledger_frame known_waiters_frame)
next
  case (notify s b m' w')
  let ?wl = "wait_list (ms_mgr s)" and ?t = "s\<lparr>ms_mgr := m', ms_world := w', ms_notifying := None\<rparr>"
  have fin: "finite (dom ?wl)" using notify(4) by (simp add: known_waiters_def)
  have m': "wait_list m' = ?wl(rb_cid b := None)"
    and w': "called w' = called (ms_world s) + cbs (slice_at ?wl (rb_cid b))"
    using notify(3) by (auto simp: notify_sel called_fold)
  have "called (ms_world ?t) + open_cbs ?t = called (ms_world s) + open_cbs s"
    using waiting_remove [OF fin, of "rb_cid b"] m' w' notify(2)
    by (simp add: open_cbs_def held_def ac_simps)
  then have "ledger env (evs @ [Notified b]) ?t cb" for cb
    using notify(5) by (intro ledger_step [of env evs s cb]) auto
  moreover have "known_waiters (evs @ [Notified b]) ?t"
    using notify(2,4) m' by (auto simp: known_waiters_def slice_at_def split: if_splits)
  ultimately show ?case by blast
next
  case (cleanup s cids now m' w')
  have fin: "finite (dom (wait_list (ms_mgr s)))" using cleanup(6) by (simp add: known_waiters_def)
  note led = cleanup_pass_ledger [OF cleanup(5) fin]
  let ?t = "s\<lparr>ms_mgr := m', ms_world := w'\<rparr>"
  have live: "live_map env cb (wait_list (ms_mgr s))"
    if "\<forall>x. Awaited x cb \<in> set evs \<longrightarrow> undying env x" for cb
    using cleanup(6) that by (force simp: live_map_def live_cb_def known_waiters_def)
  have "ledger env (evs @ [Cleaned]) ?t cb" for cb
    using cleanup(7) led [of cb] live [of cb]
    by (intro ledger_step [of env evs s cb]) (auto simp: open_cbs_def)
  moreover have "known_waiters (evs @ [Cleaned]) ?t"
    using cleanup(1,6) led by (fastforce simp: known_waiters_def)
  ultimately show ?case by blast
next
  case (elsewhere s w')
  then have "called w' = called (ms_world s)" by (simp add: log_kept_def called_def)
  with elsewhere show ?case
    by (auto simp: open_cbs_def intro!: ledger_frame known_waiters_frame)
qed (auto simp: open_cbs_def intro!: ledger_frame known_waiters_frame)

lemma run_ledger:
  fixes s :: "('s, 'cb, 'cb call list \<times> 'w) msys"
  assumes "mgr_run bs (logged env) (log_kept wstep) s evs t"
    and "known_waiters [] s" and "\<forall>cb. ledger env [] s cb"
  shows "known_waiters evs t \<and> (\<forall>cb. ledger env evs t cb)"
  using assms
proof (induction rule: mgr_run.induct)
  case (run_step s evs t ev u)
  then show ?case using step_ledger [OF run_step.hyps(2)] by blast
qed simp

lemma ledger_init:
  "known_waiters [] (init_msys (fst (new_manager st timeout)) ([], w))"
  "ledger env [] (init_msys (fst (new_manager st timeout)) ([], w)) cb"
  by (simp_all add: known_waiters_def ledger_def init_msys_def new_manager_def open_cbs_def
      called_def held_def)

section \<open>Runs\<close>

lemma run_trans: "mgr_run bs env wstep s evs t \<Longrightarrow> mgr_run bs env wstep t evs' u \<Longrightarrow>
    mgr_run bs env wstep s (evs @ evs') u"
  by (rotate_tac 1, induction rule: mgr_run.induct)
    (auto intro: mgr_run.intros simp flip: append_assoc)

lemma run_one: "mgr_step bs env wstep s ev t \<Longrightarrow> mgr_run bs env wstep s [ev] t"
  using run_step [OF run_nil] by fastforce

text \<open>The notifier alone empties the channel, and takes every announced identifier off the wait list.\<close>

lemma notify_announced:
  fixes s :: "('s, 'cb, 'w) msys"
  assumes "ms_notifying s = Some b" and "ms_holder s = None"
  obtains t where "mgr_step bs env wstep s (Notified b) t" "ms_holder t = None" "ms_notifying t = None"
    "ready_blocks (ms_mgr t) = ready_blocks (ms_mgr s)"
    "dom (wait_list (ms_mgr t)) = dom (wait_list (ms_mgr s)) - {rb_cid b}"
proof -
  obtain m' w' where n: "notify_wait_callbacks env b (ms_mgr s, ms_world s) = (m', w')"
    by (cases "notify_wait_callbacks env b (ms_mgr s, ms_world s)")
  have "mgr_step bs env wstep s (Notified b) (s\<lparr>ms_mgr := m', ms_world := w', ms_notifying := None\<rparr>)"
    by (rule mgr_step.notify [OF assms n])
  then show thesis
    by (rule that) (simp_all add: assms notify_sel_dom [OF n])
qed

lemma drain_channel:
  fixes s :: "('s, 'cb, 'w) msys"
  assumes "ms_holder s = None" and "ms_notifying s = None" and "ready_blocks (ms_mgr s) = bl"
  shows "\<exists>evs t. mgr_run bs env wstep s evs t \<and> set evs \<subseteq> insert Received (range Notified) \<and>
     ready_blocks (ms_mgr t) = [] \<and> ms_notifying t = None \<and> ms_holder t = None \<and>
     dom (wait_list (ms_mgr t)) = dom (wait_list (ms_mgr s)) - rb_cid ` set bl"
  using assms
proof (induction bl arbitrary: s)
  case Nil
  show ?case
    by (rule exI [of _ "[]"], rule exI [of _ s]) (simp add: run_nil Nil)
next
  case (Cons b bl)
  let ?s1 = "s\<lparr>ms_mgr := (ms_mgr s)\<lparr>ready_blocks := bl\<rparr>, ms_notifying := Some b\<rparr>"
  have one: "mgr_run bs env wstep s [Received] ?s1"
    by (rule run_one [OF mgr_step.receive [OF Cons.prems(2,3)]])
  obtain s2 where two: "mgr_step bs env wstep ?s1 (Notified b) s2" "ms_holder s2 = None"
      "ms_notifying s2 = None" "ready_blocks (ms_mgr s2) = bl"
      "dom (wait_list (ms_mgr s2)) = dom (wait_list (ms_mgr s)) - {rb_cid b}"
    by (rule notify_announced [of ?s1 b bs env wstep]) (use Cons.prems in simp_all)
  from Cons.IH [OF two(2-4)] obtain evs t where rest: "mgr_run bs env wstep s2 evs t"
    "set evs \<subseteq> insert Received (range Notified)" "ready_blocks (ms_mgr t) = []"
    "ms_notifying t = None" "ms_holder t = None"
    "dom (wait_list (ms_mgr t)) = dom (wait_list (ms_mgr s2)) - rb_cid ` set bl"
    by blast
  have "mgr_run bs env wstep s ([Received] @ [Notified b] @ evs) t"
    using one run_one [OF two(1)] rest(1) by (blast intro: run_trans)
  then show ?case
    using rest(2-6) two(5) by (intro exI [of _ "[Received] @ [Notified b] @ evs"] exI [of _ t]) auto
qed

lemma register_held:
  fixes s :: "('s, 'cb, 'w) msys"
  obtains evs t where "mgr_run bs env wstep s evs t" "set evs \<subseteq> {Registered}" "ms_holder t = None"
    "ms_notifying t = ms_notifying s" "ready_blocks (ms_mgr t) = ready_blocks (ms_mgr s)"
proof (cases "ms_holder s")
  case None
  then show thesis by (intro that [OF run_nil]) simp_all
next
  case (Some h)
  obtain c x cb where h: "h = (c, x, cb)" by (cases h)
  show thesis
    by (rule that [OF run_one [OF mgr_step.await_register [OF Some [unfolded h]]]]) simp_all
qed

lemma finish_notifying:
  fixes s :: "('s, 'cb, 'w) msys"
  assumes "ms_holder s = None"
  obtains evs t where "mgr_run bs env wstep s evs t" "set evs \<subseteq> range Notified" "ms_holder t = None"
    "ms_notifying t = None" "ready_blocks (ms_mgr t) = ready_blocks (ms_mgr s)"
    "dom (wait_list (ms_mgr t)) = dom (wait_list (ms_mgr s)) - rb_cid ` set_option (ms_notifying s)"
proof (cases "ms_notifying s")
  case None
  then show thesis using assms by (intro that [OF run_nil]) simp_all
next
  case (Some b)
  obtain t where "mgr_step bs env wstep s (Notified b) t" "ms_holder t = None" "ms_notifying t = None"
    "ready_blocks (ms_mgr t) = ready_blocks (ms_mgr s)"
    "dom (wait_list (ms_mgr t)) = dom (wait_list (ms_mgr s)) - {rb_cid b}"
    by (rule notify_announced [OF Some assms])
  then show thesis using Some by (intro that [OF run_one]) auto
qed

section \<open>Who is told\<close>

text \<open>The blocks that the notifier still has to deal with, in order; how many it has finished with in a run; and what a
  waiter is told in a list of calls: that its block is there, or that it waited too long.\<close>

definition to_notify :: "('s, 'cb, 'w) msys \<Rightarrow> ready_block list" where
  "to_notify s = (case ms_notifying s of None \<Rightarrow> [] | Some b \<Rightarrow> [b]) @ ready_blocks (ms_mgr s)"

fun is_notified :: "'cb mevent \<Rightarrow> bool" where
  "is_notified (Notified b) = True"
| "is_notified ev = False"

definition notifications :: "'cb mevent list \<Rightarrow> nat" where
  "notifications evs = length (filter is_notified evs)"

definition told :: "'cb call list \<Rightarrow> 'cb wait_entry \<Rightarrow> cid \<Rightarrow> bool" where
  "told calls e c \<longleftrightarrow> (\<exists>b. (we_cb e, b, None) \<in> set calls \<and> rb_cid b = c) \<or>
     (we_cb e, empty_ready, Some WaitTimeout) \<in> set calls"

lemma told_append: "told calls e c \<or> told calls' e c \<Longrightarrow> told (calls @ calls') e c"
  by (auto simp: told_def)

lemma log_fold:
  "fst (fold (\<lambda>e. invoke (logged env) (we_cb e) b r) es lw) = fst lw @ map (\<lambda>e. (we_cb e, b, r)) es"
  by (induction es arbitrary: lw) simp_all

lemma cleanup_slice_told:
  assumes "cleanup_slice (logged env) now timeout i es lw = (es', lw')"
  shows "\<exists>calls. fst lw' = fst lw @ calls \<and>
     (\<forall>e \<in> set es. undying env (we_ctx e) \<longrightarrow> e \<in> set es' \<or> (we_cb e, empty_ready, Some WaitTimeout) \<in> set calls)"
  using assms
proof (induction "logged env" now timeout i es lw arbitrary: es' lw' rule: cleanup_slice.induct)
  case (1 now timeout i es lw)
  note unfold = cleanup_slice.simps [of "logged env" now timeout i es lw]
  let ?e = "es ! i"
  show ?case
  proof (cases "i < length es")
    case False
    with "1.prems" unfold show ?thesis by simp
  next
    case True
    show ?thesis
    proof (cases "ctx_err (logged env) lw (we_ctx ?e) \<noteq> None \<or> timeout < time_since now (we_at ?e)")
      case False
      with True "1.prems" unfold have "cleanup_slice (logged env) now timeout (Suc i) es lw = (es', lw')"
        by (simp add: Let_def)
      from "1.hyps"(2) [OF True refl False this] show ?thesis .
    next
      case drop: True
      let ?lw = "if ctx_err (logged env) lw (we_ctx ?e) = None
        then invoke (logged env) (we_cb ?e) empty_ready (Some WaitTimeout) lw else lw"
      have "cleanup_slice (logged env) now timeout i (swap_remove i es) ?lw = (es', lw')"
        using True "1.prems" unfold drop by (simp add: Let_def split: if_splits)
      from "1.hyps"(1) [OF True refl drop this] obtain calls where calls: "fst lw' = fst ?lw @ calls"
        "\<forall>e \<in> set (swap_remove i es). undying env (we_ctx e) \<longrightarrow> e \<in> set es' \<or> (we_cb e, empty_ready, Some WaitTimeout) \<in> set calls"
        by blast
      let ?first = "if ctx_err (logged env) lw (we_ctx ?e) = None then [(we_cb ?e, empty_ready, Some WaitTimeout)] else []"
      have "set es = insert ?e (set (swap_remove i es))"
        using mset_swap_remove [OF True] by (metis set_mset_mset set_mset_add_mset_insert)
      moreover have "undying env (we_ctx ?e) \<Longrightarrow> (we_cb ?e, empty_ready, Some WaitTimeout) \<in> set ?first"
        by (simp add: undying_def)
      ultimately show ?thesis using calls by (intro exI [of _ "?first @ calls"]) auto
    qed
  qed
qed

lemma cleanup_cid_told:
  assumes "cleanup_cid (logged env) now k (m, lw) = (m', lw')"
  shows "\<exists>calls. fst lw' = fst lw @ calls \<and> (\<forall>c. \<forall>e \<in> set (slice_at (wait_list m) c).
     undying env (we_ctx e) \<longrightarrow> e \<in> set (slice_at (wait_list m') c) \<or> told calls e c)"
proof -
  obtain es' where cs: "cleanup_slice (logged env) now (await_timeout m) 0 (slice_at (wait_list m) k) lw = (es', lw')"
    and m': "m' = m\<lparr>wait_list := (wait_list m)(k := if es' = [] then None else Some es')\<rparr>"
    using assms by (auto simp: cleanup_cid_def split_beta prod_eq_iff)
  have slice: "slice_at (wait_list m') c = (if c = k then es' else slice_at (wait_list m) c)" for c
    using m' by (simp add: slice_at_def)
  from cleanup_slice_told [OF cs] show ?thesis unfolding slice told_def by fastforce
qed

lemma cleanup_pass_told:
  assumes "cleanup_pass (logged env) now cids (m, lw) = (m', lw')"
  shows "\<exists>calls. fst lw' = fst lw @ calls \<and> (\<forall>c. \<forall>e \<in> set (slice_at (wait_list m) c).
     undying env (we_ctx e) \<longrightarrow> e \<in> set (slice_at (wait_list m') c) \<or> told calls e c)"
  using assms
proof (induction cids arbitrary: m lw)
  case Nil
  then show ?case by (simp add: cleanup_pass_def)
next
  case (Cons k cids)
  obtain m1 lw1 where one: "cleanup_cid (logged env) now k (m, lw) = (m1, lw1)"
    by (cases "cleanup_cid (logged env) now k (m, lw)")
  then have "cleanup_pass (logged env) now cids (m1, lw1) = (m', lw')"
    using Cons.prems by (simp add: cleanup_pass_def)
  from cleanup_cid_told [OF one] Cons.IH [OF this] obtain calls1 calls2 where
    "fst lw' = (fst lw @ calls1) @ calls2"
    "\<forall>c. \<forall>e \<in> set (slice_at (wait_list m) c). undying env (we_ctx e) \<longrightarrow> e \<in> set (slice_at (wait_list m1) c) \<or> told calls1 e c"
    "\<forall>c. \<forall>e \<in> set (slice_at (wait_list m1) c). undying env (we_ctx e) \<longrightarrow> e \<in> set (slice_at (wait_list m') c) \<or> told calls2 e c"
    by metis
  then show ?case using told_append by (intro exI [of _ "calls1 @ calls2"]) fastforce
qed

text \<open>A step tells a waiter or keeps it; the one that finishes with its block tells it. The queue is served in order.\<close>

lemma step_told:
  assumes "mgr_step bs (logged env) (log_kept wstep) s ev t"
    and "e \<in> set (slice_at (wait_list (ms_mgr s)) c)" and "undying env (we_ctx e)"
  shows "\<exists>calls. fst (ms_world t) = fst (ms_world s) @ calls \<and> (e \<in> set (slice_at (wait_list (ms_mgr t)) c) \<or> told calls e c) \<and>
     (\<forall>b. ev = Notified b \<and> rb_cid b = c \<longrightarrow> told calls e c)"
  using assms
proof (induction rule: mgr_step.induct)
  case (await_now s c' now x cb hit m' w')
  then have "m' = ms_mgr s" by (blast dest: await_block_found_sel)
  with await_now show ?case by (auto simp: await_block_def split: sum.splits if_splits)
next
  case (announce s ss x b bl ss' pick m')
  then show ?case using send_ready_Sent [OF announce(2)] by simp
next
  case (notify s b m' w')
  then have r: "m' = (ms_mgr s)\<lparr>wait_list := (wait_list (ms_mgr s))(rb_cid b := None)\<rparr>"
    "fst w' = fst (ms_world s) @ map (\<lambda>e. (we_cb e, b, None)) (slice_at (wait_list (ms_mgr s)) (rb_cid b))"
    by (auto simp: notify_sel log_fold simp del: logged_sel)
  show ?case
  proof (cases "rb_cid b = c")
    case True
    then have "told (map (\<lambda>e. (we_cb e, b, None)) (slice_at (wait_list (ms_mgr s)) (rb_cid b))) e c"
      using notify(4) by (auto simp: told_def)
    with r True show ?thesis by simp
  next
    case False
    with r notify(4) show ?thesis by (auto simp: slice_at_def)
  qed
next
  case (cleanup s cids now m' w')
  then show ?case using cleanup_pass_told [OF cleanup(5)] by simp blast
next
  case (elsewhere s w')
  then show ?case by (simp add: log_kept_def)
qed auto

lemma step_log:
  assumes "mgr_step bs (logged env) (log_kept wstep) s ev t"
  shows "\<exists>calls. fst (ms_world t) = fst (ms_world s) @ calls"
  using assms
proof (induction rule: mgr_step.induct)
  case (await_now s c' now x cb hit m' w')
  then show ?case by (auto simp: await_block_def split: sum.splits if_splits)
next
  case (notify s b m' w')
  then show ?case by (auto simp: notify_sel log_fold simp del: logged_sel)
next
  case (cleanup s cids now m' w')
  then show ?case using cleanup_pass_told [OF cleanup(5)] by auto
next
  case (elsewhere s w')
  then show ?case by (simp add: log_kept_def)
qed simp_all

lemma step_to_notify:
  assumes "mgr_step bs env wstep s ev t"
  shows "if is_notified ev then \<exists>b. ev = Notified b \<and> to_notify s = b # to_notify t else \<exists>more. to_notify t = to_notify s @ more"
  using assms
proof (induction rule: mgr_step.induct)
  case (await_now s c' now x cb hit m' w')
  then have "m' = ms_mgr s" by (blast dest: await_block_found_sel)
  then show ?case by (simp add: to_notify_def)
next
  case (announce s ss x b bl ss' pick m')
  then show ?case using send_ready_Sent [OF announce(2)] by (simp add: to_notify_def)
next
  case (notify s b m' w')
  then show ?case using notify_sel_dom(3) [OF notify(3)] by (simp add: to_notify_def)
next
  case (cleanup s cids now m' w')
  then show ?case using dom_cleanup_pass [of env now cids "ms_mgr s" "ms_world s"] by (simp add: to_notify_def)
qed (simp_all add: to_notify_def)

lemma run_told:
  assumes "mgr_run bs (logged env) (log_kept wstep) s evs t" and "to_notify s = ahead @ b # behind"
    and "undying env (we_ctx e)" and "e \<in> set (slice_at (wait_list (ms_mgr s)) (rb_cid b))"
  shows "\<exists>calls. fst (ms_world t) = fst (ms_world s) @ calls \<and> (told calls e (rb_cid b) \<or>
     notifications evs \<le> length ahead \<and> e \<in> set (slice_at (wait_list (ms_mgr t)) (rb_cid b)) \<and>
     (\<exists>more. to_notify t = drop (notifications evs) ahead @ b # more))"
  using assms(1,2,4)
proof (induction rule: mgr_run.induct)
  case (run_nil s)
  then show ?case by (simp add: notifications_def)
next
  case (run_step s evs t ev u)
  then obtain calls where calls: "fst (ms_world t) = fst (ms_world s) @ calls" "told calls e (rb_cid b) \<or>
     notifications evs \<le> length ahead \<and> e \<in> set (slice_at (wait_list (ms_mgr t)) (rb_cid b)) \<and>
     (\<exists>more. to_notify t = drop (notifications evs) ahead @ b # more)" by blast
  from calls(2) show ?case
  proof (elim disjE exE conjE)
    assume "told calls e (rb_cid b)"
    moreover obtain more where "fst (ms_world u) = fst (ms_world t) @ more"
      using step_log [OF run_step(2)] by blast
    ultimately show ?thesis using calls(1) by (intro exI [of _ "calls @ more"]) (simp add: told_append)
  next
    fix more
    assume n: "notifications evs \<le> length ahead" "e \<in> set (slice_at (wait_list (ms_mgr t)) (rb_cid b))"
      and q: "to_notify t = drop (notifications evs) ahead @ b # more"
    obtain calls' where calls': "fst (ms_world u) = fst (ms_world t) @ calls'"
      "e \<in> set (slice_at (wait_list (ms_mgr u)) (rb_cid b)) \<or> told calls' e (rb_cid b)"
      "\<forall>b'. ev = Notified b' \<and> rb_cid b' = rb_cid b \<longrightarrow> told calls' e (rb_cid b)"
      using step_told [OF run_step(2) n(2) assms(3)] by blast
    show ?thesis
    proof (cases "told calls' e (rb_cid b)")
      case True
      with calls(1) calls'(1) show ?thesis by (intro exI [of _ "calls @ calls'"]) (simp add: told_append)
    next
      case False
      have "notifications (evs @ [ev]) \<le> length ahead \<and> (\<exists>more. to_notify u = drop (notifications (evs @ [ev])) ahead @ b # more)"
      proof (cases "is_notified ev")
        case True
        with step_to_notify [OF run_step(2)] obtain b' where ev: "ev = Notified b'" "to_notify t = b' # to_notify u" by auto
        with calls'(3) False have "b' \<noteq> b" by blast
        with q ev(2) n(1) have "notifications evs < length ahead" by (cases "notifications evs = length ahead") auto
        with q ev show ?thesis by (simp add: notifications_def flip: Cons_nth_drop_Suc)
      next
        case other: False
        with step_to_notify [OF run_step(2)] q n(1) show ?thesis by (auto simp: notifications_def)
      qed
      with False calls' calls(1) show ?thesis by (intro exI [of _ "calls @ calls'"]) auto
    qed
  qed
qed

section \<open>Properties\<close>

text \<open>C1. No wake-up is lost. In every state that the manager's goroutines can reach, whatever the
  interleaving, if somebody waits for a block that is in the store (registered, or holding the
  lock between the lookup and the append), then an announcement of that block is under way: it is
  being sent by the put that stored it, it is in the channel, or the notifier has it. The runs
  considered are those without the three silent events: a put that gives up because its context
  is done, a failed \<open>PutMany\<close>, and a write to the wrapped store that bypasses the manager.\<close>

theorem no_lost_wakeup:
  fixes st :: 's
  assumes "block_store bs contents"
    and "mgr_run bs env wstep (init_msys (fst (new_manager st timeout)) w) evs s"
    and "\<forall>ev \<in> set evs. \<not> silent ev"
    and "c \<in> awaited s" and "contents (inner (ms_mgr s)) c \<noteq> None"
  shows "c \<in> announced s"
proof -
  have "stranded contents s = {}"
    by (rule block_store.run_not_stranded [OF assms(1,2,3) stranded_init])
  then show ?thesis using assms(4,5) by (auto simp: stranded_def stored_def)
qed

definition demo_start :: "(mem_store, nat, unit) msys" where
  "demo_start = init_msys (fst (new_manager [] 500)) ()"

definition quiet_env :: "(nat, unit) cb_env" where
  "quiet_env = \<lparr>ctx_err = (\<lambda>w x. None), invoke = (\<lambda>cb b e w. w)\<rparr>"

text \<open>A run: a caller looks block \<open>a\<close> up and misses, \<open>a\<close> is put, and then the caller registers.\<close>

definition demo_raced :: "(mem_store, nat, unit) msys" where
  "demo_raced =
     \<lparr>ms_mgr = register (Cid ''a'') \<lparr>we_ctx = Root 1, we_cb = 7, we_at = 0\<rparr>
        \<lparr>inner = [(Cid ''a'', ''x'')], ready_blocks = [], wait_list = Map.empty, await_timeout = 500\<rparr>,
      ms_world = (), ms_holder = None,
      ms_senders = [(Root 2, [\<lparr>rb_cid = Cid ''a'', rb_size = 1\<rparr>])], ms_notifying = None\<rparr>"

lemma demo_raced_run:
  "mgr_run mem_blockstore quiet_env wstep demo_start [Awaited (Root 1) 7, Stored {Cid ''a''}, Registered] demo_raced"
proof -
  let ?s1 = "demo_start\<lparr>ms_holder := Some (Cid ''a'', Root 1, 7)\<rparr>"
  let ?b = "\<lparr>blk_cid = Cid ''a'', raw_data = ''x''\<rparr>"
  have "mgr_step mem_blockstore quiet_env wstep demo_start (Awaited (Root 1) 7) ?s1"
    by (rule mgr_step.await_miss [where e = NotFound])
      (simp_all add: demo_start_def init_msys_def new_manager_def)
  moreover have "bs_put mem_blockstore (inner (ms_mgr ?s1)) ?b = (None, [(Cid ''a'', ''x'')])"
    by (simp add: demo_start_def init_msys_def new_manager_def mem_put_def)
  from mgr_step.put_store [OF this, of quiet_env wstep "Root 2"]
  have "mgr_step mem_blockstore quiet_env wstep ?s1 (Stored {Cid ''a''})
      ((set_inner [(Cid ''a'', ''x'')] ?s1)\<lparr>ms_senders := [(Root 2, [\<lparr>rb_cid = Cid ''a'', rb_size = 1\<rparr>])]\<rparr>)"
    by (simp add: demo_start_def init_msys_def ready_of_def)
  moreover have "mgr_step mem_blockstore quiet_env wstep
      ((set_inner [(Cid ''a'', ''x'')] ?s1)\<lparr>ms_senders := [(Root 2, [\<lparr>rb_cid = Cid ''a'', rb_size = 1\<rparr>])]\<rparr>)
      Registered demo_raced"
    using mgr_step.await_register [of "(set_inner [(Cid ''a'', ''x'')] ?s1)\<lparr>ms_senders := [(Root 2, [\<lparr>rb_cid = Cid ''a'', rb_size = 1\<rparr>])]\<rparr>"
        "Cid ''a''" "Root 1" 7 mem_blockstore quiet_env wstep 0]
    by (simp add: demo_raced_def demo_start_def init_msys_def new_manager_def)
  ultimately have "mgr_run mem_blockstore quiet_env wstep demo_start ([Awaited (Root 1) 7] @ [Stored {Cid ''a''}] @ [Registered]) demo_raced"
    by (blast intro: run_trans run_one)
  then show ?thesis by simp
qed

theorem no_lost_wakeup_witness:
  "Cid ''a'' \<in> awaited demo_raced \<and> map_of (inner (ms_mgr demo_raced)) (Cid ''a'') \<noteq> None \<and>
   Cid ''a'' \<in> announced demo_raced"
proof -
  have a: "Cid ''a'' \<in> awaited demo_raced" "map_of (inner (ms_mgr demo_raced)) (Cid ''a'') \<noteq> None"
    by (simp_all add: demo_raced_def awaited_def)
  have "mgr_run mem_blockstore quiet_env (=) (init_msys (fst (new_manager [] 500)) ())
      [Awaited (Root 1) 7, Stored {Cid ''a''}, Registered] demo_raced"
    using demo_raced_run by (simp add: demo_start_def)
  from no_lost_wakeup [OF mem.block_store_axioms this _ a] a show ?thesis by simp
qed

text \<open>The notifier can always take its turns. From every state of the manager, reachable or not, the holder of
  the lock and the notifier can run, by registering, receiving and notifying only, to a state in
  which the channel is empty, the notifier is idle, the lock is free, and nobody waits for any
  identifier that was in the channel or at the notifier.\<close>

lemma notifier_can_run:
  fixes s :: "('s, 'cb, 'w) msys"
  shows "\<exists>evs t. mgr_run bs env wstep s evs t \<and>
     set evs \<subseteq> insert Registered (insert Received (range Notified)) \<and>
     ready_blocks (ms_mgr t) = [] \<and> ms_notifying t = None \<and> ms_holder t = None \<and>
     awaited t \<inter> rb_cid ` (set (ready_blocks (ms_mgr s)) \<union> set_option (ms_notifying s)) = {}"
proof -
  obtain evs1 s1 where one: "mgr_run bs env wstep s evs1 s1" "set evs1 \<subseteq> {Registered}"
    "ms_holder s1 = None" "ms_notifying s1 = ms_notifying s"
    "ready_blocks (ms_mgr s1) = ready_blocks (ms_mgr s)"
    by (rule register_held)
  obtain evs2 s2 where two: "mgr_run bs env wstep s1 evs2 s2" "set evs2 \<subseteq> range Notified"
    "ms_holder s2 = None" "ms_notifying s2 = None" "ready_blocks (ms_mgr s2) = ready_blocks (ms_mgr s)"
    "dom (wait_list (ms_mgr s2)) = dom (wait_list (ms_mgr s1)) - rb_cid ` set_option (ms_notifying s)"
    using finish_notifying [OF one(3), of bs env wstep thesis] one(4,5) by metis
  obtain evs3 t where three: "mgr_run bs env wstep s2 evs3 t" "set evs3 \<subseteq> insert Received (range Notified)"
    "ready_blocks (ms_mgr t) = []" "ms_notifying t = None" "ms_holder t = None"
    "dom (wait_list (ms_mgr t)) = dom (wait_list (ms_mgr s2)) - rb_cid ` set (ready_blocks (ms_mgr s))"
    using drain_channel [OF two(3,4,5), of bs env wstep] by blast
  have "mgr_run bs env wstep s (evs1 @ evs2 @ evs3) t"
    using one(1) two(1) three(1) by (blast intro: run_trans)
  moreover have "set (evs1 @ evs2 @ evs3) \<subseteq> insert Registered (insert Received (range Notified))"
    using one(2) two(2) three(2) by auto
  moreover have "awaited t \<inter> rb_cid ` (set (ready_blocks (ms_mgr s)) \<union> set_option (ms_notifying s)) = {}"
    using two(6) three(5,6) by (simp add: awaited_def) blast
  ultimately show ?thesis using three(3-5) by blast
qed

text \<open>C18. Announcements are delivered. Take any state, reachable or not, a block that the notifier has or that is in the
  channel, and a registered waiter for its identifier whose context never ends. In every run from there, whatever the
  other goroutines do, once the notifier has finished with as many blocks as were ahead of it and with this one, the
  callback of the waiter has been called during the run: with a block of that identifier, or with the timeout when a cleanup
  tick came first.\<close>

theorem announcements_delivered:
  assumes "mgr_run bs (logged env) (log_kept wstep) s evs t" and "to_notify s = ahead @ b # behind"
    and "e \<in> set (slice_at (wait_list (ms_mgr s)) (rb_cid b))" and "undying env (we_ctx e)"
    and "length ahead < notifications evs"
  shows "\<exists>calls. fst (ms_world t) = fst (ms_world s) @ calls \<and> told calls e (rb_cid b)"
  using run_told [OF assms(1,2,4,3)] assms(5) by auto

definition demo_announced :: "(mem_store, nat, nat call list \<times> unit) msys" where
  "demo_announced = init_msys \<lparr>inner = [(Cid ''a'', ''x'')], ready_blocks = [\<lparr>rb_cid = Cid ''a'', rb_size = 1\<rparr>],
     wait_list = [Cid ''a'' \<mapsto> [\<lparr>we_ctx = Root 1, we_cb = 7, we_at = 0\<rparr>]], await_timeout = 500\<rparr> ([], ())"

theorem announcements_delivered_witness:
  "\<exists>t. mgr_run mem_blockstore (logged quiet_env) (log_kept (=)) demo_announced
       [Received, Notified \<lparr>rb_cid = Cid ''a'', rb_size = 1\<rparr>] t \<and>
     told (fst (ms_world t)) \<lparr>we_ctx = Root 1, we_cb = 7, we_at = 0\<rparr> (Cid ''a'')"
proof -
  let ?b = "\<lparr>rb_cid = Cid ''a'', rb_size = 1\<rparr>" and ?e = "\<lparr>we_ctx = Root 1, we_cb = 7 :: nat, we_at = 0\<rparr>"
  let ?s1 = "demo_announced\<lparr>ms_mgr := (ms_mgr demo_announced)\<lparr>ready_blocks := []\<rparr>, ms_notifying := Some ?b\<rparr>"
  obtain m w where n: "notify_wait_callbacks (logged quiet_env) ?b (ms_mgr ?s1, ms_world ?s1) = (m, w)" by (metis surj_pair)
  have "mgr_step mem_blockstore (logged quiet_env) (log_kept (=)) demo_announced Received ?s1"
    by (rule mgr_step.receive) (simp_all add: demo_announced_def init_msys_def)
  moreover have "mgr_step mem_blockstore (logged quiet_env) (log_kept (=)) ?s1 (Notified ?b)
      (?s1\<lparr>ms_mgr := m, ms_world := w, ms_notifying := None\<rparr>)"
    by (rule mgr_step.notify [OF _ _ n]) (simp_all add: demo_announced_def init_msys_def)
  ultimately have run: "mgr_run mem_blockstore (logged quiet_env) (log_kept (=)) demo_announced ([Received] @ [Notified ?b])
      (?s1\<lparr>ms_mgr := m, ms_world := w, ms_notifying := None\<rparr>)"
    by (blast intro: run_trans run_one)
  have "to_notify demo_announced = [] @ ?b # []" "?e \<in> set (slice_at (wait_list (ms_mgr demo_announced)) (rb_cid ?b))"
    "undying quiet_env (we_ctx ?e)" "length [] < notifications ([Received] @ [Notified ?b])"
    "fst (ms_world demo_announced) = []"
    by (simp_all add: demo_announced_def init_msys_def to_notify_def notifications_def undying_def quiet_env_def)
  with announcements_delivered [OF run this(1-4)] run show ?thesis by auto
qed

text \<open>C17. Every callback is accounted for. In every run from a new manager, over any store and for any
  behaviour of the callbacks, a callback is run or still waiting at most as often as it was passed
  to \<open>AwaitBlock\<close>; so no registration is answered twice, and none that still waits has been
  answered. If the contexts it was passed with are never done, the two numbers are equal: no
  registration is forgotten.\<close>

theorem callbacks_accounted:
  fixes st :: 's
  assumes "mgr_run bs (logged env) (log_kept wstep) (init_msys (fst (new_manager st timeout)) ([], w)) evs s"
  shows "count (called (ms_world s) + open_cbs s) cb \<le> count (awaits evs) cb \<and>
     ((\<forall>x. Awaited x cb \<in> set evs \<longrightarrow> undying env x) \<longrightarrow>
        count (called (ms_world s) + open_cbs s) cb = count (awaits evs) cb)"
  using run_ledger [OF assms ledger_init(1) allI [OF ledger_init(2)]] by (simp add: ledger_def)

theorem callbacks_accounted_witness:
  "\<exists>s. mgr_run mem_blockstore (logged quiet_env) (log_kept (=))
       (init_msys (fst (new_manager [(Cid ''a'', ''x'')] 500)) ([], ())) [Awaited (Root 1) 7] s \<and>
     called (ms_world s) = {#7#} \<and> count (called (ms_world s) + open_cbs s) 7 = count (awaits [Awaited (Root 1) (7::nat)]) 7"
proof -
  let ?s0 = "init_msys (fst (new_manager [(Cid ''a'', ''x'')] 500)) ([], ())
    :: (mem_store, nat, nat call list \<times> unit) msys"
  let ?s1 = "?s0\<lparr>ms_mgr := ms_mgr ?s0, ms_world := ([(7, \<lparr>rb_cid = Cid ''a'', rb_size = 1\<rparr>, None)], ())\<rparr>"
  have "mgr_step mem_blockstore (logged quiet_env) (log_kept (=)) ?s0 (Awaited (Root 1) 7) ?s1"
    by (rule mgr_step.await_now [where c = "Cid ''a''" and now = 0 and hit = True])
      (simp_all add: init_msys_def new_manager_def await_block_def)
  then have run: "mgr_run mem_blockstore (logged quiet_env) (log_kept (=)) ?s0 [Awaited (Root 1) 7] ?s1"
    by (rule run_one)
  have "undying quiet_env x" for x by (simp add: undying_def quiet_env_def)
  with callbacks_accounted [OF run, of 7] have
    "count (called (ms_world ?s1) + open_cbs ?s1) 7 = count (awaits [Awaited (Root 1) (7::nat)]) 7" by blast
  moreover have "called (ms_world ?s1) = {#7#}" by (simp add: called_def)
  ultimately show ?thesis using run by blast
qed

text \<open>The channel never holds more than its capacity.\<close>

lemma step_channel_bounded:
  "mgr_step bs env wstep s ev t \<Longrightarrow> length (ready_blocks (ms_mgr s)) \<le> ready_cap \<Longrightarrow>
     length (ready_blocks (ms_mgr t)) \<le> ready_cap"
proof (induction rule: mgr_step.induct)
  case (await_now s c now x cb hit m' w')
  then have "m' = ms_mgr s" by (blast dest: await_block_found_sel)
  with await_now show ?case by simp
next
  case (announce s ss x b bl ss' pick m')
  then show ?case using send_ready_Sent [OF announce(2)] by simp
next
  case (notify s b m' w')
  then show ?case using notify_sel_dom [OF notify(3)] by simp
next
  case (cleanup s cids now m' w')
  then show ?case using dom_cleanup_pass [of env now cids "ms_mgr s" "ms_world s"] by simp
qed simp_all

text \<open>A waiter whose block is not announced stays, until somebody stores the block through the
  manager or a cleanup pass runs.\<close>

lemma step_waiter_kept:
  assumes "mgr_step bs env wstep s ev t" and "ev \<noteq> Cleaned" and "\<And>cs. ev = Stored cs \<Longrightarrow> c \<notin> cs"
    and "wait_list (ms_mgr s) c = Some es" and "c \<notin> announced s"
  shows "\<exists>es'. wait_list (ms_mgr t) c = Some (es @ es') \<and> c \<notin> announced t"
  using assms
proof (induction rule: mgr_step.induct)
  case (await_now s c' now x cb hit m' w')
  then have "m' = ms_mgr s" by (blast dest: await_block_found_sel)
  with await_now show ?case by (simp add: announced_def)
next
  case (await_register s c' x cb now)
  then show ?case by (auto simp: announced_def register_def)
next
  case (put_store s b st x)
  then have "c \<noteq> blk_cid b" by simp
  with put_store show ?case by (auto simp: announced_def)
next
  case (put_store_many s blks st x)
  then have "c \<notin> blk_cid ` set blks" by blast
  with put_store_many show ?case by (auto simp: announced_def)
next
  case (announce s ss x b bl ss' pick m')
  from send_ready_Sent [OF announce(2)] announce(1,5,6) show ?case by (auto simp: announced_def)
next
  case (notify s b m' w')
  then have "c \<noteq> rb_cid b" by (auto simp: announced_def)
  moreover from notify(3) have "m' = (ms_mgr s)\<lparr>wait_list := (wait_list (ms_mgr s))(rb_cid b := None)\<rparr>"
    by (simp add: notify_sel)
  ultimately show ?case using notify(6,7) by (auto simp: announced_def)
qed (auto simp: announced_def)

lemma run_waiter_kept:
  assumes "mgr_run bs env wstep s evs t" and "Cleaned \<notin> set evs" and "\<And>cs. Stored cs \<in> set evs \<Longrightarrow> c \<notin> cs"
    and "wait_list (ms_mgr s) c = Some es" and "c \<notin> announced s"
  shows "\<exists>es'. wait_list (ms_mgr t) c = Some (es @ es') \<and> c \<notin> announced t"
  using assms
proof (induction rule: mgr_run.induct)
  case (run_step s evs t ev u)
  then obtain es1 where "wait_list (ms_mgr t) c = Some (es @ es1)" "c \<notin> announced t" by auto
  with step_waiter_kept [OF run_step.hyps(2), of c "es @ es1"] run_step.prems show ?case by auto
qed simp

lemma run_channel_bounded:
  "mgr_run bs env wstep s evs t \<Longrightarrow> length (ready_blocks (ms_mgr s)) \<le> ready_cap \<Longrightarrow>
     length (ready_blocks (ms_mgr t)) \<le> ready_cap"
  by (induction rule: mgr_run.induct) (auto dest: step_channel_bounded)

text \<open>The ready channel is bounded: in no reachable state does it hold more than ten blocks, so a
  put blocks, or gives up with its context, rather than growing the channel.\<close>

lemma channel_bounded:
  assumes "mgr_run bs env wstep (init_msys (fst (new_manager st timeout)) w) evs s"
  shows "length (ready_blocks (ms_mgr s)) \<le> 10"
  using run_channel_bounded [OF assms] by (simp add: init_msys_def new_manager_def ready_cap_def)

text \<open>C38. A put whose context ends after its store write strands the waiters of its block. If
  somebody waits for the block, no announcement of it is under way and the context of the put is
  done, then the put can write the block, see its context and return; then the block is in
  the store, its waiters still wait, nothing announces the block, and no callback has run.\<close>

theorem cancelled_put_strands_waiter:
  fixes s :: "('s, 'cb, 'w) msys"
  assumes "block_store bs contents"
    and "wait_list (ms_mgr s) (blk_cid b) = Some es" and "blk_cid b \<notin> announced s"
    and "bs_put bs (inner (ms_mgr s)) b = (None, st)" and "ctx_err env (ms_world s) x = Some e"
  shows "\<exists>t. mgr_run bs env wstep s [Stored {blk_cid b}, SendsDropped {blk_cid b}] t \<and>
     blk_cid b \<in> stranded contents t \<and> wait_list (ms_mgr t) = wait_list (ms_mgr s) \<and>
     ms_world t = ms_world s"
proof -
  let ?s1 = "(set_inner st s)\<lparr>ms_senders := ms_senders s @ [(x, [ready_of b])]\<rparr>"
  let ?t = "?s1\<lparr>ms_senders := ms_senders s @ []\<rparr>"
  have "mgr_step bs env wstep s (Stored {blk_cid b}) ?s1"
    by (rule mgr_step.put_store [OF assms(4)])
  moreover have "mgr_step bs env wstep ?s1 (SendsDropped (rb_cid ` set (ready_of b # []))) ?t"
    by (rule mgr_step.drop_sends [where x = x and pick = False])
      (simp_all add: send_ready_def assms(5))
  ultimately have "mgr_run bs env wstep s ([Stored {blk_cid b}] @ [SendsDropped {blk_cid b}]) ?t"
    by (intro run_trans [OF run_one run_one]) simp_all
  moreover have "blk_cid b \<in> stranded contents ?t"
    using assms(2,3) block_store.put_dom [OF assms(1,4)]
    by (auto simp: stranded_def awaited_def stored_def announced_def)
  ultimately show ?thesis by (intro exI [of _ ?t]) simp
qed

definition demo_waiting :: "(mem_store, nat, nat list) msys" where
  "demo_waiting = init_msys demo_manager []"

theorem cancelled_put_strands_waiter_witness:
  "\<exists>t. mgr_run mem_blockstore demo_env (=) demo_waiting [Stored {Cid ''a''}, SendsDropped {Cid ''a''}] t \<and>
     Cid ''a'' \<in> stranded map_of t \<and> ms_world t = []"
proof -
  let ?b = "\<lparr>blk_cid = Cid ''a'', raw_data = ''x''\<rparr>"
  have h: "wait_list (ms_mgr demo_waiting) (blk_cid ?b) = Some demo_entries" "blk_cid ?b \<notin> announced demo_waiting"
    "bs_put mem_blockstore (inner (ms_mgr demo_waiting)) ?b = (None, [(Cid ''a'', ''x'')])"
    "ctx_err demo_env (ms_world demo_waiting) (Root 2) = Some CtxDone"
    by (simp_all add: demo_waiting_def init_msys_def demo_manager_def announced_def demo_env_def mem_put_def)
  from cancelled_put_strands_waiter [OF mem.block_store_axioms h, of "(=)"]
  show ?thesis by (auto simp: demo_waiting_def init_msys_def)
qed


section \<open>What a step does to the wrapped store\<close>

text \<open>A step changes the wrapped store only by its own operations, and never the timeout. So every relation
  that is reflexive and holds between the store before and after each operation holds across a step.\<close>

definition store_ops_in :: "'s blockstore \<Rightarrow> ('s \<Rightarrow> 's \<Rightarrow> bool) \<Rightarrow> bool" where
  "store_ops_in bs R \<longleftrightarrow> (\<forall>st. R st st) \<and> (\<forall>st b r st'. bs_put bs st b = (r, st') \<longrightarrow> R st st') \<and>
     (\<forall>st blks r st'. bs_put_many bs st blks = (r, st') \<longrightarrow> R st st') \<and>
     (\<forall>st c r st'. bs_delete bs st c = (r, st') \<longrightarrow> R st st')"

lemma store_ops_inD:
  assumes "store_ops_in bs R"
  shows "R st st" and "bs_put bs st b = (r, st') \<Longrightarrow> R st st'" and "bs_put_many bs st blks = (r, st') \<Longrightarrow> R st st'"
    and "bs_delete bs st c = (r, st') \<Longrightarrow> R st st'"
  using assms unfolding store_ops_in_def by blast+

lemma cleanup_pass_frame:
  "await_timeout (fst (cleanup_pass env now cids (m, w))) = await_timeout m"
proof (induction cids arbitrary: m w)
  case Nil
  show ?case by (simp add: cleanup_pass_def)
next
  case (Cons c cids)
  obtain m1 w1 where one: "cleanup_cid env now c (m, w) = (m1, w1)" by fastforce
  then have "await_timeout m1 = await_timeout m" by (auto simp: cleanup_cid_def split_beta split: if_splits)
  with Cons.IH [of m1 w1] one show ?case by (simp add: cleanup_pass_def)
qed

lemma await_block_frame:
  assumes "await_block bs env now x c cb (m, w) = (hit, m', w')"
  shows "inner m' = inner m \<and> await_timeout m' = await_timeout m"
  using assms by (auto simp: await_block_def register_def split: sum.splits if_splits)

lemma mgr_step_store:
  assumes "mgr_step bs env wstep s ev t" and "store_ops_in bs R"
  shows "R (inner (ms_mgr s)) (inner (ms_mgr t)) \<and> await_timeout (ms_mgr t) = await_timeout (ms_mgr s)"
  using assms(1)
proof (induction rule: mgr_step.induct)
  case (await_now s c now x cb hit m' w')
  then show ?case using await_block_frame [OF await_now(3)] store_ops_inD(1) [OF assms(2)] by simp
next
  case (announce s ss x b bl ss' pick m')
  then show ?case using send_ready_Sent [OF announce(2)] store_ops_inD(1) [OF assms(2)] by simp
next
  case (notify s b m' w')
  then show ?case using store_ops_inD(1) [OF assms(2)] by (auto simp: notify_sel)
next
  case (cleanup s cids now m' w')
  then show ?case
    using dom_cleanup_pass [of env now cids "ms_mgr s" "ms_world s"] cleanup_pass_frame [of env now cids "ms_mgr s" "ms_world s"]
      store_ops_inD(1) [OF assms(2)] by simp
qed (use store_ops_inD [OF assms(2)] in \<open>simp_all add: register_def\<close>)

end
