(* ===== verification/Go_Strings.thy ===== *)
theory Go_Strings
  imports Go_Prelude
begin

text \<open>
  The functions of Go's \<open>strings\<close> and \<open>fmt\<close> packages that the code applies to configuration values
  and to the pruner's candidate file, on strings as UTF-8 bytes. \<open>TrimSpace\<close> removes every Unicode
  white space rune, here by its encoding. \<open>ToLower\<close> is exact on ASCII and on the two
  other runes whose lower case is an ASCII letter (the dotted capital I and the Kelvin sign); the
  bytes of any other rune are kept, which no comparison with an ASCII keyword can tell apart.
\<close>

section \<open>White space\<close>

definition go_spaces :: "string list" where
  "go_spaces =
     [[CHR 0x09], [CHR 0x0A], [CHR 0x0B], [CHR 0x0C], [CHR 0x0D], [CHR 0x20],
      [CHR 0xC2, CHR 0x85], [CHR 0xC2, CHR 0xA0], [CHR 0xE1, CHR 0x9A, CHR 0x80],
      [CHR 0xE2, CHR 0x80, CHR 0x80], [CHR 0xE2, CHR 0x80, CHR 0x81], [CHR 0xE2, CHR 0x80, CHR 0x82],
      [CHR 0xE2, CHR 0x80, CHR 0x83], [CHR 0xE2, CHR 0x80, CHR 0x84], [CHR 0xE2, CHR 0x80, CHR 0x85],
      [CHR 0xE2, CHR 0x80, CHR 0x86], [CHR 0xE2, CHR 0x80, CHR 0x87], [CHR 0xE2, CHR 0x80, CHR 0x88],
      [CHR 0xE2, CHR 0x80, CHR 0x89], [CHR 0xE2, CHR 0x80, CHR 0x8A], [CHR 0xE2, CHR 0x80, CHR 0xA8],
      [CHR 0xE2, CHR 0x80, CHR 0xA9], [CHR 0xE2, CHR 0x80, CHR 0xAF], [CHR 0xE2, CHR 0x81, CHR 0x9F],
      [CHR 0xE3, CHR 0x80, CHR 0x80]]"

lemma go_spaces_nonempty: "ws \<in> set go_spaces \<Longrightarrow> ws \<noteq> []"
  by (auto simp: go_spaces_def)

definition leading_space :: "string \<Rightarrow> string option" where
  "leading_space s = find (\<lambda>ws. take (length ws) s = ws) go_spaces"

definition trailing_space :: "string \<Rightarrow> string option" where
  "trailing_space s = find (\<lambda>ws. length ws \<le> length s \<and> drop (length s - length ws) s = ws) go_spaces"

lemma leading_space_shorter:
  "leading_space s = Some ws \<Longrightarrow> 0 < length ws \<and> length ws \<le> length s"
  unfolding leading_space_def find_Some_iff
  by (metis go_spaces_nonempty length_greater_0_conv length_take min.cobounded1 nth_mem)

lemma trailing_space_shorter:
  "trailing_space s = Some ws \<Longrightarrow> 0 < length ws \<and> length ws \<le> length s"
  unfolding trailing_space_def find_Some_iff
  by (metis go_spaces_nonempty length_greater_0_conv nth_mem)

lemma leading_space_less: "leading_space s = Some ws \<Longrightarrow> length s - length ws < length s"
  using leading_space_shorter [of s ws] by (cases s) auto

lemma trailing_space_less: "trailing_space s = Some ws \<Longrightarrow> length s - length ws < length s"
  using trailing_space_shorter [of s ws] by (cases s) auto

function trim_left :: "string \<Rightarrow> string" where
  "trim_left s = (case leading_space s of None \<Rightarrow> s | Some ws \<Rightarrow> trim_left (drop (length ws) s))"
  by pat_completeness auto
termination
  by (relation "measure length") (simp_all add: leading_space_less)

function trim_right :: "string \<Rightarrow> string" where
  "trim_right s =
     (case trailing_space s of None \<Rightarrow> s | Some ws \<Rightarrow> trim_right (take (length s - length ws) s))"
  by pat_completeness auto
termination
  by (relation "measure length") (simp_all add: trailing_space_less)

declare trim_left.simps [simp del] trim_right.simps [simp del]

definition trim_space :: "string \<Rightarrow> string" where
  "trim_space s = trim_right (trim_left s)"

lemma trim_space_Nil: "trim_space [] = []"
proof -
  have "leading_space [] = None" "trailing_space [] = None"
    using leading_space_shorter [of "[]"] trailing_space_shorter [of "[]"]
    by (cases "leading_space []"; cases "trailing_space []"; force)+
  then show ?thesis by (simp add: trim_space_def trim_left.simps trim_right.simps)
qed

text \<open>A printable ASCII byte starts and ends no white space rune.\<close>

definition plain_char :: "char \<Rightarrow> bool" where
  "plain_char c \<longleftrightarrow> 0x21 \<le> (of_char c :: nat) \<and> (of_char c :: nat) \<le> 0x7E"

lemma go_spaces_not_plain:
  "ws \<in> set go_spaces \<Longrightarrow> \<not> plain_char (hd ws) \<and> \<not> plain_char (last ws)"
  by (auto simp: go_spaces_def plain_char_def)

lemma leading_space_plain: "plain_char c \<Longrightarrow> leading_space (c # s) = None"
proof -
  assume c: "plain_char c"
  have "take (length ws) (c # s) \<noteq> ws" if "ws \<in> set go_spaces" for ws
  proof
    assume "take (length ws) (c # s) = ws"
    moreover from that have "ws \<noteq> []" by (rule go_spaces_nonempty)
    ultimately have "hd ws = c" by (cases ws) auto
    with go_spaces_not_plain [OF that] c show False by simp
  qed
  then show ?thesis unfolding leading_space_def find_None_iff by blast
qed

lemma trailing_space_plain: "plain_char c \<Longrightarrow> trailing_space (s @ [c]) = None"
proof -
  assume c: "plain_char c"
  have "\<not> (length ws \<le> length (s @ [c]) \<and> drop (length (s @ [c]) - length ws) (s @ [c]) = ws)"
    if "ws \<in> set go_spaces" for ws
  proof
    assume "length ws \<le> length (s @ [c]) \<and> drop (length (s @ [c]) - length ws) (s @ [c]) = ws"
    moreover from that have ne: "ws \<noteq> []" by (rule go_spaces_nonempty)
    ultimately have "last ws = last (s @ [c])" by (metis last_drop drop_eq_Nil not_le)
    with go_spaces_not_plain [OF that] c show False by simp
  qed
  then show ?thesis unfolding trailing_space_def find_None_iff by blast
qed

lemma trim_left_plain: "plain_char c \<Longrightarrow> trim_left (c # s) = c # s"
  by (subst trim_left.simps) (simp add: leading_space_plain)

lemma trailing_space_blank: "trailing_space (s @ [CHR '' '']) = Some [CHR '' '']"
  by (simp add: trailing_space_def go_spaces_def)

lemma trim_right_blanks:
  assumes "s \<noteq> []" and "plain_char (last s)"
  shows "trim_right (s @ replicate n (CHR '' '')) = s"
proof (induction n)
  case 0
  from assms have "trailing_space s = None"
    using trailing_space_plain [of "last s" "butlast s"] by simp
  then show ?case by (subst trim_right.simps) simp
next
  case (Suc n)
  have split: "s @ replicate (Suc n) (CHR '' '') = (s @ replicate n (CHR '' '')) @ [CHR '' '']"
    by (simp add: replicate_append_same)
  show ?case
    unfolding split by (subst trim_right.simps, subst trailing_space_blank) (simp add: Suc.IH)
qed

text \<open>Trimming undoes padding with blanks.\<close>

definition pad_right :: "nat \<Rightarrow> string \<Rightarrow> string" where
  "pad_right n s = s @ replicate (n - length s) (CHR '' '')"

lemma length_pad_right [simp]: "length (pad_right n s) = max n (length s)"
  by (simp add: pad_right_def)

lemma trim_space_ends:
  assumes "s \<noteq> []" and "plain_char (hd s)" and "plain_char (last s)"
  shows "trim_space s = s"
proof -
  from assms(1,2) have "trim_left s = s" by (cases s) (simp_all add: trim_left_plain)
  with trim_right_blanks [OF assms(1,3), of 0] show ?thesis by (simp add: trim_space_def)
qed

lemma trim_space_pad_right:
  assumes "s \<noteq> []" and "list_all plain_char s"
  shows "trim_space (pad_right n s) = s"
proof -
  from assms have ends: "plain_char (hd s)" "plain_char (last s)"
    by (simp_all add: list_all_iff)
  with assms(1) have "trim_left (pad_right n s) = pad_right n s"
    by (cases s) (simp_all add: pad_right_def trim_left_plain)
  with trim_right_blanks [OF assms(1) ends(2)] show ?thesis
    by (simp add: trim_space_def pad_right_def)
qed

lemma trim_space_plain:
  "s \<noteq> [] \<Longrightarrow> list_all plain_char s \<Longrightarrow> trim_space s = s"
  using trim_space_pad_right [of s 0] by (simp add: pad_right_def)

section \<open>Lower case\<close>

definition lower_char :: "char \<Rightarrow> char" where
  "lower_char c =
     (if 0x41 \<le> (of_char c :: nat) \<and> (of_char c :: nat) \<le> 0x5A then char_of ((of_char c :: nat) + 32) else c)"

fun to_lower :: "string \<Rightarrow> string" where
  "to_lower [] = []"
| "to_lower (c # cs) =
     (if c = CHR 0xC4 \<and> take 1 cs = [CHR 0xB0] then CHR ''i'' # to_lower (drop 1 cs)
      else if c = CHR 0xE2 \<and> take 2 cs = [CHR 0x84, CHR 0xAA] then CHR ''k'' # to_lower (drop 2 cs)
      else lower_char c # to_lower cs)"

section \<open>Decimal numbers\<close>

text \<open>The \<open>%d\<close> of the formatted messages.\<close>

definition digit_char :: "nat \<Rightarrow> char" where
  "digit_char n = char_of (48 + n)"

fun nat_string :: "nat \<Rightarrow> string" where
  "nat_string n = (if n < 10 then [digit_char n] else nat_string (n div 10) @ [digit_char (n mod 10)])"

declare nat_string.simps [simp del]

definition int_string :: "int \<Rightarrow> string" where
  "int_string i = (if i < 0 then CHR ''-'' # nat_string (nat (- i)) else nat_string (nat i))"

lemma plain_digit_char: "n < 10 \<Longrightarrow> plain_char (digit_char n)"
  by (simp add: plain_char_def digit_char_def)

lemma nat_string_plain: "nat_string n \<noteq> [] \<and> list_all plain_char (nat_string n)"
  by (induction n rule: nat_string.induct) (subst (1 2) nat_string.simps, simp add: plain_digit_char)

lemma int_string_plain: "int_string i \<noteq> [] \<and> list_all plain_char (int_string i)"
  using nat_string_plain by (simp add: int_string_def plain_char_def)

section \<open>Suffixes\<close>

text \<open>\<open>strings.TrimSuffix\<close>: the suffix is removed once, if it is there.\<close>

definition trim_suffix :: "string \<Rightarrow> string \<Rightarrow> string" where
  "trim_suffix s suf =
     (if length suf \<le> length s \<and> drop (length s - length suf) s = suf
      then take (length s - length suf) s else s)"

lemma trim_suffix_append [simp]: "trim_suffix (s @ suf) suf = s"
  by (simp add: trim_suffix_def)

end
