(* ===== verification/Bitswap_Util.thy ===== *)
theory Bitswap_Util
  imports Go_Strings
begin

text \<open>
  \<open>RoutingTableType\<close> (src/bitswap/util.go), an \<open>int\<close> with three named values, and its text form in
  the configuration. A YAML node is what its \<open>Decode\<close> into a string gives, an error or the string,
  and its line.
\<close>

section \<open>YAML nodes\<close>

record yaml_node =
  yn_decode :: "go_error + string"
  yn_line :: int

text \<open>The shape shared by the \<open>UnmarshalYAML\<close> methods: the receiver changes only when the text
  parses. \<open>show_err\<close> is the \<open>Error()\<close> of an error value.\<close>

definition unmarshal_with ::
  "(string \<Rightarrow> go_error + 'a) \<Rightarrow> (go_error \<Rightarrow> string) \<Rightarrow> yaml_node \<Rightarrow> 'a \<Rightarrow> go_error option \<times> 'a" where
  "unmarshal_with parse show_err n old =
     (case yn_decode n of
        Inl e \<Rightarrow> (Some e, old)
      | Inr s \<Rightarrow>
          (case parse s of
             Inl e \<Rightarrow> (Some (YamlTypeError (''line '' @ int_string (yn_line n) @ '': '' @ show_err e)), old)
           | Inr t \<Rightarrow> (None, t)))"

section \<open>Routing table types\<close>

datatype routing_table_type =
    RoutingTableTypeDisabled
  | RoutingTableTypeDHT
  | RoutingTableTypeFull
  | RoutingTableTypeOther int

definition routing_table_name :: "routing_table_type \<Rightarrow> string" where
  "routing_table_name t =
     (case t of
        RoutingTableTypeDisabled \<Rightarrow> ''disabled''
      | RoutingTableTypeDHT \<Rightarrow> ''dht''
      | RoutingTableTypeFull \<Rightarrow> ''full''
      | RoutingTableTypeOther n \<Rightarrow> ''unknown routing table type '' @ int_string n)"

definition parse_routing_table_type :: "string \<Rightarrow> go_error + routing_table_type" where
  "parse_routing_table_type s =
     (let t = to_lower (trim_space s)
      in if t = routing_table_name RoutingTableTypeDisabled then Inr RoutingTableTypeDisabled
         else if t = routing_table_name RoutingTableTypeDHT then Inr RoutingTableTypeDHT
         else if t = routing_table_name RoutingTableTypeFull then Inr RoutingTableTypeFull
         else Inl (Msg (''unknown routing table type '' @ s)))"

definition unmarshal_routing_table_type ::
  "(go_error \<Rightarrow> string) \<Rightarrow> yaml_node \<Rightarrow> routing_table_type \<Rightarrow> go_error option \<times> routing_table_type" where
  "unmarshal_routing_table_type show_err n old = unmarshal_with parse_routing_table_type show_err n old"

definition marshal_routing_table_type :: "routing_table_type \<Rightarrow> string" where
  "marshal_routing_table_type t = routing_table_name t"

section \<open>Properties\<close>

text \<open>A text that starts and ends with a printable character, after whose lower-casing no
  white space can be trimmed.\<close>

lemma unknown_name_kept:
  "trim_space (CHR ''u'' # s @ int_string n) = CHR ''u'' # s @ int_string n"
  "to_lower (CHR ''u'' # s) = CHR ''u'' # to_lower s"
proof -
  have "int_string n \<noteq> []" "list_all plain_char (int_string n)" using int_string_plain by blast+
  then have "plain_char (last (CHR ''u'' # s @ int_string n))" by (simp add: list_all_iff)
  then show "trim_space (CHR ''u'' # s @ int_string n) = CHR ''u'' # s @ int_string n"
    by (intro trim_space_ends) (simp_all add: plain_char_def)
qed (simp add: lower_char_def)

text \<open>Routing table types survive a trip through the configuration file: unmarshalling what
  \<open>MarshalYAML\<close> wrote gives the same value back for each of the three named types, and reports an
  error, with the receiver unchanged, for every other integer.\<close>

lemma routing_table_type_roundtrip:
  "unmarshal_routing_table_type show_err \<lparr>yn_decode = Inr (marshal_routing_table_type t), yn_line = l\<rparr> old =
     (case t of
        RoutingTableTypeOther n \<Rightarrow>
          (Some (YamlTypeError (''line '' @ int_string l @ '': '' @
             show_err (Msg (''unknown routing table type '' @ routing_table_name t)))), old)
      | _ \<Rightarrow> (None, t))"
proof (cases t)
  case (RoutingTableTypeOther n)
  then show ?thesis
    using unknown_name_kept(1) [of "''nknown routing table type ''" n]
    by (simp add: unmarshal_routing_table_type_def unmarshal_with_def marshal_routing_table_type_def
        parse_routing_table_type_def routing_table_name_def)
qed (simp_all add: unmarshal_routing_table_type_def unmarshal_with_def marshal_routing_table_type_def
    parse_routing_table_type_def routing_table_name_def trim_space_plain plain_char_def lower_char_def)

end
