(* ===== verification/Bitswap_Provider.thy ===== *)
theory Bitswap_Provider
  imports Manager_Runs Bitswap_Util
begin

text \<open>
  \<open>bitswap.Provider\<close> (src/bitswap/provider.go): it answers the wants of bitswap peers from the
  blockstore, or starts a retrieval and answers when the block arrives. Peers, messages, metrics
  and the task queue are third-party objects that the provider only calls, so the record
  \<open>pworld\<close> keeps the calls made: the tasks pushed, the tokens in the \<open>workReady\<close> channel, the
  contexts cancelled, the counters recorded and the retrieval goroutines started. The callback given
  to \<open>AwaitBlock\<close> is the closure \<open>await_cb\<close> of what it captures.
\<close>

section \<open>Data\<close>

type_synonym peer_id = string

datatype want_type = WantBlock | WantHave | WantOther int

record entry =
  en_cid :: cid
  en_priority :: int
  en_type :: want_type
  en_cancel :: bool

datatype topic = TopicHave cid | TopicDontHave cid | TopicBlock cid

fun topic_cid :: "topic \<Rightarrow> cid" where
  "topic_cid (TopicHave c) = c"
| "topic_cid (TopicDontHave c) = c"
| "topic_cid (TopicBlock c) = c"

record task =
  tk_topic :: topic
  tk_priority :: int
  tk_work :: int

text \<open>The counters, and for a response the tags \<open>topic\<close> and \<open>dont_have_reason\<close>.\<close>

datatype stat =
    BitswapRequestCount
  | BlockstoreCacheHitCount
  | BitswapRetrieverRequestCount
  | BitswapResponseCount string "string option"

text \<open>The goroutine that \<open>retrieveForPeer\<close> starts, with what it captures.\<close>

record retrieval =
  rt_entry :: entry
  rt_sender :: peer_id
  rt_ctx :: ctx
  rt_block_ctx :: ctx

record await_cb =
  cb_entry :: entry
  cb_sender :: peer_id
  cb_send_block :: bool
  cb_block_ctx :: ctx

record pworld =
  pushed :: "(peer_id \<times> task) list"
  work_ready :: nat
  cancelled :: "ctx list"
  stats :: "stat list"
  spawned :: "retrieval list"

text \<open>\<open>ProviderConfig\<close>, and whether there is a retriever; \<open>presence_size\<close> is
  \<open>message.BlockPresenceSize\<close>.\<close>

record provider =
  cid_blacklist :: "cid \<rightharpoonup> bool"
  max_workers :: nat
  routing_type :: routing_table_type
  has_retriever :: bool
  presence_size :: "cid \<Rightarrow> int"

definition blacklisted :: "provider \<Rightarrow> cid \<Rightarrow> bool" where
  "blacklisted pr c = (cid_blacklist pr c = Some True)"

text \<open>\<open>NewProvider\<close>: the routing the network gets, the empty channel and the number of workers. Starting the network and
  the workers is recorded where \<open>New\<close> calls this (\<open>start_services\<close>), and the link system is \<open>link_system_put\<close>.\<close>

definition choose_routing ::
  "(go_error + 'r) \<Rightarrow> (go_error + 'r) \<Rightarrow> routing_table_type \<Rightarrow> go_error + 'r option" where
  "choose_routing new_full_rt new_dht t =
     (case t of
        RoutingTableTypeFull \<Rightarrow> (case new_full_rt of Inl e \<Rightarrow> Inl e | Inr r \<Rightarrow> Inr (Some r))
      | RoutingTableTypeDHT \<Rightarrow> (case new_dht of Inl e \<Rightarrow> Inl e | Inr r \<Rightarrow> Inr (Some r))
      | _ \<Rightarrow> Inr None)"

definition init_world :: pworld where
  "init_world = \<lparr>pushed = [], work_ready = 0, cancelled = [], stats = [], spawned = []\<rparr>"

definition new_provider ::
  "(go_error + 'r) \<Rightarrow> (go_error + 'r) \<Rightarrow> provider \<Rightarrow> go_error + 'r option \<times> pworld \<times> nat" where
  "new_provider new_full_rt new_dht pr =
     (case choose_routing new_full_rt new_dht (routing_type pr) of
        Inl e \<Rightarrow> Inl e
      | Inr routing \<Rightarrow> Inr (routing, init_world, max_workers pr))"

section \<open>Queueing answers\<close>

definition record_stat :: "stat \<Rightarrow> pworld \<Rightarrow> pworld" where
  "record_stat st w = w\<lparr>stats := stats w @ [st]\<rparr>"

definition push_task :: "peer_id \<Rightarrow> task \<Rightarrow> pworld \<Rightarrow> pworld" where
  "push_task p t w = w\<lparr>pushed := pushed w @ [(p, t)]\<rparr>"

definition queue_block :: "peer_id \<Rightarrow> entry \<Rightarrow> int \<Rightarrow> pworld \<Rightarrow> pworld" where
  "queue_block sender en n w =
     record_stat (BitswapResponseCount ''BLOCK'' None)
       (push_task sender \<lparr>tk_topic = TopicBlock (en_cid en), tk_priority = en_priority en, tk_work = n\<rparr> w)"

definition queue_dont_have :: "provider \<Rightarrow> peer_id \<Rightarrow> entry \<Rightarrow> string \<Rightarrow> pworld \<Rightarrow> pworld" where
  "queue_dont_have pr sender en reason w =
     record_stat (BitswapResponseCount ''DONT_HAVE'' (Some reason))
       (push_task sender \<lparr>tk_topic = TopicDontHave (en_cid en), tk_priority = en_priority en,
          tk_work = presence_size pr (en_cid en)\<rparr> w)"

definition queue_have :: "provider \<Rightarrow> peer_id \<Rightarrow> entry \<Rightarrow> pworld \<Rightarrow> pworld" where
  "queue_have pr sender en w =
     record_stat (BitswapResponseCount ''HAVE'' None)
       (push_task sender \<lparr>tk_topic = TopicHave (en_cid en), tk_priority = en_priority en,
          tk_work = presence_size pr (en_cid en)\<rparr> w)"

text \<open>\<open>signalWork\<close>: a send that is given up when the channel is full.\<close>

definition signal_work :: "provider \<Rightarrow> pworld \<Rightarrow> pworld" where
  "signal_work pr w = (if work_ready w < max_workers pr then w\<lparr>work_ready := Suc (work_ready w)\<rparr> else w)"

section \<open>Contexts and callbacks\<close>

definition cancel_ctx :: "ctx \<Rightarrow> pworld \<Rightarrow> pworld" where
  "cancel_ctx x w = w\<lparr>cancelled := x # cancelled w\<rparr>"

text \<open>A derived context is done when it was cancelled or the one it derives from is done.\<close>

fun ctx_done :: "ctx list \<Rightarrow> ctx \<Rightarrow> bool" where
  "ctx_done xs (Root n) = (Root n \<in> set xs)"
| "ctx_done xs (Derived x n) = (Derived x n \<in> set xs \<or> ctx_done xs x)"

text \<open>The callback of \<open>retrieveForPeer\<close>.\<close>

definition block_callback ::
  "provider \<Rightarrow> await_cb \<Rightarrow> ready_block \<Rightarrow> go_error option \<Rightarrow> pworld \<Rightarrow> pworld" where
  "block_callback pr cb blk err w =
     (let w1 = (case err of
                  Some e \<Rightarrow> queue_dont_have pr (cb_sender cb) (cb_entry cb) ''failed_block_load'' w
                | None \<Rightarrow>
                    if cb_send_block cb then queue_block (cb_sender cb) (cb_entry cb) (rb_size blk) w
                    else queue_have pr (cb_sender cb) (cb_entry cb) w)
      in cancel_ctx (cb_block_ctx cb) (signal_work pr w1))"

definition provider_env :: "provider \<Rightarrow> (await_cb, pworld) cb_env" where
  "provider_env pr =
     \<lparr>ctx_err = (\<lambda>w x. if ctx_done (cancelled w) x then Some CtxDone else None),
      invoke = block_callback pr\<rparr>"

section \<open>Receiving messages\<close>

type_synonym 's pstate = "('s, await_cb) manager \<times> pworld"

text \<open>
  \<open>retrieveForPeer\<close>. \<open>id_err\<close> is the error of \<open>NewRetrievalID\<close>; \<open>ctx\<close> the context of the message, from
  which the \<open>k\<close>-th entry's block context is derived.
\<close>

definition retrieve_for_peer ::
  "'s blockstore \<Rightarrow> provider \<Rightarrow> go_time \<Rightarrow> go_error option \<Rightarrow> ctx \<Rightarrow> nat \<Rightarrow> entry \<Rightarrow> peer_id \<Rightarrow> bool \<Rightarrow>
   's pstate \<Rightarrow> 's pstate" where
  "retrieve_for_peer bs pr now id_err ctx k en sender send_block = (\<lambda>(m, w).
     case id_err of
       Some e \<Rightarrow> (m, w)
     | None \<Rightarrow>
         (let block_ctx = Derived ctx k;
              cb = \<lparr>cb_entry = en, cb_sender = sender, cb_send_block = send_block, cb_block_ctx = block_ctx\<rparr>;
              (hit, m', w') = await_block bs (provider_env pr) now block_ctx (en_cid en) cb (m, w)
          in if hit then (m', w')
             else (m', w'\<lparr>spawned := spawned w' @
                [\<lparr>rt_entry = en, rt_sender = sender, rt_ctx = ctx, rt_block_ctx = block_ctx\<rparr>]\<rparr>)))"

text \<open>What follows the two \<open>switch\<close> cases when the block was not found: whether \<open>retrieveForPeer\<close> is called, and
  with which \<open>sendBlock\<close>.\<close>

definition try_retrieval :: "provider \<Rightarrow> entry \<Rightarrow> peer_id \<Rightarrow> pworld \<Rightarrow> bool option \<times> pworld" where
  "try_retrieval pr en sender w =
     (if \<not> has_retriever pr then (None, queue_dont_have pr sender en ''disabled_retriever'' w)
      else
        (let w1 = record_stat BitswapRetrieverRequestCount w
         in case en_type en of
              WantHave \<Rightarrow> (Some False, w1)
            | WantBlock \<Rightarrow> (Some True, w1)
            | WantOther n \<Rightarrow> (None, w1)))"

text \<open>One iteration of the loop over the wantlist, up to the call of \<open>retrieveForPeer\<close>. The store \<open>s\<close> is looked
  at once, without the lock.\<close>

definition entry_lookup ::
  "'s blockstore \<Rightarrow> provider \<Rightarrow> peer_id \<Rightarrow> entry \<Rightarrow> 's \<Rightarrow> pworld \<Rightarrow> bool option \<times> pworld" where
  "entry_lookup bs pr sender en s w =
     (if en_cancel en then (None, w)
      else
        (let w1 = record_stat BitswapRequestCount w
         in if blacklisted pr (en_cid en) then (None, queue_dont_have pr sender en ''blacklisted_cid'' w1)
            else
              (case en_type en of
                 WantHave \<Rightarrow>
                   (case bs_has bs s (en_cid en) of
                      Inl e \<Rightarrow> (None, w1)
                    | Inr has \<Rightarrow>
                        if has then (None, queue_have pr sender en (record_stat BlockstoreCacheHitCount w1))
                        else try_retrieval pr en sender w1)
               | WantBlock \<Rightarrow>
                   (case bs_get_size bs s (en_cid en) of
                      Inl e \<Rightarrow>
                        if \<not> is_not_found e then (None, w1)
                        else try_retrieval pr en sender w1
                    | Inr n \<Rightarrow> (None, queue_block sender en n (record_stat BlockstoreCacheHitCount w1)))
               | WantOther n \<Rightarrow> try_retrieval pr en sender w1)))"

definition receive_entry ::
  "'s blockstore \<Rightarrow> provider \<Rightarrow> go_time \<Rightarrow> go_error option \<Rightarrow> ctx \<Rightarrow> peer_id \<Rightarrow> nat \<Rightarrow> entry \<Rightarrow>
   's pstate \<Rightarrow> 's pstate" where
  "receive_entry bs pr now id_err ctx sender k en = (\<lambda>(m, w).
     case entry_lookup bs pr sender en (inner m) w of
       (None, w1) \<Rightarrow> (m, w1)
     | (Some send_block, w1) \<Rightarrow> retrieve_for_peer bs pr now id_err ctx k en sender send_block (m, w1))"

fun receive_entries ::
  "'s blockstore \<Rightarrow> provider \<Rightarrow> go_time \<Rightarrow> (nat \<Rightarrow> go_error option) \<Rightarrow> ctx \<Rightarrow> peer_id \<Rightarrow> nat \<Rightarrow> entry list \<Rightarrow>
   's pstate \<Rightarrow> 's pstate" where
  "receive_entries bs pr now id_err ctx sender k [] st = st"
| "receive_entries bs pr now id_err ctx sender k (en # ens) st =
     receive_entries bs pr now id_err ctx sender (Suc k) ens
       (receive_entry bs pr now (id_err k) ctx sender k en st)"

definition receive_message ::
  "'s blockstore \<Rightarrow> provider \<Rightarrow> go_time \<Rightarrow> (nat \<Rightarrow> go_error option) \<Rightarrow> ctx \<Rightarrow> peer_id \<Rightarrow> entry list \<Rightarrow>
   's pstate \<Rightarrow> 's pstate" where
  "receive_message bs pr now id_err ctx sender wantlist st =
     (case receive_entries bs pr now id_err ctx sender 0 wantlist st of (m, w) \<Rightarrow> (m, signal_work pr w))"

text \<open>The retrieval goroutine, once \<open>Retrieve\<close> has returned with \<open>outcome\<close>.\<close>

definition finish_retrieval :: "provider \<Rightarrow> retrieval \<Rightarrow> go_error option \<Rightarrow> pworld \<Rightarrow> pworld" where
  "finish_retrieval pr rt outcome w =
     (case outcome of
        Some e \<Rightarrow>
          if errors_is e RetrievalAlreadyRunning then w
          else if errors_is e NoCandidates
          then cancel_ctx (rt_block_ctx rt) (queue_dont_have pr (rt_sender rt) (rt_entry rt) ''no_candidates'' w)
          else cancel_ctx (rt_block_ctx rt) (queue_dont_have pr (rt_sender rt) (rt_entry rt) ''retrieval_failed'' w)
      | None \<Rightarrow> cancel_ctx (rt_block_ctx rt) w)"

text \<open>
  The link system that \<open>NewProvider\<close> hands to every retrieval, \<open>LinkSystemForBlockstore(blockManager.Blockstore)\<close>:
  it commits a block by a \<open>Put\<close> of the blockstore it was made for, which is the one inside the manager.
\<close>

definition link_system_put :: "'s blockstore \<Rightarrow> block \<Rightarrow> ('s, 'cb) manager \<Rightarrow> go_error option \<times> ('s, 'cb) manager" where
  "link_system_put bs b m = (case bs_put bs (inner m) b of (r, st) \<Rightarrow> (r, m\<lparr>inner := st\<rparr>))"

section \<open>Workers\<close>

text \<open>A message is the sequence of the calls that fill it, and its pending bytes, an \<open>int32\<close>.\<close>

datatype msg_op = AddHave cid | AddDontHave cid | AddBlock block

record bitswap_message =
  msg_ops :: "msg_op list"
  msg_pending :: int

definition answer_task :: "'s blockstore \<Rightarrow> 's \<Rightarrow> topic \<Rightarrow> msg_op" where
  "answer_task bs s t =
     (case t of
        TopicHave c \<Rightarrow>
          (case bs_has bs s c of
             Inl e \<Rightarrow> AddDontHave c
           | Inr have_it \<Rightarrow> if \<not> have_it then AddDontHave c else AddHave c)
      | TopicDontHave c \<Rightarrow> AddDontHave c
      | TopicBlock c \<Rightarrow>
          (case bs_get bs s c of Inl e \<Rightarrow> AddDontHave c | Inr blk \<Rightarrow> AddBlock blk))"

definition int32 :: "int \<Rightarrow> int" where
  "int32 n = sint (word_of_int n :: 32 word)"

text \<open>
  One iteration of \<open>runWorker\<close> on what \<open>PopTasks(targetMessageSize)\<close> returned: without tasks the worker
  waits, else it sends one message to the peer and reports the tasks done, whether or not the
  send succeeded. The store is the one at each task, \<open>st i\<close>.
\<close>

definition target_message_size :: nat where "target_message_size = 2 ^ 10"

datatype worker_action =
    WaitForWork
  | SendAndFinish peer_id bitswap_message "task list"

definition run_worker ::
  "'s blockstore \<Rightarrow> (nat \<Rightarrow> 's) \<Rightarrow> peer_id \<times> task list \<times> int \<Rightarrow> worker_action" where
  "run_worker bs st = (\<lambda>(p, tasks, pending).
     if tasks = [] then WaitForWork
     else SendAndFinish p
       \<lparr>msg_ops = map (\<lambda>(i, t). answer_task bs (st i) (tk_topic t)) (enumerate 0 tasks),
        msg_pending = int32 pending\<rparr> tasks)"

text \<open>Waiting: a token from the channel, its closing, or a quarter of a second.\<close>

datatype wake = Token | Closed | Timeout

definition worker_wait :: "wake \<Rightarrow> pworld \<Rightarrow> bool \<times> pworld" where
  "worker_wait wk w =
     (case wk of
        Token \<Rightarrow> (True, w\<lparr>work_ready := work_ready w - 1\<rparr>)
      | Closed \<Rightarrow> (False, w)
      | Timeout \<Rightarrow> (True, w))"

section \<open>What the operations touch\<close>

lemma queue_sel [simp]:
  "pushed (record_stat st w) = pushed w" "pushed (signal_work pr w) = pushed w" "pushed (cancel_ctx x w) = pushed w"
  "spawned (record_stat st w) = spawned w" "spawned (signal_work pr w) = spawned w"
  "spawned (cancel_ctx x w) = spawned w"
  "spawned (queue_block p en n w) = spawned w" "spawned (queue_have pr p en w) = spawned w"
  "spawned (queue_dont_have pr p en r w) = spawned w"
  "work_ready (record_stat st w) = work_ready w" "work_ready (cancel_ctx x w) = work_ready w"
  "work_ready (queue_block p en n w) = work_ready w" "work_ready (queue_have pr p en w) = work_ready w"
  "work_ready (queue_dont_have pr p en r w) = work_ready w"
  "cancelled (record_stat st w) = cancelled w" "cancelled (signal_work pr w) = cancelled w"
  "cancelled (cancel_ctx x w) = x # cancelled w"
  "cancelled (queue_block p en n w) = cancelled w" "cancelled (queue_have pr p en w) = cancelled w"
  "cancelled (queue_dont_have pr p en r w) = cancelled w"
  by (simp_all add: record_stat_def signal_work_def cancel_ctx_def queue_block_def queue_have_def
      queue_dont_have_def push_task_def)

definition block_task :: "int \<Rightarrow> entry \<Rightarrow> task" where
  "block_task n en = \<lparr>tk_topic = TopicBlock (en_cid en), tk_priority = en_priority en, tk_work = n\<rparr>"

definition presence_task :: "provider \<Rightarrow> (cid \<Rightarrow> topic) \<Rightarrow> entry \<Rightarrow> task" where
  "presence_task pr tp en =
     \<lparr>tk_topic = tp (en_cid en), tk_priority = en_priority en, tk_work = presence_size pr (en_cid en)\<rparr>"

lemma queue_pushed [simp]:
  "pushed (queue_block p en n w) = pushed w @ [(p, block_task n en)]"
  "pushed (queue_have pr p en w) = pushed w @ [(p, presence_task pr TopicHave en)]"
  "pushed (queue_dont_have pr p en r w) = pushed w @ [(p, presence_task pr TopicDontHave en)]"
  by (simp_all add: queue_block_def queue_have_def queue_dont_have_def push_task_def block_task_def
      presence_task_def record_stat_def)

lemma provider_env_sel [simp]:
  "ctx_err (provider_env pr) w x = (if ctx_done (cancelled w) x then Some CtxDone else None)"
  "invoke (provider_env pr) = block_callback pr"
  by (simp_all add: provider_env_def)

text \<open>The one task that a callback pushes.\<close>

definition callback_task :: "provider \<Rightarrow> await_cb \<Rightarrow> ready_block \<Rightarrow> go_error option \<Rightarrow> task" where
  "callback_task pr cb blk err =
     (if err \<noteq> None then presence_task pr TopicDontHave (cb_entry cb)
      else if cb_send_block cb then block_task (rb_size blk) (cb_entry cb)
      else presence_task pr TopicHave (cb_entry cb))"

lemma block_callback_sel [simp]:
  "pushed (block_callback pr cb blk err w) = pushed w @ [(cb_sender cb, callback_task pr cb blk err)]"
  "spawned (block_callback pr cb blk err w) = spawned w"
  "cancelled (block_callback pr cb blk err w) = cb_block_ctx cb # cancelled w"
  by (auto simp: block_callback_def callback_task_def Let_def split: option.splits)

section \<open>What a message is promised\<close>

text \<open>
  The abstract contract of \<open>ReceiveMessage\<close>, over the contents of the store: which tasks an entry is
  answered with at once, and whether it waits for a retrieval.
\<close>

definition promised_answer :: "provider \<Rightarrow> store_contents \<Rightarrow> entry \<Rightarrow> task list" where
  "promised_answer pr ct en =
     (if en_cancel en then []
      else if blacklisted pr (en_cid en) then [presence_task pr TopicDontHave en]
      else case (en_type en, ct (en_cid en)) of
        (WantHave, Some d) \<Rightarrow> [presence_task pr TopicHave en]
      | (WantBlock, Some d) \<Rightarrow> [block_task (int (length d)) en]
      | _ \<Rightarrow> if has_retriever pr then [] else [presence_task pr TopicDontHave en])"

definition promised_wait :: "provider \<Rightarrow> store_contents \<Rightarrow> entry \<Rightarrow> bool" where
  "promised_wait pr ct en \<longleftrightarrow> \<not> en_cancel en \<and> \<not> blacklisted pr (en_cid en) \<and> has_retriever pr \<and>
     (en_type en = WantHave \<or> en_type en = WantBlock) \<and> ct (en_cid en) = None"

definition waiter_of :: "ctx \<Rightarrow> peer_id \<Rightarrow> go_time \<Rightarrow> nat \<times> entry \<Rightarrow> await_cb wait_entry" where
  "waiter_of ctx sender now = (\<lambda>(k, en).
     \<lparr>we_ctx = Derived ctx k,
      we_cb = \<lparr>cb_entry = en, cb_sender = sender, cb_send_block = (en_type en = WantBlock),
        cb_block_ctx = Derived ctx k\<rparr>,
      we_at = now\<rparr>)"

definition retrieval_of :: "ctx \<Rightarrow> peer_id \<Rightarrow> nat \<times> entry \<Rightarrow> retrieval" where
  "retrieval_of ctx sender = (\<lambda>(k, en).
     \<lparr>rt_entry = en, rt_sender = sender, rt_ctx = ctx, rt_block_ctx = Derived ctx k\<rparr>)"

context reliable_block_store
begin

lemma has_contents: "bs_has bs s c = Inr (contents s c \<noteq> None)"
  using has_total [of s c] has_found by fastforce

lemma receive_entry_answered:
  assumes "receive_entry bs pr now None ctx sender k en (m, w) = (m', w')"
    and "\<not> promised_wait pr (contents (inner m)) en"
  shows "m' = m \<and> pushed w' = pushed w @ map (Pair sender) (promised_answer pr (contents (inner m)) en) \<and>
     spawned w' = spawned w \<and> work_ready w' = work_ready w \<and> cancelled w' = cancelled w"
proof (cases "contents (inner m) (en_cid en)")
  case None
  with get_size_not_found obtain e where "bs_get_size bs (inner m) (en_cid en) = Inl e" "is_not_found e"
    by blast
  with assms None show ?thesis
    by (cases "en_type en")
      (auto simp: receive_entry_def entry_lookup_def try_retrieval_def has_contents promised_answer_def promised_wait_def Let_def
        split: if_splits)
next
  case (Some d)
  then have "bs_get_size bs (inner m) (en_cid en) = Inr (int (length d))" by (rule get_size_total)
  with assms Some show ?thesis
    by (cases "en_type en")
      (auto simp: receive_entry_def entry_lookup_def try_retrieval_def has_contents promised_answer_def Let_def split: if_splits)
qed

lemma receive_entry_waits:
  assumes "receive_entry bs pr now None ctx sender k en (m, w) = (m', w')"
    and "promised_wait pr (contents (inner m)) en"
  shows "m' = register (en_cid en) (waiter_of ctx sender now (k, en)) m \<and> pushed w' = pushed w \<and>
     promised_answer pr (contents (inner m)) en = [] \<and>
     spawned w' = spawned w @ [retrieval_of ctx sender (k, en)] \<and> work_ready w' = work_ready w \<and>
     cancelled w' = cancelled w"
proof -
  from assms(2) get_size_not_found obtain e where "bs_get_size bs (inner m) (en_cid en) = Inl e" "is_not_found e"
    by (auto simp: promised_wait_def)
  with assms show ?thesis
    by (auto simp: receive_entry_def entry_lookup_def try_retrieval_def retrieve_for_peer_def await_block_def has_contents
        promised_answer_def promised_wait_def waiter_of_def retrieval_of_def Let_def)
qed

end

definition waits_of :: "provider \<Rightarrow> store_contents \<Rightarrow> nat \<Rightarrow> entry list \<Rightarrow> (nat \<times> entry) list" where
  "waits_of pr ct k wl = filter (\<lambda>(i, en). promised_wait pr ct en) (enumerate k wl)"

lemma waits_of_simps [simp]:
  "waits_of pr ct k [] = []"
  "waits_of pr ct k (en # wl) = (if promised_wait pr ct en then [(k, en)] else []) @ waits_of pr ct (Suc k) wl"
  by (simp_all add: waits_of_def)

definition waiters_for :: "cid \<Rightarrow> (nat \<times> entry) list \<Rightarrow> (nat \<times> entry) list" where
  "waiters_for c ws = filter (\<lambda>(i, en). en_cid en = c) ws"

lemma waiters_for_simps [simp]:
  "waiters_for c [] = []"
  "waiters_for c ((k, en) # ws) = (if en_cid en = c then (k, en) # waiters_for c ws else waiters_for c ws)"
  by (simp_all add: waiters_for_def)

context reliable_block_store
begin

lemma receive_entries_result:
  assumes "receive_entries bs pr now (\<lambda>i. None) ctx sender k wl (m, w) = (m', w')"
  shows "inner m' = inner m \<and> ready_blocks m' = ready_blocks m \<and> await_timeout m' = await_timeout m \<and>
     pushed w' = pushed w @ map (Pair sender) (concat (map (promised_answer pr (contents (inner m))) wl)) \<and>
     (\<forall>c. slice_at (wait_list m') c = slice_at (wait_list m) c @
        map (waiter_of ctx sender now) (waiters_for c (waits_of pr (contents (inner m)) k wl))) \<and>
     spawned w' = spawned w @ map (retrieval_of ctx sender) (waits_of pr (contents (inner m)) k wl) \<and>
     work_ready w' = work_ready w \<and> cancelled w' = cancelled w"
  using assms
proof (induction wl arbitrary: k m w)
  case Nil
  then show ?case by simp
next
  case (Cons en wl)
  obtain m1 w1 where one: "receive_entry bs pr now None ctx sender k en (m, w) = (m1, w1)"
    by (cases "receive_entry bs pr now None ctx sender k en (m, w)")
  with Cons.prems have rest: "receive_entries bs pr now (\<lambda>i. None) ctx sender (Suc k) wl (m1, w1) = (m', w')"
    by simp
  note IH = Cons.IH [OF rest]
  show ?case
  proof (cases "promised_wait pr (contents (inner m)) en")
    case True
    note entry = receive_entry_waits [OF one True]
    then have "inner m1 = inner m" "ready_blocks m1 = ready_blocks m" "await_timeout m1 = await_timeout m"
      by simp_all
    with IH entry True show ?thesis by (simp add: eq_commute [of "en_cid en"])
  next
    case False
    with IH receive_entry_answered [OF one False] show ?thesis by simp
  qed
qed

end

section \<open>Properties\<close>

text \<open>C2. \<open>ReceiveMessage\<close> does what a message is promised. Over a store that answers without input
  or output errors, it answers each want of the wantlist, in order, from the contents of the store: nothing
  for a cancel, DONT_HAVE for a blacklisted identifier, HAVE or BLOCK (with the block's size) for
  a stored block, DONT_HAVE when there is no retriever; for each other HAVE or BLOCK want it
  registers one waiter, behind the waiters of that identifier, and starts one retrieval, and
  answers nothing yet. It touches neither the store nor the channel, and signals the workers.\<close>

theorem receive_message_refines:
  assumes "reliable_block_store bs contents"
    and "receive_message bs pr now (\<lambda>i. None) ctx sender wl (m, w) = (m', w')"
  shows "inner m' = inner m \<and> ready_blocks m' = ready_blocks m \<and>
     pushed w' = pushed w @ map (Pair sender) (concat (map (promised_answer pr (contents (inner m))) wl)) \<and>
     (\<forall>c. slice_at (wait_list m') c = slice_at (wait_list m) c @
        map (waiter_of ctx sender now) (waiters_for c (waits_of pr (contents (inner m)) 0 wl))) \<and>
     spawned w' = spawned w @ map (retrieval_of ctx sender) (waits_of pr (contents (inner m)) 0 wl) \<and>
     work_ready w' = min (max (work_ready w) (max_workers pr)) (Suc (work_ready w))"
proof -
  obtain m1 w1 where "receive_entries bs pr now (\<lambda>i. None) ctx sender 0 wl (m, w) = (m1, w1)"
    by (cases "receive_entries bs pr now (\<lambda>i. None) ctx sender 0 wl (m, w)")
  with reliable_block_store.receive_entries_result [OF assms(1) this] assms(2) show ?thesis
    by (auto simp: receive_message_def signal_work_def)
qed

definition demo_provider :: provider where
  "demo_provider = \<lparr>cid_blacklist = [Cid ''b'' \<mapsto> True], max_workers = 1, routing_type = RoutingTableTypeDHT,
     has_retriever = True, presence_size = (\<lambda>c. 4)\<rparr>"

definition demo_entry :: "string \<Rightarrow> want_type \<Rightarrow> entry" where
  "demo_entry c t = \<lparr>en_cid = Cid c, en_priority = 5, en_type = t, en_cancel = False\<rparr>"

definition demo_wants :: "entry list" where
  "demo_wants = [demo_entry ''a'' WantBlock, demo_entry ''b'' WantHave, demo_entry ''c'' WantHave]"

definition demo_state :: "mem_store pstate" where
  "demo_state = (\<lparr>inner = [(Cid ''a'', ''xyz'')], ready_blocks = [], wait_list = Map.empty, await_timeout = second\<rparr>,
     init_world)"

lemmas demo_provider_defs = demo_provider_def demo_entry_def demo_wants_def demo_state_def init_world_def

lemma receive_message_refines_witness:
  "\<exists>m' w'. receive_message mem_blockstore demo_provider 7 (\<lambda>i. None) (Root 0) ''peer'' demo_wants demo_state = (m', w') \<and>
     pushed w' = [(''peer'', block_task 3 (demo_wants ! 0)),
       (''peer'', presence_task demo_provider TopicDontHave (demo_wants ! 1))] \<and>
     slice_at (wait_list m') (Cid ''c'') = [waiter_of (Root 0) ''peer'' 7 (2, demo_wants ! 2)] \<and>
     spawned w' = [retrieval_of (Root 0) ''peer'' (2, demo_wants ! 2)] \<and> work_ready w' = 1"
proof -
  obtain m' w' where run: "receive_message mem_blockstore demo_provider 7 (\<lambda>i. None) (Root 0) ''peer'' demo_wants
      (fst demo_state, snd demo_state) = (m', w')"
    by (cases "receive_message mem_blockstore demo_provider 7 (\<lambda>i. None) (Root 0) ''peer'' demo_wants demo_state") simp
  have ct: "map_of (inner (fst demo_state)) = [Cid ''a'' \<mapsto> ''xyz'']"
    and w: "pushed (snd demo_state) = []" "spawned (snd demo_state) = []" "work_ready (snd demo_state) = 0"
    and m: "wait_list (fst demo_state) = Map.empty" and pr: "max_workers demo_provider = 1"
    by (simp_all add: demo_state_def init_world_def demo_provider_def)
  have answers: "concat (map (promised_answer demo_provider [Cid ''a'' \<mapsto> ''xyz'']) demo_wants) =
      [block_task 3 (demo_wants ! 0), presence_task demo_provider TopicDontHave (demo_wants ! 1)]"
    and waits: "waits_of demo_provider [Cid ''a'' \<mapsto> ''xyz''] 0 demo_wants = [(2, demo_wants ! 2)]"
    by (simp_all add: promised_answer_def promised_wait_def blacklisted_def demo_provider_defs)
  have c: "en_cid (demo_wants ! 2) = Cid ''c''" by (simp add: demo_wants_def demo_entry_def)
  show ?thesis
    using receive_message_refines [OF mem.reliable_block_store_axioms run, unfolded ct answers waits w m pr] run c
    by (intro exI [of _ m'] exI [of _ w']) simp
qed

definition op_cid :: "msg_op \<Rightarrow> cid" where
  "op_cid op = (case op of AddHave c \<Rightarrow> c | AddDontHave c \<Rightarrow> c | AddBlock b \<Rightarrow> blk_cid b)"

definition truthful :: "store_contents \<Rightarrow> topic \<Rightarrow> msg_op \<Rightarrow> bool" where
  "truthful ct t op \<longleftrightarrow>
     (case op of
        AddHave c \<Rightarrow> t = TopicHave c \<and> ct c \<noteq> None
      | AddBlock b \<Rightarrow> t = TopicBlock (blk_cid b) \<and> ct (blk_cid b) = Some (raw_data b)
      | AddDontHave c \<Rightarrow> t = TopicDontHave c \<or> t = TopicHave c \<or> t = TopicBlock c)"

lemma answer_task_truthful:
  assumes "block_reader bs contents"
  shows "op_cid (answer_task bs s t) = topic_cid t \<and> truthful (contents s) t (answer_task bs s t)"
  using block_reader.has_found [OF assms, of s] block_reader.get_found [OF assms, of s]
  by (cases t) (auto simp: answer_task_def op_cid_def truthful_def split: sum.splits)

text \<open>C21. A worker answers every task it pops exactly once, and truthfully. With at least one task it
  sends one message to the peer and reports all the tasks done; the message has one operation per
  task, in the order of the tasks, about the identifier of the task; HAVE is said only of a block
  that the store holds at that moment, BLOCK carries the bytes stored under the identifier, and a
  DONT_HAVE task is never turned into anything else.\<close>

theorem worker_answers_truthfully:
  assumes "block_store bs contents" and "tasks \<noteq> []"
  shows "\<exists>msg. run_worker bs st (p, tasks, pending) = SendAndFinish p msg tasks \<and>
     length (msg_ops msg) = length tasks \<and>
     (\<forall>i < length tasks. op_cid (msg_ops msg ! i) = topic_cid (tk_topic (tasks ! i)) \<and>
        truthful (contents (st i)) (tk_topic (tasks ! i)) (msg_ops msg ! i))"
proof -
  note reader = block_store.axioms(1) [OF assms(1)]
  show ?thesis
    using assms(2) answer_task_truthful [OF reader]
    by (simp add: run_worker_def nth_enumerate_eq)
qed

lemma worker_answers_truthfully_witness:
  "\<exists>msg. run_worker mem_blockstore (\<lambda>i. [(Cid ''a'', ''xyz'')])
       (''peer'', [block_task 3 (demo_wants ! 0), presence_task demo_provider TopicHave (demo_wants ! 1)], 0) =
       SendAndFinish ''peer'' msg
         [block_task 3 (demo_wants ! 0), presence_task demo_provider TopicHave (demo_wants ! 1)] \<and>
     length (msg_ops msg) = 2 \<and> op_cid (msg_ops msg ! 1) = Cid ''b''"
  using worker_answers_truthfully [OF mem.block_store_axioms, where p = "''peer''" and pending = 0
      and tasks = "[block_task 3 (demo_wants ! 0), presence_task demo_provider TopicHave (demo_wants ! 1)]"
      and st = "\<lambda>i. [(Cid ''a'', ''xyz'')]"]
  by (auto simp: presence_task_def demo_wants_def demo_entry_def)

end
