(* ===== verification/Go_Paths.thy ===== *)
theory Go_Paths
  imports Go_Strings
begin

text \<open>
  Slash-separated paths as the packages \<open>path\<close> and \<open>path/filepath\<close> handle them: \<open>Clean\<close> reduces a
  path to its shortest form component by component, \<open>Join\<close> puts non-empty elements together with
  slashes and cleans the result.
\<close>

section \<open>Components\<close>

definition slash :: char where "slash = CHR 0x2F"

definition dot :: string where "dot = ''.''"
definition dotdot :: string where "dotdot = ''..''"

fun split_path :: "string \<Rightarrow> string list" where
  "split_path [] = [[]]"
| "split_path (c # cs) =
     (if c = slash then [] # split_path cs
      else case split_path cs of [] \<Rightarrow> [[c]] | x # xs \<Rightarrow> (c # x) # xs)"

fun join_slash :: "string list \<Rightarrow> string" where
  "join_slash [] = []"
| "join_slash [x] = x"
| "join_slash (x # xs) = x @ slash # join_slash xs"

definition clean_component :: "bool \<Rightarrow> string list \<Rightarrow> string \<Rightarrow> string list" where
  "clean_component rooted acc c =
     (if c = [] \<or> c = dot then acc
      else if c = dotdot then
        (if acc \<noteq> [] \<and> last acc \<noteq> dotdot then butlast acc else if rooted then acc else acc @ [c])
      else acc @ [c])"

definition rooted :: "string \<Rightarrow> bool" where
  "rooted p \<longleftrightarrow> take 1 p = [slash]"

definition clean_components :: "string \<Rightarrow> string list" where
  "clean_components p = foldl (clean_component (rooted p)) [] (split_path p)"

definition path_clean :: "string \<Rightarrow> string" where
  "path_clean p =
     (let out = (if rooted p then [slash] else []) @ join_slash (clean_components p)
      in if out = [] then dot else out)"

definition path_join :: "string list \<Rightarrow> string" where
  "path_join elems =
     (let es = filter (\<lambda>e. e \<noteq> []) elems in if es = [] then [] else path_clean (join_slash es))"

section \<open>Joining a simple name\<close>

text \<open>A simple name is a component that cleaning keeps.\<close>

definition simple_name :: "string \<Rightarrow> bool" where
  "simple_name c \<longleftrightarrow> c \<noteq> [] \<and> c \<noteq> dot \<and> c \<noteq> dotdot \<and> slash \<notin> set c"

lemma split_path_nonempty [simp]: "split_path p \<noteq> []"
  by (cases p) (auto split: list.splits)

lemma split_path_simple: "slash \<notin> set c \<Longrightarrow> split_path c = [c]"
  by (induction c) auto

lemma split_path_append: "split_path (p @ slash # c) = split_path p @ split_path c"
proof (induction p)
  case (Cons x p)
  then show ?case by (cases "split_path p") auto
qed simp

lemma join_slash_snoc: "join_slash (xs @ [x]) = (if xs = [] then x else join_slash xs @ slash # x)"
  by (induction xs rule: join_slash.induct) auto

lemma foldl_clean_nonempty: "[] \<notin> set acc \<Longrightarrow> [] \<notin> set (foldl (clean_component r) acc cs)"
proof (induction cs arbitrary: acc)
  case (Cons c cs)
  have "[] \<notin> set (butlast acc)" using Cons.prems by (metis in_set_butlastD)
  with Cons.prems have "[] \<notin> set (clean_component r acc c)"
    by (simp add: clean_component_def dotdot_def eq_commute [of "[]"])
  with Cons.IH show ?case by simp
qed simp

lemma join_slash_empty: "[] \<notin> set xs \<Longrightarrow> join_slash xs = [] \<longleftrightarrow> xs = []"
  by (cases xs rule: join_slash.cases) simp_all

lemma join_clean_empty [simp]: "join_slash (clean_components p) = [] \<longleftrightarrow> clean_components p = []"
  unfolding clean_components_def by (intro join_slash_empty foldl_clean_nonempty) simp

text \<open>What \<open>Join\<close> puts before a simple name depends on the directory alone.\<close>

definition dir_prefix :: "string \<Rightarrow> string" where
  "dir_prefix p =
     (if clean_components p = [] then (if rooted p then [slash] else [])
      else path_clean p @ [slash])"

lemma path_join_simple:
  assumes "p \<noteq> []" and "simple_name c"
  shows "path_join [p, c] = dir_prefix p @ c"
proof -
  have root: "rooted (p @ slash # c) = rooted p" using assms(1) by (cases p) (auto simp: rooted_def)
  have comps: "clean_components (p @ slash # c) = clean_components p @ [c]"
    using assms(2)
    by (simp add: clean_components_def root split_path_append split_path_simple clean_component_def simple_name_def)
  have "path_join [p, c] = path_clean (p @ slash # c)"
    using assms by (simp add: path_join_def simple_name_def)
  also have "\<dots> = dir_prefix p @ c"
    using assms(2)
    by (auto simp: path_clean_def dir_prefix_def root comps join_slash_snoc simple_name_def Let_def)
  finally show ?thesis .
qed

lemma path_join_simple_inject:
  "p \<noteq> [] \<Longrightarrow> simple_name c \<Longrightarrow> simple_name d \<Longrightarrow> path_join [p, c] = path_join [p, d] \<longleftrightarrow> c = d"
  by (simp add: path_join_simple)

section \<open>Cleaning twice\<close>

lemma length_foldl_clean: "length (foldl (clean_component r) acc cs) \<le> length acc + length cs"
proof (induction cs arbitrary: acc)
  case (Cons c cs)
  have "length (clean_component r acc c) \<le> Suc (length acc)" by (auto simp: clean_component_def)
  with Cons.IH [of "clean_component r acc c"] show ?case by simp
qed simp

definition canonical :: "bool \<Rightarrow> string list \<Rightarrow> bool" where
  "canonical r xs \<longleftrightarrow> foldl (clean_component r) [] xs = xs"

lemma canonical_butlast:
  assumes "canonical r xs"
  shows "canonical r (butlast xs)"
proof (cases xs rule: rev_cases)
  case (snoc ys y)
  let ?zs = "foldl (clean_component r) [] ys"
  have step: "clean_component r ?zs y = ys @ [y]" using assms snoc by (simp add: canonical_def)
  have len: "length ?zs \<le> length ys" using length_foldl_clean [of r "[]" ys] by simp
  have "clean_component r ?zs y = ?zs \<or> clean_component r ?zs y = butlast ?zs \<or> clean_component r ?zs y = ?zs @ [y]"
    by (simp add: clean_component_def)
  then have "?zs @ [y] = ys @ [y]"
  proof (elim disjE)
    assume "clean_component r ?zs y = ?zs"
    with step have "length ?zs = Suc (length ys)" by simp
    with len show ?thesis by simp
  next
    assume "clean_component r ?zs y = butlast ?zs"
    with step have "length (butlast ?zs) = Suc (length ys)" by simp
    with len show ?thesis by simp
  qed (simp add: step)
  with snoc show ?thesis by (simp add: canonical_def)
qed (simp add: canonical_def)

lemma canonical_step: "canonical r acc \<Longrightarrow> canonical r (clean_component r acc c)"
proof -
  assume acc: "canonical r acc"
  have "clean_component r acc c = acc \<or> clean_component r acc c = butlast acc \<or> clean_component r acc c = acc @ [c]"
    by (simp add: clean_component_def)
  then show "canonical r (clean_component r acc c)"
  proof (elim disjE)
    assume snoc: "clean_component r acc c = acc @ [c]"
    with acc show ?thesis by (simp add: canonical_def)
  qed (use acc canonical_butlast in simp_all)
qed

lemma canonical_foldl: "canonical r acc \<Longrightarrow> canonical r (foldl (clean_component r) acc cs)"
  by (induction cs arbitrary: acc) (simp_all add: canonical_step)

lemma split_path_no_slash: "c \<in> set (split_path p) \<Longrightarrow> slash \<notin> set c"
proof (induction p arbitrary: c)
  case (Cons x p)
  then show ?case by (cases "split_path p") (auto split: if_splits)
qed simp

lemma foldl_clean_no_slash:
  assumes "\<forall>c \<in> set cs. slash \<notin> set c" and "\<forall>c \<in> set acc. slash \<notin> set c"
  shows "\<forall>c \<in> set (foldl (clean_component r) acc cs). slash \<notin> set c"
  using assms
proof (induction cs arbitrary: acc)
  case (Cons c cs)
  have "\<forall>x \<in> set (clean_component r acc c). slash \<notin> set x"
    using Cons.prems by (auto simp: clean_component_def dest: in_set_butlastD split: if_splits)
  with Cons show ?case by simp
qed simp

lemma split_join_slash:
  "xs \<noteq> [] \<Longrightarrow> \<forall>c \<in> set xs. slash \<notin> set c \<Longrightarrow> split_path (join_slash xs) = xs"
  by (induction xs rule: join_slash.induct) (simp_all add: split_path_simple split_path_append)

lemma clean_components_props:
  "canonical (rooted p) (clean_components p)" "\<forall>c \<in> set (clean_components p). slash \<notin> set c"
proof -
  show "canonical (rooted p) (clean_components p)"
    unfolding clean_components_def by (rule canonical_foldl) (simp add: canonical_def)
  show "\<forall>c \<in> set (clean_components p). slash \<notin> set c"
    unfolding clean_components_def by (rule foldl_clean_no_slash) (simp_all add: split_path_no_slash)
qed

lemma rooted_join:
  assumes "\<forall>c \<in> set xs. slash \<notin> set c" and "[] \<notin> set xs"
  shows "\<not> rooted (join_slash xs)"
proof (cases xs)
  case (Cons x ys)
  with assms(2) have ne: "x \<noteq> []" by auto
  then have "take 1 (join_slash (x # ys)) = [hd x]" by (cases ys; cases x) auto
  moreover have "hd x \<noteq> slash" using assms(1) Cons hd_in_set [OF ne] by auto
  ultimately show ?thesis using Cons by (simp add: rooted_def)
qed (simp add: rooted_def)

text \<open>A path and its cleaned form name the same place: both are rooted or not, and they have the same
  components.\<close>

lemma clean_path_clean:
  "rooted (path_clean p) = rooted p \<and> clean_components (path_clean p) = clean_components p"
proof -
  let ?cs = "clean_components p"
  have ne: "[] \<notin> set ?cs" unfolding clean_components_def by (rule foldl_clean_nonempty) simp
  note props = clean_components_props [of p]
  show ?thesis
  proof (cases "rooted p")
    case True
    then have clean: "path_clean p = [slash] @ join_slash ?cs" by (simp add: path_clean_def)
    have "rooted (path_clean p)" by (simp add: clean rooted_def)
    moreover have "foldl (clean_component True) [] (split_path (path_clean p)) = ?cs"
    proof (cases "?cs = []")
      case True
      then show ?thesis by (simp add: clean clean_component_def)
    next
      case False
      with props True show ?thesis
        by (simp add: clean split_join_slash canonical_def clean_component_def)
    qed
    ultimately show ?thesis using True by (simp add: clean_components_def)
  next
    case False
    show ?thesis
    proof (cases "?cs = []")
      case True
      with False have "path_clean p = dot" by (simp add: path_clean_def)
      moreover have "clean_components dot = []" "\<not> rooted dot"
        by (simp_all add: clean_components_def clean_component_def rooted_def dot_def slash_def)
      ultimately show ?thesis using True False by simp
    next
      case cs: False
      with False have clean: "path_clean p = join_slash ?cs" by (simp add: path_clean_def)
      have "\<not> rooted (path_clean p)" unfolding clean using props(2) ne by (rule rooted_join)
      moreover have "foldl (clean_component False) [] (split_path (path_clean p)) = ?cs"
        using props False cs by (simp add: clean split_join_slash canonical_def)
      ultimately show ?thesis using False by (simp add: clean_components_def)
    qed
  qed
qed

text \<open>The place a path names.\<close>

definition resolve :: "string \<Rightarrow> bool \<times> string list" where
  "resolve p = (rooted p, clean_components p)"

lemma resolve_join_simple:
  assumes "p \<noteq> []" and "simple_name c"
  shows "resolve (path_join [p, c]) = (rooted p, clean_components p @ [c])"
proof -
  have root: "rooted (p @ slash # c) = rooted p" using assms(1) by (cases p) (auto simp: rooted_def)
  have "path_join [p, c] = path_clean (p @ slash # c)"
    using assms by (simp add: path_join_def simple_name_def)
  moreover have "clean_components (p @ slash # c) = clean_components p @ [c]"
    using assms(2)
    by (simp add: clean_components_def root split_path_append split_path_simple clean_component_def simple_name_def)
  ultimately show ?thesis by (simp add: resolve_def clean_path_clean root)
qed

lemma resolve_join_nothing: "p \<noteq> [] \<Longrightarrow> resolve (path_join [p, []]) = resolve p"
  by (simp add: path_join_def resolve_def clean_path_clean)

end
