(* ===== verification/Candidate_Finder.thy ===== *)
theory Candidate_Finder
  imports Go_Paths
begin

text \<open>
  \<open>MinerPeerGetter\<close> (src/minerpeergetter/minerpeergetter.go), which asks the Lotus gateway for a
  miner's libp2p address, and \<open>EstuaryEndpoint\<close> (src/endpoint/estuary.go), which asks an HTTP
  endpoint for retrieval candidates. The gateway, the multiaddr codec, URL parsing, the HTTP
  request and the JSON decoder are parameters.
\<close>

section \<open>Miner peers\<close>

type_synonym address = string

definition undef_address :: address where "undef_address = []"

record miner_info =
  mi_peer_id :: "string option"
  mi_multiaddrs :: "bytes list"

record 'ma addr_info =
  ai_id :: string
  ai_addrs :: "'ma list"

record 'ma gateway =
  state_miner_info :: "address \<Rightarrow> go_error + miner_info"
  new_multiaddr :: "bytes \<Rightarrow> go_error + 'ma"
  show_address :: "address \<Rightarrow> string"

fun parse_multiaddrs ::
  "(bytes \<Rightarrow> go_error + 'ma) \<Rightarrow> string \<Rightarrow> bytes list \<Rightarrow> 'ma list \<Rightarrow> go_error + 'ma list" where
  "parse_multiaddrs parse miner [] maddrs = Inr maddrs"
| "parse_multiaddrs parse miner (mma # mmas) maddrs =
     (case parse mma of
        Inl e \<Rightarrow> Inl (Wrapped (''miner '' @ miner @ '' had invalid multiaddrs in their info'') e)
      | Inr ma \<Rightarrow> parse_multiaddrs parse miner mmas (maddrs @ [ma]))"

definition miner_peer :: "'ma gateway \<Rightarrow> address \<Rightarrow> go_error + 'ma addr_info" where
  "miner_peer gw miner =
     (case state_miner_info gw miner of
        Inl e \<Rightarrow> Inl e
      | Inr minfo \<Rightarrow>
     (case mi_peer_id minfo of
        None \<Rightarrow> Inl (Msg (''miner '' @ show_address gw miner @ '' has no peer ID set''))
      | Some pid \<Rightarrow>
     (case parse_multiaddrs (new_multiaddr gw) (show_address gw miner) (mi_multiaddrs minfo) [] of
        Inl e \<Rightarrow> Inl e
      | Inr maddrs \<Rightarrow> Inr \<lparr>ai_id = pid, ai_addrs = maddrs\<rparr>)))"

section \<open>Estuary candidates\<close>

record estuary_candidate =
  ec_miner :: address
  ec_root :: cid
  ec_deal :: nat

record 'ma candidate =
  rc_peer :: "'ma addr_info"
  rc_root :: cid

record 'u parsed_url =
  url_path :: string
  url_rest :: 'u

record ('u, 'b) http_env =
  parse_url :: "string \<Rightarrow> go_error + 'u parsed_url"
  show_url :: "'u parsed_url \<Rightarrow> string"
  http_get :: "string \<Rightarrow> go_error + int \<times> 'b"
  decode_candidates :: "'b \<Rightarrow> go_error + estuary_candidate list"
  show_cid :: "cid \<Rightarrow> string"
  show_error :: "go_error \<Rightarrow> string"

text \<open>\<open>fmt.Errorf\<close> with \<open>%w\<close> on a sentinel and \<open>%v\<close> on the cause keeps only the sentinel.\<close>

fun convert_candidates ::
  "'ma gateway \<Rightarrow> (go_error \<Rightarrow> string) \<Rightarrow> estuary_candidate list \<Rightarrow> 'ma candidate list \<Rightarrow>
   go_error + 'ma candidate list" where
  "convert_candidates gw show_err [] converted = Inr converted"
| "convert_candidates gw show_err (original # originals) converted =
     (case miner_peer gw (ec_miner original) of
        Inl e \<Rightarrow> Inl (Wrapped (''failed to get miner peer: '' @ show_err e) EndpointRequestFailed)
      | Inr ai \<Rightarrow>
          convert_candidates gw show_err originals (converted @ [\<lparr>rc_peer = ai, rc_root = ec_root original\<rparr>]))"

definition find_candidates ::
  "('u, 'b) http_env \<Rightarrow> 'ma gateway \<Rightarrow> string \<Rightarrow> cid \<Rightarrow> go_error + 'ma candidate list" where
  "find_candidates he gw url c =
     (case parse_url he url of
        Inl e \<Rightarrow> Inl (Wrapped url InvalidEndpointURL)
      | Inr u \<Rightarrow>
     (let endpoint = u\<lparr>url_path := path_join [url_path u, show_cid he c]\<rparr>
      in case http_get he (show_url he endpoint) of
           Inl e \<Rightarrow> Inl (Wrapped (''HTTP request failed: '' @ show_error he e) EndpointRequestFailed)
         | Inr (status, body) \<Rightarrow>
             if status \<noteq> 200
             then Inl (Wrapped (show_url he endpoint @ '' sent status '' @ int_string status) EndpointRequestFailed)
             else
               (case decode_candidates he body of
                  Inl e \<Rightarrow> Inl EndpointBodyInvalid
                | Inr unfiltered \<Rightarrow> convert_candidates gw (show_error he) unfiltered [])))"

text \<open>The endpoint as the object that the retriever is given.\<close>

record 'ma estuary_endpoint =
  ee_url :: string
  ee_mpg :: "'ma gateway"

definition new_estuary_endpoint :: "string \<Rightarrow> 'ma gateway \<Rightarrow> 'ma estuary_endpoint" where
  "new_estuary_endpoint url mpg = \<lparr>ee_url = url, ee_mpg = mpg\<rparr>"

definition endpoint_find ::
  "('u, 'b) http_env \<Rightarrow> 'ma estuary_endpoint \<Rightarrow> cid \<Rightarrow> go_error + 'ma candidate list" where
  "endpoint_find he ee c = find_candidates he (ee_mpg ee) (ee_url ee) c"

section \<open>Properties\<close>

lemma parse_multiaddrs_ok:
  "parse_multiaddrs parse miner mmas acc = Inr maddrs \<Longrightarrow>
     \<exists>mas. maddrs = acc @ mas \<and> map parse mmas = map Inr mas"
proof (induction mmas arbitrary: acc)
  case (Cons mma mmas)
  then obtain ma where ma: "parse mma = Inr ma" "parse_multiaddrs parse miner mmas (acc @ [ma]) = Inr maddrs"
    by (auto split: sum.splits)
  with Cons.IH [OF ma(2)] show ?case by (metis append.assoc append_Cons append_Nil list.simps(9))
qed simp

lemma miner_peer_ok:
  "miner_peer gw miner = Inr ai \<Longrightarrow> \<exists>minfo. state_miner_info gw miner = Inr minfo \<and>
     mi_peer_id minfo = Some (ai_id ai) \<and> map (new_multiaddr gw) (mi_multiaddrs minfo) = map Inr (ai_addrs ai)"
  by (auto simp: miner_peer_def dest!: parse_multiaddrs_ok split: sum.splits option.splits)

lemma convert_candidates_ok:
  "convert_candidates gw show_err originals acc = Inr cands \<Longrightarrow>
     \<exists>new. cands = acc @ new \<and>
       list_all2 (\<lambda>original cand. rc_root cand = ec_root original \<and> miner_peer gw (ec_miner original) = Inr (rc_peer cand))
         originals new"
proof (induction originals arbitrary: acc)
  case (Cons original originals)
  then obtain ai where ai: "miner_peer gw (ec_miner original) = Inr ai"
    "convert_candidates gw show_err originals (acc @ [\<lparr>rc_peer = ai, rc_root = ec_root original\<rparr>]) = Inr cands"
    by (auto split: sum.splits)
  from Cons.IH [OF ai(2)] obtain new where "cands = acc @ \<lparr>rc_peer = ai, rc_root = ec_root original\<rparr> # new"
    "list_all2 (\<lambda>original cand. rc_root cand = ec_root original \<and> miner_peer gw (ec_miner original) = Inr (rc_peer cand))
         originals new" by auto
  with ai(1) show ?case
    by (intro exI [of _ "\<lparr>rc_peer = ai, rc_root = ec_root original\<rparr> # new"]) simp
qed simp

lemma convert_candidates_error:
  "convert_candidates gw show_err originals acc = Inl e \<Longrightarrow> errors_is e EndpointRequestFailed"
  by (induction originals arbitrary: acc) (auto simp: errors_is_def split: sum.splits)

lemma find_candidates_result:
  "case find_candidates he gw url c of
     Inl e \<Rightarrow> errors_is e InvalidEndpointURL \<or> errors_is e EndpointRequestFailed \<or> errors_is e EndpointBodyInvalid
   | Inr cands \<Rightarrow>
       (\<exists>u body originals. parse_url he url = Inr u \<and>
          http_get he (show_url he (u\<lparr>url_path := path_join [url_path u, show_cid he c]\<rparr>)) = Inr (200, body) \<and>
          decode_candidates he body = Inr originals \<and> length cands = length originals \<and>
          (\<forall>i < length cands. \<exists>minfo. rc_root (cands ! i) = ec_root (originals ! i) \<and>
             state_miner_info gw (ec_miner (originals ! i)) = Inr minfo \<and>
             mi_peer_id minfo = Some (ai_id (rc_peer (cands ! i))) \<and>
             map (new_multiaddr gw) (mi_multiaddrs minfo) = map Inr (ai_addrs (rc_peer (cands ! i)))))"
proof (cases "find_candidates he gw url c")
  case (Inl e)
  then show ?thesis
    by (auto simp: find_candidates_def Let_def errors_is_def dest: convert_candidates_error [unfolded errors_is_def]
        split: sum.splits if_splits)
next
  case (Inr cands)
  then obtain u body originals where parts: "parse_url he url = Inr u"
    "http_get he (show_url he (u\<lparr>url_path := path_join [url_path u, show_cid he c]\<rparr>)) = Inr (200, body)"
    "decode_candidates he body = Inr originals" "convert_candidates gw (show_error he) originals [] = Inr cands"
    by (auto simp: find_candidates_def Let_def split: sum.splits if_splits)
  from convert_candidates_ok [OF parts(4)] have
    conv: "list_all2 (\<lambda>original cand. rc_root cand = ec_root original \<and> miner_peer gw (ec_miner original) = Inr (rc_peer cand))
      originals cands" by simp
  then have "length cands = length originals" by (simp add: list_all2_lengthD)
  moreover have "\<exists>minfo. rc_root (cands ! i) = ec_root (originals ! i) \<and>
      state_miner_info gw (ec_miner (originals ! i)) = Inr minfo \<and>
      mi_peer_id minfo = Some (ai_id (rc_peer (cands ! i))) \<and>
      map (new_multiaddr gw) (mi_multiaddrs minfo) = map Inr (ai_addrs (rc_peer (cands ! i)))"
    if "i < length cands" for i
    using conv that miner_peer_ok by (fastforce simp: list_all2_conv_all_nth)
  ultimately show ?thesis using Inr parts(1-3) by auto
qed

text \<open>C37. What the Estuary endpoint returns. An error of \<open>FindCandidates\<close> is always one of the three
  errors the package declares, as \<open>errors.Is\<close> sees it, whatever went wrong underneath. Without an
  error, the endpoint answered status 200 with a body that decodes, and the result has one candidate per
  decoded entry, in order, with the entry's root and the peer identifier and addresses that the
  gateway reports for the entry's miner; one miner without an address fails the whole request.\<close>

theorem find_candidates_correct:
  "case endpoint_find he (new_estuary_endpoint url gw) c of
     Inl e \<Rightarrow> errors_is e InvalidEndpointURL \<or> errors_is e EndpointRequestFailed \<or> errors_is e EndpointBodyInvalid
   | Inr cands \<Rightarrow>
       (\<exists>u body originals. parse_url he url = Inr u \<and>
          http_get he (show_url he (u\<lparr>url_path := path_join [url_path u, show_cid he c]\<rparr>)) = Inr (200, body) \<and>
          decode_candidates he body = Inr originals \<and> length cands = length originals \<and>
          (\<forall>i < length cands. \<exists>minfo. rc_root (cands ! i) = ec_root (originals ! i) \<and>
             state_miner_info gw (ec_miner (originals ! i)) = Inr minfo \<and>
             mi_peer_id minfo = Some (ai_id (rc_peer (cands ! i))) \<and>
             map (new_multiaddr gw) (mi_multiaddrs minfo) = map Inr (ai_addrs (rc_peer (cands ! i)))))"
  using find_candidates_result [where he = he and gw = gw and url = url and c = c] by (simp add: endpoint_find_def new_estuary_endpoint_def)

definition demo_http :: "(unit, nat) http_env" where
  "demo_http = \<lparr>parse_url = (\<lambda>s. Inr \<lparr>url_path = s, url_rest = ()\<rparr>), show_url = (\<lambda>u. url_path u),
     http_get = (\<lambda>s. if s = ''/find/a'' then Inr (200, 7) else Inr (404, 0)),
     decode_candidates = (\<lambda>b. Inr [\<lparr>ec_miner = ''f01'', ec_root = Cid ''r'', ec_deal = b\<rparr>]),
     show_cid = cid_bytes, show_error = (\<lambda>e. [])\<rparr>"

definition demo_gateway :: "bytes gateway" where
  "demo_gateway = \<lparr>state_miner_info = (\<lambda>a. Inr \<lparr>mi_peer_id = Some ''p1'', mi_multiaddrs = [''m'']\<rparr>),
     new_multiaddr = Inr, show_address = (\<lambda>a. a)\<rparr>"

lemma demo_find:
  "endpoint_find demo_http (new_estuary_endpoint ''/find/'' demo_gateway) (Cid ''a'') =
     Inr [\<lparr>rc_peer = \<lparr>ai_id = ''p1'', ai_addrs = [''m'']\<rparr>, rc_root = Cid ''r''\<rparr>]"
  by code_simp

lemma find_candidates_correct_witness:
  "\<exists>minfo. state_miner_info demo_gateway ''f01'' = Inr minfo \<and> mi_peer_id minfo = Some ''p1''"
  using find_candidates_correct [where he = demo_http and gw = demo_gateway and url = "''/find/''" and c = "Cid ''a''",
      unfolded demo_find]
  by (auto simp: demo_http_def split: if_splits)

end
