(* ===== verification/Config.thy ===== *)
theory Config
  imports Bitswap_Provider Candidate_Finder
begin

text \<open>
  The configuration (src/config.go) and the command-line functions that build it (src/main.go):
  endpoint types, byte counts and storage providers as YAML values, the defaults, loading a file,
  the command-line overrides, and the extraction of the bitswap provider's and the retriever's
  settings. The YAML codec of a whole configuration, the text forms of addresses, peer
  identifiers and byte counts, and the file system are parameters.
\<close>

section \<open>Endpoint types\<close>

datatype endpoint_type = EndpointTypeIndexer | EndpointTypeEstuary | EndpointTypeOther int

definition endpoint_type_name :: "endpoint_type \<Rightarrow> string" where
  "endpoint_type_name t =
     (case t of
        EndpointTypeIndexer \<Rightarrow> ''indexer''
      | EndpointTypeEstuary \<Rightarrow> ''estuary''
      | EndpointTypeOther n \<Rightarrow> ''unknown endpoint type '' @ int_string n)"

definition parse_endpoint_type :: "string \<Rightarrow> go_error + endpoint_type" where
  "parse_endpoint_type s =
     (let t = to_lower (trim_space s)
      in if t = endpoint_type_name EndpointTypeIndexer then Inr EndpointTypeIndexer
         else if t = endpoint_type_name EndpointTypeEstuary then Inr EndpointTypeEstuary
         else Inl (Msg (''unknown endpoint type '' @ s)))"

definition unmarshal_endpoint_type ::
  "(go_error \<Rightarrow> string) \<Rightarrow> yaml_node \<Rightarrow> endpoint_type \<Rightarrow> go_error option \<times> endpoint_type" where
  "unmarshal_endpoint_type show_err n old = unmarshal_with parse_endpoint_type show_err n old"

definition marshal_endpoint_type :: "endpoint_type \<Rightarrow> string" where
  "marshal_endpoint_type t = endpoint_type_name t"

section \<open>Byte counts\<close>

type_synonym byte_count = "64 word"

definition unmarshal_byte_count ::
  "(string \<Rightarrow> go_error + byte_count) \<Rightarrow> (go_error \<Rightarrow> string) \<Rightarrow> yaml_node \<Rightarrow> byte_count \<Rightarrow>
   go_error option \<times> byte_count" where
  "unmarshal_byte_count parse_bytes show_err n old = unmarshal_with parse_bytes show_err n old"

definition marshal_byte_count :: "(byte_count \<Rightarrow> string) \<Rightarrow> byte_count \<Rightarrow> string" where
  "marshal_byte_count ibytes b = ibytes b"

section \<open>Storage providers\<close>

record storage_provider =
  maybe_addr :: address
  maybe_peer :: peer_id

definition provider_of_address :: "address \<Rightarrow> storage_provider" where
  "provider_of_address a = \<lparr>maybe_addr = a, maybe_peer = []\<rparr>"

definition provider_of_peer :: "peer_id \<Rightarrow> storage_provider" where
  "provider_of_peer p = \<lparr>maybe_addr = undef_address, maybe_peer = p\<rparr>"

definition get_peer_id :: "'ma gateway \<Rightarrow> storage_provider \<Rightarrow> go_error + peer_id" where
  "get_peer_id gw sp =
     (if maybe_addr sp = undef_address then Inr (maybe_peer sp)
      else case miner_peer gw (maybe_addr sp) of
             Inl e \<Rightarrow> Inl (Wrapped (''could not get peer id from address '' @ show_address gw (maybe_addr sp)) e)
           | Inr ai \<Rightarrow> Inr (ai_id ai))"

record id_codec =
  decode_peer :: "string \<Rightarrow> go_error + peer_id"
  encode_peer :: "peer_id \<Rightarrow> string"
  decode_addr :: "string \<Rightarrow> go_error + address"
  encode_addr :: "address \<Rightarrow> string"

definition unmarshal_storage_provider ::
  "id_codec \<Rightarrow> yaml_node \<Rightarrow> storage_provider \<Rightarrow> go_error option \<times> storage_provider" where
  "unmarshal_storage_provider ic n sp =
     (case yn_decode n of
        Inl e \<Rightarrow> (Some e, sp)
      | Inr s \<Rightarrow>
     (case decode_peer ic s of
        Inr p \<Rightarrow> (None, sp\<lparr>maybe_peer := p\<rparr>)
      | Inl e \<Rightarrow>
     (case decode_addr ic s of
        Inr a \<Rightarrow> (None, sp\<lparr>maybe_addr := a\<rparr>)
      | Inl e' \<Rightarrow>
          (Some (YamlTypeError (''line '' @ int_string (yn_line n) @ '': '' @ CHR 0x27 # s @
             CHR 0x27 # '' is not a valid storage provider address or peer ID'')), sp))))"

definition marshal_storage_provider :: "id_codec \<Rightarrow> storage_provider \<Rightarrow> string" where
  "marshal_storage_provider ic sp =
     (if maybe_addr sp \<noteq> undef_address then encode_addr ic (maybe_addr sp) else encode_peer ic (maybe_peer sp))"

section \<open>The configuration\<close>

record miner_config =
  retrieval_timeout :: duration
  max_concurrent_retrievals :: nat

record config =
  estuary_url :: string
  heartbeat_interval :: duration
  advertise_token :: string
  lookup_endpoint_type :: endpoint_type
  lookup_endpoint_url :: string
  max_bitswap_workers :: nat
  routing_table_type :: routing_table_type
  prune_threshold :: byte_count
  cfg_pin_time :: duration
  log_resource_manager :: bool
  log_retrievals :: bool
  disable_retrieval :: bool
  paid_retrievals :: bool
  cfg_cid_blacklist :: "cid list"
  miner_blacklist :: "storage_provider list"
  miner_whitelist :: "storage_provider list"
  event_recorder_url :: string
  instance_id :: string
  default_miner_config :: miner_config
  miner_configs :: "storage_provider \<rightharpoonup> miner_config"

definition default_config :: config where
  "default_config =
     \<lparr>estuary_url = [], heartbeat_interval = 15 * second, advertise_token = [],
      lookup_endpoint_type = EndpointTypeIndexer, lookup_endpoint_url = ''https://cid.contact'',
      max_bitswap_workers = 1, routing_table_type = RoutingTableTypeDHT, prune_threshold = 0,
      cfg_pin_time = hour, log_resource_manager = False, log_retrievals = False, disable_retrieval = False,
      paid_retrievals = False, cfg_cid_blacklist = [], miner_blacklist = [], miner_whitelist = [],
      event_recorder_url = [], instance_id = ''autoretrieve-unnamed'',
      default_miner_config = \<lparr>retrieval_timeout = minute, max_concurrent_retrievals = 1\<rparr>,
      miner_configs = Map.empty\<rparr>"

text \<open>
  \<open>LoadConfig\<close>: the error and the configuration it returns with it. \<open>yaml_apply\<close> is \<open>yaml.Unmarshal\<close>
  onto an existing configuration.
\<close>

definition load_config ::
  "(string \<Rightarrow> go_error + bytes) \<Rightarrow> (bytes \<Rightarrow> config \<Rightarrow> go_error option \<times> config) \<Rightarrow> string \<Rightarrow>
   go_error option \<times> config" where
  "load_config read_file yaml_apply path =
     (case read_file path of
        Inl e \<Rightarrow> (Some e, default_config)
      | Inr bs \<Rightarrow>
          (case yaml_apply bs default_config of
             (Some e, cfg) \<Rightarrow> (Some (Wrapped ''failed to parse config'' e), cfg)
           | (None, cfg) \<Rightarrow> (None, cfg)))"

definition write_config ::
  "(config \<Rightarrow> go_error + bytes) \<Rightarrow> (string \<Rightarrow> bytes \<Rightarrow> 'fs \<Rightarrow> go_error option \<times> 'fs) \<Rightarrow> config \<Rightarrow> string \<Rightarrow> 'fs \<Rightarrow>
   go_error option \<times> 'fs" where
  "write_config yaml_marshal write_file cfg path fs =
     (case yaml_marshal cfg of Inl e \<Rightarrow> (Some e, fs) | Inr bs \<Rightarrow> write_file path bs fs)"

section \<open>Command line\<close>

text \<open>The flags given: \<open>None\<close> is a flag that is not set. \<open>cl_home\<close> is \<open>os.UserHomeDir\<close>.\<close>

record cli =
  cl_data_dir :: string
  cl_lookup_type :: "string option"
  cl_lookup_url :: "string option"
  cl_routing_type :: "string option"
  cl_disable_retrieval :: "bool option"
  cl_log_resources :: "bool option"
  cl_home :: "go_error + string"

definition data_dir_path :: "cli \<Rightarrow> string" where
  "data_dir_path cl =
     (if cl_data_dir cl = []
      then path_join [case cl_home cl of Inl e \<Rightarrow> ''./'' | Inr h \<Rightarrow> h, ''/.autoretrieve'']
      else cl_data_dir cl)"

definition full_config_path :: "cli \<Rightarrow> string" where
  "full_config_path cl = path_join [data_dir_path cl, ''config.yaml'']"

text \<open>\<open>applyConfigCLIOverrides\<close>, in the order of the code: it stops at the first flag that does not parse.\<close>

definition override_lookup_type :: "cli \<Rightarrow> config \<Rightarrow> go_error + config" where
  "override_lookup_type cl cfg =
     (case cl_lookup_type cl of
        None \<Rightarrow> Inr cfg
      | Some s \<Rightarrow>
          (case parse_endpoint_type s of Inl e \<Rightarrow> Inl e | Inr t \<Rightarrow> Inr (cfg\<lparr>lookup_endpoint_type := t\<rparr>)))"

definition override_routing_type :: "cli \<Rightarrow> config \<Rightarrow> go_error + config" where
  "override_routing_type cl cfg =
     (case cl_routing_type cl of
        None \<Rightarrow> Inr cfg
      | Some s \<Rightarrow>
          (case parse_routing_table_type s of Inl e \<Rightarrow> Inl e | Inr t \<Rightarrow> Inr (cfg\<lparr>routing_table_type := t\<rparr>)))"

definition apply_cli_overrides :: "cli \<Rightarrow> config \<Rightarrow> go_error + config" where
  "apply_cli_overrides cl cfg =
     (case override_lookup_type cl cfg of
        Inl e \<Rightarrow> Inl e
      | Inr cfg1 \<Rightarrow>
     (let cfg2 = (case cl_lookup_url cl of None \<Rightarrow> cfg1 | Some u \<Rightarrow> cfg1\<lparr>lookup_endpoint_url := u\<rparr>)
      in case override_routing_type cl cfg2 of
           Inl e \<Rightarrow> Inl e
         | Inr cfg3 \<Rightarrow>
             (let cfg4 = (case cl_disable_retrieval cl of None \<Rightarrow> cfg3 | Some b \<Rightarrow> cfg3\<lparr>disable_retrieval := b\<rparr>)
              in Inr (case cl_log_resources cl of None \<Rightarrow> cfg4 | Some b \<Rightarrow> cfg4\<lparr>log_resource_manager := b\<rparr>))))"

definition get_full_config ::
  "(string \<Rightarrow> go_error + bytes) \<Rightarrow> (bytes \<Rightarrow> config \<Rightarrow> go_error option \<times> config) \<Rightarrow> cli \<Rightarrow> go_error + config" where
  "get_full_config read_file yaml_apply cl =
     (case load_config read_file yaml_apply (full_config_path cl) of
        (Some e, cfg) \<Rightarrow> if errors_is e NotExist then apply_cli_overrides cl default_config else Inl e
      | (None, cfg) \<Rightarrow> apply_cli_overrides cl cfg)"

definition cmd_gen_config ::
  "(config \<Rightarrow> go_error + bytes) \<Rightarrow> (string \<Rightarrow> bytes \<Rightarrow> 'fs \<Rightarrow> go_error option \<times> 'fs) \<Rightarrow> cli \<Rightarrow> 'fs \<Rightarrow>
   go_error option \<times> 'fs" where
  "cmd_gen_config yaml_marshal write_file cl fs =
     (case apply_cli_overrides cl default_config of
        Inl e \<Rightarrow> (Some e, fs)
      | Inr cfg \<Rightarrow> write_config yaml_marshal write_file cfg (full_config_path cl) fs)"

text \<open>\<open>cmdPrintConfig\<close>: the text printed.\<close>

definition cmd_print_config ::
  "(config \<Rightarrow> go_error + bytes) \<Rightarrow> (string \<Rightarrow> go_error + bytes) \<Rightarrow> (bytes \<Rightarrow> config \<Rightarrow> go_error option \<times> config) \<Rightarrow> cli \<Rightarrow>
   go_error + string" where
  "cmd_print_config yaml_marshal read_file yaml_apply cl =
     (case get_full_config read_file yaml_apply cl of Inl e \<Rightarrow> Inl e | Inr cfg \<Rightarrow> yaml_marshal cfg)"

section \<open>Extraction\<close>

definition cid_list_to_map :: "cid list \<Rightarrow> cid \<rightharpoonup> bool" where
  "cid_list_to_map cs = fold (\<lambda>c m. m(c \<mapsto> True)) cs Map.empty"

definition extract_provider :: "config \<Rightarrow> bool \<Rightarrow> (cid \<Rightarrow> int) \<Rightarrow> provider" where
  "extract_provider cfg retriever psize =
     \<lparr>cid_blacklist = cid_list_to_map (cfg_cid_blacklist cfg), max_workers = max_bitswap_workers cfg,
      routing_type = routing_table_type cfg, has_retriever = retriever, presence_size = psize\<rparr>"

fun providers_to_peers ::
  "'ma gateway \<Rightarrow> storage_provider list \<Rightarrow> (peer_id \<rightharpoonup> bool) \<Rightarrow> go_error + (peer_id \<rightharpoonup> bool)" where
  "providers_to_peers gw [] m = Inr m"
| "providers_to_peers gw (sp # sps) m =
     (case get_peer_id gw sp of Inl e \<Rightarrow> Inl e | Inr p \<Rightarrow> providers_to_peers gw sps (m(p \<mapsto> True)))"

text \<open>The loop over \<open>MinerConfigs\<close>; the list is the order in which the map is ranged over.\<close>

fun convert_miner_configs ::
  "'ma gateway \<Rightarrow> (storage_provider \<rightharpoonup> miner_config) \<Rightarrow> storage_provider list \<Rightarrow> (peer_id \<rightharpoonup> miner_config) \<Rightarrow>
   go_error + (peer_id \<rightharpoonup> miner_config)" where
  "convert_miner_configs gw mcs [] m = Inr m"
| "convert_miner_configs gw mcs (sp # sps) m =
     (case get_peer_id gw sp of
        Inl e \<Rightarrow> Inl e
      | Inr p \<Rightarrow> convert_miner_configs gw mcs sps (m(p := mcs sp)))"

record retriever_config =
  rcf_blacklist :: "peer_id \<rightharpoonup> bool"
  rcf_whitelist :: "peer_id \<rightharpoonup> bool"
  rcf_default :: miner_config
  rcf_miners :: "peer_id \<rightharpoonup> miner_config"
  rcf_paid :: bool

definition extract_retriever_config ::
  "'ma gateway \<Rightarrow> storage_provider list \<Rightarrow> config \<Rightarrow> go_error + retriever_config" where
  "extract_retriever_config gw order cfg =
     (case convert_miner_configs gw (miner_configs cfg) order Map.empty of
        Inl e \<Rightarrow> Inl e
      | Inr miners \<Rightarrow>
     (case providers_to_peers gw (miner_blacklist cfg) Map.empty of
        Inl e \<Rightarrow> Inl e
      | Inr black \<Rightarrow>
     (case providers_to_peers gw (miner_whitelist cfg) Map.empty of
        Inl e \<Rightarrow> Inl e
      | Inr white \<Rightarrow>
          Inr \<lparr>rcf_blacklist = black, rcf_whitelist = white, rcf_default = default_miner_config cfg,
               rcf_miners = miners, rcf_paid = paid_retrievals cfg\<rparr>)))"

section \<open>What the extraction computes\<close>

lemma cid_list_to_map_at: "fold (\<lambda>c m. m(c \<mapsto> True)) cs m c = (if c \<in> set cs then Some True else m c)"
  by (induction cs arbitrary: m) auto

lemma providers_to_peers_result:
  "providers_to_peers gw sps m = Inr m' \<Longrightarrow>
     m' p = (if Inr p \<in> get_peer_id gw ` set sps then Some True else m p) \<and> (\<forall>sp \<in> set sps. \<exists>p. get_peer_id gw sp = Inr p)"
proof (induction sps arbitrary: m)
  case (Cons sp sps)
  then obtain q where "get_peer_id gw sp = Inr q" "providers_to_peers gw sps (m(q \<mapsto> True)) = Inr m'"
    by (auto split: sum.splits)
  with Cons.IH [OF this(2)] show ?case by auto
qed simp

lemma convert_miner_configs_result:
  assumes "convert_miner_configs gw mcs sps m = Inr m'" and "distinct sps"
  shows "(\<forall>sp \<in> set sps. \<exists>p. get_peer_id gw sp = Inr p) \<and>
     (\<forall>p. (\<exists>sp \<in> set sps. get_peer_id gw sp = Inr p \<and> m' p = mcs sp) \<or>
        Inr p \<notin> get_peer_id gw ` set sps \<and> m' p = m p)"
  using assms
proof (induction sps arbitrary: m)
  case (Cons sp sps)
  then obtain q where q: "get_peer_id gw sp = Inr q" "convert_miner_configs gw mcs sps (m(q := mcs sp)) = Inr m'"
    by (auto split: sum.splits)
  from Cons.IH [OF q(2)] Cons.prems(2) have IH: "\<forall>sp \<in> set sps. \<exists>p. get_peer_id gw sp = Inr p"
    "\<forall>p. (\<exists>sp \<in> set sps. get_peer_id gw sp = Inr p \<and> m' p = mcs sp) \<or>
        Inr p \<notin> get_peer_id gw ` set sps \<and> m' p = (m(q := mcs sp)) p" by auto
  have "(\<exists>s \<in> set (sp # sps). get_peer_id gw s = Inr p \<and> m' p = mcs s) \<or>
      Inr p \<notin> get_peer_id gw ` set (sp # sps) \<and> m' p = m p" for p
    using IH(2) [rule_format, of p] q(1) by (cases "p = q") auto
  with IH(1) q(1) show ?case by simp
qed simp

lemma convert_miner_configs_total:
  "\<forall>sp \<in> set sps. \<exists>p. get_peer_id gw sp = Inr p \<Longrightarrow> \<exists>m'. convert_miner_configs gw mcs sps m = Inr m'"
  by (induction sps arbitrary: m) auto

section \<open>Properties\<close>

text \<open>C36. The retriever's settings come from the configured providers. When extraction succeeds,
  every configured provider resolves to a peer; a peer is blacklisted, or whitelisted, exactly when
  a listed provider resolves to it; the peers with settings of their own are those that a provider
  of \<open>miner-configs\<close> resolves to, each with the settings of such a provider; and when no two of
  them resolve to the same peer, every other order of ranging over the map gives the same result.\<close>

theorem retriever_config_correct:
  assumes "extract_retriever_config gw order cfg = Inr rc"
    and "distinct order" and "set order = dom (miner_configs cfg)"
  shows "(\<forall>p. rcf_blacklist rc p = Some True \<longleftrightarrow> Inr p \<in> get_peer_id gw ` set (miner_blacklist cfg)) \<and>
     (\<forall>p. rcf_whitelist rc p = Some True \<longleftrightarrow> Inr p \<in> get_peer_id gw ` set (miner_whitelist cfg)) \<and>
     (\<forall>p. p \<in> dom (rcf_miners rc) \<longleftrightarrow> Inr p \<in> get_peer_id gw ` dom (miner_configs cfg)) \<and>
     (\<forall>p \<in> dom (rcf_miners rc). \<exists>sp. get_peer_id gw sp = Inr p \<and> rcf_miners rc p = miner_configs cfg sp) \<and>
     (inj_on (get_peer_id gw) (dom (miner_configs cfg)) \<longrightarrow>
        (\<forall>order'. distinct order' \<and> set order' = dom (miner_configs cfg) \<longrightarrow>
           extract_retriever_config gw order' cfg = Inr rc))"
proof -
  let ?mcs = "miner_configs cfg"
  obtain miners black white where parts: "convert_miner_configs gw ?mcs order Map.empty = Inr miners"
    "providers_to_peers gw (miner_blacklist cfg) Map.empty = Inr black"
    "providers_to_peers gw (miner_whitelist cfg) Map.empty = Inr white"
    "rc = \<lparr>rcf_blacklist = black, rcf_whitelist = white, rcf_default = default_miner_config cfg,
       rcf_miners = miners, rcf_paid = paid_retrievals cfg\<rparr>"
    using assms(1) by (auto simp: extract_retriever_config_def split: sum.splits)
  note lists = providers_to_peers_result [OF parts(2)] providers_to_peers_result [OF parts(3)]
  note conv = convert_miner_configs_result [OF parts(1) assms(2)]
  have at: "(\<exists>sp \<in> dom ?mcs. get_peer_id gw sp = Inr p \<and> miners p = ?mcs sp) \<or>
      Inr p \<notin> get_peer_id gw ` dom ?mcs \<and> miners p = None" for p
    using conv assms(3) by blast
  have dom_miners: "p \<in> dom miners \<longleftrightarrow> Inr p \<in> get_peer_id gw ` dom ?mcs" for p
    using at [of p]
  proof (elim disjE bexE conjE)
    fix sp assume "sp \<in> dom ?mcs" "get_peer_id gw sp = Inr p" "miners p = ?mcs sp"
    moreover from this have "Inr p \<in> get_peer_id gw ` dom ?mcs" by (metis imageI)
    ultimately show ?thesis by auto
  qed auto
  have "extract_retriever_config gw order' cfg = Inr rc"
    if inj: "inj_on (get_peer_id gw) (dom ?mcs)" and order': "distinct order'" "set order' = dom ?mcs" for order'
  proof -
    have "\<forall>sp \<in> set order'. \<exists>p. get_peer_id gw sp = Inr p" using conv assms(3) order'(2) by simp
    then obtain miners' where m': "convert_miner_configs gw ?mcs order' Map.empty = Inr miners'"
      using convert_miner_configs_total by blast
    have "miners' p = miners p" for p
    proof (cases "Inr p \<in> get_peer_id gw ` dom ?mcs")
      case True
      with at [of p] obtain sp where sp: "sp \<in> dom ?mcs" "get_peer_id gw sp = Inr p" "miners p = ?mcs sp" by blast
      from True convert_miner_configs_result [OF m' order'(1)] order'(2) obtain sp' where
        sp': "sp' \<in> dom ?mcs" "get_peer_id gw sp' = Inr p" "miners' p = ?mcs sp'" by blast
      have "sp' = sp" using inj_onD [OF inj] sp(1,2) sp'(1,2) by metis
      with sp(3) sp'(3) show ?thesis by simp
    next
      case False
      then have "miners p = None" using at [of p] by (metis imageI)
      moreover have "miners' p = None"
        using False convert_miner_configs_result [OF m' order'(1)] order'(2) by (metis imageI)
      ultimately show ?thesis by simp
    qed
    then have "miners' = miners" by (rule ext)
    with m' parts show ?thesis by (simp add: extract_retriever_config_def)
  qed
  moreover have "\<exists>sp. get_peer_id gw sp = Inr p \<and> miners p = ?mcs sp" if "p \<in> dom miners" for p
    using at [of p] that by auto
  ultimately show ?thesis using lists dom_miners parts(4) by simp
qed

definition demo_sp :: storage_provider where "demo_sp = provider_of_peer ''p1''"
definition demo_miner_cfg :: miner_config where
  "demo_miner_cfg = \<lparr>retrieval_timeout = second, max_concurrent_retrievals = 3\<rparr>"

definition demo_cfg :: config where
  "demo_cfg = default_config\<lparr>miner_blacklist := [provider_of_address ''f01''], miner_configs := [demo_sp \<mapsto> demo_miner_cfg]\<rparr>"

lemma demo_extract:
  "\<exists>rc. extract_retriever_config demo_gateway [demo_sp] demo_cfg = Inr rc \<and> rcf_miners rc = [''p1'' \<mapsto> demo_miner_cfg]"
  by (simp add: extract_retriever_config_def demo_cfg_def default_config_def demo_sp_def provider_of_peer_def
      provider_of_address_def get_peer_id_def undef_address_def miner_peer_def demo_gateway_def)

lemma retriever_config_correct_witness:
  "\<exists>rc. extract_retriever_config demo_gateway [demo_sp] demo_cfg = Inr rc \<and> ''p1'' \<in> dom (rcf_miners rc) \<and>
     Inr ''p1'' \<in> get_peer_id demo_gateway ` dom (miner_configs demo_cfg)"
proof -
  obtain rc where rc: "extract_retriever_config demo_gateway [demo_sp] demo_cfg = Inr rc"
    "rcf_miners rc = [''p1'' \<mapsto> demo_miner_cfg]" using demo_extract by blast
  have "set [demo_sp] = dom (miner_configs demo_cfg)" "distinct [demo_sp]" by (simp_all add: demo_cfg_def)
  note miners = retriever_config_correct [OF rc(1) this(2,1), THEN conjunct2, THEN conjunct2, THEN conjunct1]
  have "''p1'' \<in> dom (rcf_miners rc)" using rc(2) by simp
  with rc(1) miners show ?thesis by blast
qed

text \<open>The provider refuses exactly the configured identifiers: an identifier is blacklisted for the
  provider built from a configuration when it is in the configuration's list, and only then.\<close>

lemma blacklist_extracted:
  "blacklisted (extract_provider cfg retriever psize) c \<longleftrightarrow> c \<in> set (cfg_cid_blacklist cfg)"
  by (simp add: blacklisted_def extract_provider_def cid_list_to_map_def cid_list_to_map_at)

text \<open>What the flags do to a configuration.\<close>

lemma apply_cli_overrides_ok:
  assumes "apply_cli_overrides cl base = Inr cfg"
  obtains lt rt where
    "case cl_lookup_type cl of None \<Rightarrow> lt = lookup_endpoint_type base | Some s \<Rightarrow> parse_endpoint_type s = Inr lt"
    "case cl_routing_type cl of None \<Rightarrow> rt = routing_table_type base | Some s \<Rightarrow> parse_routing_table_type s = Inr rt"
    "cfg = base\<lparr>lookup_endpoint_type := lt, routing_table_type := rt,
       lookup_endpoint_url := (case cl_lookup_url cl of None \<Rightarrow> lookup_endpoint_url base | Some u \<Rightarrow> u),
       disable_retrieval := (case cl_disable_retrieval cl of None \<Rightarrow> disable_retrieval base | Some b \<Rightarrow> b),
       log_resource_manager := (case cl_log_resources cl of None \<Rightarrow> log_resource_manager base | Some b \<Rightarrow> b)\<rparr>"
proof -
  obtain cfg1 where cfg1: "override_lookup_type cl base = Inr cfg1"
    using assms by (cases "override_lookup_type cl base") (simp_all add: apply_cli_overrides_def)
  obtain lt where lt: "cfg1 = base\<lparr>lookup_endpoint_type := lt\<rparr>"
    "case cl_lookup_type cl of None \<Rightarrow> lt = lookup_endpoint_type base | Some s \<Rightarrow> parse_endpoint_type s = Inr lt"
  proof (cases "cl_lookup_type cl")
    case None
    with cfg1 that [of "lookup_endpoint_type base"] show thesis by (simp add: override_lookup_type_def)
  next
    case (Some s)
    with cfg1 that show thesis
      by (cases "parse_endpoint_type s") (auto simp: override_lookup_type_def)
  qed
  let ?cfg2 = "cfg1\<lparr>lookup_endpoint_url := (case cl_lookup_url cl of None \<Rightarrow> lookup_endpoint_url base | Some u \<Rightarrow> u)\<rparr>"
  have cfg2: "(case cl_lookup_url cl of None \<Rightarrow> cfg1 | Some u \<Rightarrow> cfg1\<lparr>lookup_endpoint_url := u\<rparr>) = ?cfg2"
    using lt(1) by (cases "cl_lookup_url cl") simp_all
  obtain cfg3 where cfg3: "override_routing_type cl ?cfg2 = Inr cfg3"
    using assms cfg1 cfg2 by (cases "override_routing_type cl ?cfg2") (simp_all add: apply_cli_overrides_def)
  obtain rt where rt: "cfg3 = ?cfg2\<lparr>routing_table_type := rt\<rparr>"
    "case cl_routing_type cl of None \<Rightarrow> rt = routing_table_type base | Some s \<Rightarrow> parse_routing_table_type s = Inr rt"
  proof (cases "cl_routing_type cl")
    case None
    with cfg3 have "cfg3 = ?cfg2" by (simp add: override_routing_type_def)
    with lt(1) None show thesis by (intro that [of "routing_table_type base"]) (cases base, simp_all)
  next
    case (Some s)
    with cfg3 that show thesis
      by (cases "parse_routing_table_type s") (auto simp: override_routing_type_def)
  qed
  have "cfg = cfg3\<lparr>
       disable_retrieval := (case cl_disable_retrieval cl of None \<Rightarrow> disable_retrieval base | Some b \<Rightarrow> b),
       log_resource_manager := (case cl_log_resources cl of None \<Rightarrow> log_resource_manager base | Some b \<Rightarrow> b)\<rparr>"
  proof -
    let ?cfg4 = "case cl_disable_retrieval cl of None \<Rightarrow> cfg3 | Some b \<Rightarrow> cfg3\<lparr>disable_retrieval := b\<rparr>"
    have "cfg = (case cl_log_resources cl of None \<Rightarrow> ?cfg4 | Some b \<Rightarrow> ?cfg4\<lparr>log_resource_manager := b\<rparr>)"
      using assms unfolding apply_cli_overrides_def cfg1 sum.case Let_def cfg2 cfg3 by simp
    moreover have "disable_retrieval cfg3 = disable_retrieval base" "log_resource_manager cfg3 = log_resource_manager base"
      using rt(1) lt(1) by simp_all
    ultimately show ?thesis
      by (cases cfg3; cases "cl_disable_retrieval cl"; cases "cl_log_resources cl") simp_all
  qed
  with lt rt show ?thesis by (intro that [of lt rt]) simp_all
qed

text \<open>Where a setting comes from. When the configuration is assembled without an error, it is the
  file's, or the default one when there is no file, except for the five settings that have a flag: each of
  these is the flag's value if the flag is set, parsed for the two enumerations, and the file's or
  default one otherwise.\<close>

lemma full_config_precedence:
  assumes "get_full_config read_file yaml_apply cl = Inr cfg"
    and "load_config read_file yaml_apply (full_config_path cl) = (err, loaded)"
    and "base = (if err = None then loaded else default_config)"
  shows "(err = None \<or> (\<exists>e. err = Some e \<and> errors_is e NotExist)) \<and>
     (\<exists>lt rt.
        (case cl_lookup_type cl of None \<Rightarrow> lt = lookup_endpoint_type base | Some s \<Rightarrow> parse_endpoint_type s = Inr lt) \<and>
        (case cl_routing_type cl of None \<Rightarrow> rt = routing_table_type base | Some s \<Rightarrow> parse_routing_table_type s = Inr rt) \<and>
        cfg = base\<lparr>lookup_endpoint_type := lt, routing_table_type := rt,
          lookup_endpoint_url := (case cl_lookup_url cl of None \<Rightarrow> lookup_endpoint_url base | Some u \<Rightarrow> u),
          disable_retrieval := (case cl_disable_retrieval cl of None \<Rightarrow> disable_retrieval base | Some b \<Rightarrow> b),
          log_resource_manager := (case cl_log_resources cl of None \<Rightarrow> log_resource_manager base | Some b \<Rightarrow> b)\<rparr>)"
proof -
  have "apply_cli_overrides cl base = Inr cfg" and "err = None \<or> (\<exists>e. err = Some e \<and> errors_is e NotExist)"
    using assms by (cases err; simp add: get_full_config_def split: if_splits)+
  then show ?thesis by (elim apply_cli_overrides_ok) blast
qed

definition demo_cli :: cli where
  "demo_cli = \<lparr>cl_data_dir = [], cl_lookup_type = Some '' Estuary '', cl_lookup_url = None, cl_routing_type = None,
     cl_disable_retrieval = Some True, cl_log_resources = None, cl_home = Inr ''/root''\<rparr>"

text \<open>The routing type that the help text documents is refused. The usage of \<open>--routing-table-type\<close>
  lists \<open>fullrt\<close>, but the parser knows \<open>full\<close>: with \<open>fullrt\<close> on the command line, whatever the
  configuration, the overrides fail.\<close>

lemma documented_fullrt_refused:
  assumes "cl_routing_type cl = Some ''fullrt''"
  shows "\<exists>e. apply_cli_overrides cl cfg = Inl e"
proof -
  have "parse_routing_table_type ''fullrt'' = Inl (Msg ''unknown routing table type fullrt'')" by code_simp
  with assms have "override_routing_type cl c = Inl (Msg ''unknown routing table type fullrt'')" for c
    by (simp add: override_routing_type_def)
  then show ?thesis by (cases "override_lookup_type cl cfg") (simp_all add: apply_cli_overrides_def)
qed

text \<open>What the text forms of the two identifiers promise: each decoder reads back what its encoder
  wrote, and the text of an address is not that of a peer identifier.\<close>

definition codecs_ok :: "id_codec \<Rightarrow> bool" where
  "codecs_ok ic \<longleftrightarrow>
     (\<forall>p. p \<noteq> [] \<longrightarrow> decode_peer ic (encode_peer ic p) = Inr p) \<and>
     (\<forall>a. a \<noteq> undef_address \<longrightarrow> decode_addr ic (encode_addr ic a) = Inr a \<and>
        (\<exists>e. decode_peer ic (encode_addr ic a) = Inl e))"

text \<open>A storage provider survives a trip through the configuration file. Unmarshalling, into a fresh
  value, what \<open>MarshalYAML\<close> wrote for a provider built from a non-empty peer identifier or from a
  defined address gives that provider back, on any line of the file.\<close>

lemma storage_provider_roundtrip:
  assumes "codecs_ok ic"
    and "sp = provider_of_peer p \<and> p \<noteq> [] \<or> sp = provider_of_address a \<and> a \<noteq> undef_address"
  shows "unmarshal_storage_provider ic \<lparr>yn_decode = Inr (marshal_storage_provider ic sp), yn_line = l\<rparr>
     (provider_of_peer []) = (None, sp)"
  using assms(2)
proof (elim disjE conjE)
  assume sp: "sp = provider_of_peer p" "p \<noteq> []"
  then have "decode_peer ic (encode_peer ic p) = Inr p" using assms(1) by (simp add: codecs_ok_def)
  with sp show ?thesis
    by (simp add: unmarshal_storage_provider_def marshal_storage_provider_def provider_of_peer_def)
next
  assume sp: "sp = provider_of_address a" "a \<noteq> undef_address"
  then obtain e where "decode_addr ic (encode_addr ic a) = Inr a" "decode_peer ic (encode_addr ic a) = Inl e"
    using assms(1) by (auto simp: codecs_ok_def)
  with sp show ?thesis
    by (simp add: unmarshal_storage_provider_def marshal_storage_provider_def provider_of_peer_def
        provider_of_address_def)
qed

text \<open>Rewriting the configuration can change the prune threshold. \<open>MarshalYAML\<close> writes a byte count with
  \<open>humanize.IBytes\<close>, which rounds; whenever it prints two different counts alike, at least one of them is
  not read back as itself, so a configuration that is loaded and written again, as registering with
  Estuary does, need not keep its threshold.\<close>

lemma byte_count_roundtrip_lossy:
  assumes "ibytes b1 = ibytes b2" and "b1 \<noteq> b2"
  shows "\<exists>b \<in> {b1, b2}.
     unmarshal_byte_count parse_bytes show_err \<lparr>yn_decode = Inr (marshal_byte_count ibytes b), yn_line = l\<rparr> old \<noteq> (None, b)"
  using assms
  by (cases "parse_bytes (ibytes b2)") (auto simp: unmarshal_byte_count_def unmarshal_with_def marshal_byte_count_def)

end
