(* ===== verification/Go_Durations.thy ===== *)
theory Go_Durations
  imports Go_Strings "HOL-Library.Signed_Division"
begin

text \<open>
  \<open>time.ParseDuration\<close>, step by step as the library has it, and the halving of a duration. The product
  of a fraction and its unit is computed in floating point; \<open>frac f scale unit\<close> stands for its
  truncation to an integer.
\<close>

section \<open>Parsing\<close>

definition is_digit :: "char \<Rightarrow> bool" where
  "is_digit c \<longleftrightarrow> 48 \<le> (of_char c :: nat) \<and> (of_char c :: nat) \<le> 57"

definition digit_value :: "char \<Rightarrow> nat" where
  "digit_value c = of_char c - 48"

text \<open>The digits before the point: \<open>None\<close> when the number passes \<open>2 ^ 63\<close>.\<close>

fun leading_int :: "string \<Rightarrow> nat \<Rightarrow> nat option" where
  "leading_int [] x = Some x"
| "leading_int (c # cs) x =
     (if 2 ^ 63 div 10 < x then None
      else if 2 ^ 63 < x * 10 + digit_value c then None
      else leading_int cs (x * 10 + digit_value c))"

text \<open>The digits after the point, of which those that would overflow are ignored, and their scale.\<close>

fun leading_fraction :: "string \<Rightarrow> nat \<Rightarrow> nat \<Rightarrow> bool \<Rightarrow> nat \<times> nat" where
  "leading_fraction [] x scale overflow = (x, scale)"
| "leading_fraction (c # cs) x scale overflow =
     (if overflow then leading_fraction cs x scale True
      else if (2 ^ 63 - 1) div 10 < x then leading_fraction cs x scale True
      else if 2 ^ 63 < x * 10 + digit_value c then leading_fraction cs x scale True
      else leading_fraction cs (x * 10 + digit_value c) (scale * 10) False)"

definition unit_map :: "string \<rightharpoonup> nat" where
  "unit_map = map_of
     [(''ns'', 1), (''us'', 1000), ([CHR 0xC2, CHR 0xB5, CHR ''s''], 1000), ([CHR 0xCE, CHR 0xBC, CHR ''s''], 1000),
      (''ms'', 1000000), (''s'', 1000000000), (''m'', 60000000000), (''h'', 3600000000000)]"

definition bad_duration :: "string \<Rightarrow> go_error" where
  "bad_duration s = Msg (''time: invalid duration '' @ s)"

text \<open>One number with its unit: its nanoseconds and the rest of the text.\<close>

definition duration_part :: "(nat \<Rightarrow> nat \<Rightarrow> nat \<Rightarrow> nat) \<Rightarrow> string \<Rightarrow> string \<Rightarrow> go_error + nat \<times> string" where
  "duration_part frac orig s =
     (let pre = takeWhile is_digit s; s1 = dropWhile is_digit s;
          pointed = (take 1 s1 = ''.'');
          s2 = (if pointed then drop 1 s1 else s1);
          post = (if pointed then takeWhile is_digit s2 else []);
          s3 = (if pointed then dropWhile is_digit s2 else s2);
          u = takeWhile (\<lambda>c. \<not> (c = CHR ''.'' \<or> is_digit c)) s3;
          s4 = dropWhile (\<lambda>c. \<not> (c = CHR ''.'' \<or> is_digit c)) s3;
          (f, scale) = leading_fraction post 0 1 False
      in if pre = [] \<and> \<not> pointed then Inl (bad_duration orig)
         else case leading_int pre 0 of
                None \<Rightarrow> Inl (bad_duration orig)
              | Some v \<Rightarrow>
         if pre = [] \<and> post = [] then Inl (bad_duration orig)
         else if u = [] then Inl (Msg (''time: missing unit in duration '' @ orig))
         else case unit_map u of
                None \<Rightarrow> Inl (Msg (''time: unknown unit '' @ u @ '' in duration '' @ orig))
              | Some un \<Rightarrow>
         if 2 ^ 63 div un < v then Inl (bad_duration orig)
         else let v' = v * un + (if 0 < f then frac f scale un else 0)
              in if 2 ^ 63 < v' then Inl (bad_duration orig) else Inr (v', s4))"

lemma duration_part_shorter:
  "duration_part frac orig s = Inr (v, s') \<Longrightarrow> length s' < length s"
proof -
  assume part: "duration_part frac orig s = Inr (v, s')"
  let ?s1 = "dropWhile is_digit s"
  let ?s3 = "if take 1 ?s1 = ''.'' then dropWhile is_digit (drop 1 ?s1) else ?s1"
  let ?P = "\<lambda>c. \<not> (c = CHR ''.'' \<or> is_digit c)"
  from part have "takeWhile ?P ?s3 \<noteq> []" and s': "s' = dropWhile ?P ?s3"
    by (auto simp: duration_part_def Let_def split: if_splits option.splits prod.splits)
  then have "length s' < length ?s3"
    by (cases ?s3) (auto simp: length_dropWhile_le le_imp_less_Suc split: if_splits)
  also have "\<dots> \<le> length ?s1"
    using length_dropWhile_le [of is_digit "drop 1 ?s1"] by auto
  also have "\<dots> \<le> length s" by (rule length_dropWhile_le)
  finally show ?thesis .
qed

function duration_parts :: "(nat \<Rightarrow> nat \<Rightarrow> nat \<Rightarrow> nat) \<Rightarrow> string \<Rightarrow> string \<Rightarrow> nat \<Rightarrow> go_error + nat" where
  "duration_parts frac orig s d =
     (if s = [] then Inr d
      else case duration_part frac orig s of
             Inl e \<Rightarrow> Inl e
           | Inr (v, s') \<Rightarrow>
               if 2 ^ 63 < d + v then Inl (bad_duration orig) else duration_parts frac orig s' (d + v))"
  by pat_completeness auto
termination
  by (relation "measure (\<lambda>(frac, orig, s, d). length s)") (auto simp: duration_part_shorter)

declare duration_parts.simps [simp del]

definition parse_duration :: "(nat \<Rightarrow> nat \<Rightarrow> nat \<Rightarrow> nat) \<Rightarrow> string \<Rightarrow> go_error + duration" where
  "parse_duration frac orig =
     (let neg = (take 1 orig = ''-'');
          s = (if take 1 orig = ''-'' \<or> take 1 orig = ''+'' then drop 1 orig else orig)
      in if s = ''0'' then Inr 0
         else if s = [] then Inl (bad_duration orig)
         else case duration_parts frac orig s 0 of
                Inl e \<Rightarrow> Inl e
              | Inr d \<Rightarrow>
                  if neg then Inr (- int d)
                  else if 2 ^ 63 - 1 < d then Inl (bad_duration orig)
                  else Inr (int d))"

text \<open>\<open>d / 2\<close> rounds towards zero.\<close>

definition half_duration :: "duration \<Rightarrow> duration" where
  "half_duration d = d sdiv 2"

section \<open>Bounds\<close>

lemma duration_parts_bound: "duration_parts frac orig s d = Inr r \<Longrightarrow> d \<le> 2 ^ 63 \<Longrightarrow> r \<le> 2 ^ 63"
proof (induction frac orig s d rule: duration_parts.induct)
  case (1 frac orig s d)
  show ?case
  proof (cases "s = []")
    case True
    with 1(2,3) show ?thesis by (simp add: duration_parts.simps)
  next
    case False
    with 1(2) obtain v s' where part: "duration_part frac orig s = Inr (v, s')" and le: "\<not> 2 ^ 63 < d + v"
      and rest: "duration_parts frac orig s' (d + v) = Inr r"
      by (simp add: duration_parts.simps [of frac orig s d] split: sum.splits prod.splits if_splits)
    from 1(1) [OF False part refl le rest] le show ?thesis by simp
  qed
qed

lemma parse_duration_range:
  "parse_duration frac s = Inr d \<Longrightarrow> min_duration \<le> d \<and> d \<le> max_duration"
  by (auto simp: parse_duration_def Let_def duration_defs
      dest!: duration_parts_bound split: if_splits sum.splits)

lemma half_positive: "0 < half_duration d \<longleftrightarrow> 2 \<le> d"
  by (auto simp: half_duration_def signed_divide_int_def sgn_if zdiv_int)

end
