(* ===== verification/Estuary_Heartbeat.thy ===== *)
theory Estuary_Heartbeat
  imports Config Go_Durations
begin

text \<open>
  The heartbeat that \<open>New\<close> starts when an Estuary URL is configured (src/autoretrieve.go): one request
  (\<open>sendEstuaryHeartbeat\<close>), and the goroutine that sends one per tick of a \<open>time.Ticker\<close> and resets the
  ticker after each. The HTTP client and the JSON decoder are parameters. A ticker is its next
  fire, its period, and whether a tick waits in its channel, which holds one.
\<close>

section \<open>One heartbeat\<close>

text \<open>An \<open>interface{}\<close> field of a JSON answer: absent or null, a string, or another value with its text.\<close>

datatype json_any = JsonNull | JsonText string | JsonOther string

fun json_show :: "json_any \<Rightarrow> string" where
  "json_show JsonNull = ''<nil>''"
| "json_show (JsonText s) = s"
| "json_show (JsonOther s) = s"

definition reports_error :: "json_any \<Rightarrow> bool" where
  "reports_error j \<longleftrightarrow> j \<noteq> JsonNull \<and> j \<noteq> JsonText []"

record heartbeat_reply =
  hr_advertise_interval :: string
  hr_error :: json_any

record 'b estuary_client =
  new_request :: "string \<Rightarrow> go_error option"
  do_post :: "string \<Rightarrow> string \<Rightarrow> go_error + int \<times> 'b"
  read_all :: "'b \<Rightarrow> bytes \<times> go_error option"
  decode_heartbeat :: "'b \<Rightarrow> go_error + heartbeat_reply"
  err_text :: "go_error \<Rightarrow> string"
  float_frac :: "nat \<Rightarrow> nat \<Rightarrow> nat \<Rightarrow> nat"

definition send_estuary_heartbeat :: "'b estuary_client \<Rightarrow> config \<Rightarrow> go_error + duration" where
  "send_estuary_heartbeat ec cfg =
     (let url = estuary_url cfg @ ''/autoretrieve/heartbeat''
      in case new_request ec url of
           Some e \<Rightarrow> Inl e
         | None \<Rightarrow>
        (case do_post ec url (''Bearer '' @ advertise_token cfg) of
           Inl e \<Rightarrow> Inl e
         | Inr (status, body) \<Rightarrow>
             if status div 100 \<noteq> 2
             then Inl (Msg (case read_all ec body of
                              (bs, None) \<Rightarrow> bs
                            | (bs, Some e) \<Rightarrow> ''could not read response''))
             else
        (case decode_heartbeat ec body of
           Inl e \<Rightarrow> Inl (Msg (''could not decode response: '' @ err_text ec e))
         | Inr out \<Rightarrow>
             if reports_error (hr_error out) then Inl (Msg (json_show (hr_error out)))
             else
        (case parse_duration (float_frac ec) (hr_advertise_interval out) of
           Inl e \<Rightarrow> Inl (Msg (''could not parse advertise interval: '' @ err_text ec e))
         | Inr adv \<Rightarrow> Inr (half_duration adv)))))"

section \<open>The ticker\<close>

record ticker =
  tk_next :: go_time
  tk_period :: duration
  tk_pending :: bool

definition new_ticker :: "go_time \<Rightarrow> duration \<Rightarrow> ticker outcome" where
  "new_ticker now d =
     (if d \<le> 0 then Panics ''non-positive interval for NewTicker''
      else Returns \<lparr>tk_next = now + d, tk_period = d, tk_pending = False\<rparr>)"

text \<open>Resetting keeps a tick that is already in the channel.\<close>

definition ticker_reset :: "go_time \<Rightarrow> duration \<Rightarrow> ticker \<Rightarrow> ticker outcome" where
  "ticker_reset now d tk =
     (if d \<le> 0 then Panics ''non-positive interval for Ticker.Reset''
      else Returns (tk\<lparr>tk_next := now + d, tk_period := d\<rparr>))"

text \<open>The ticks up to a time: at most one of them fits in the channel.\<close>

definition ticker_elapse :: "go_time \<Rightarrow> ticker \<Rightarrow> ticker" where
  "ticker_elapse now tk =
     (if now < tk_next tk then tk
      else tk\<lparr>tk_next := tk_next tk + tk_period tk * ((now - tk_next tk) div tk_period tk + 1), tk_pending := True\<rparr>)"

text \<open>\<open><-ticker.C\<close>: when the receive that starts at \<open>now\<close> returns.\<close>

definition ticker_receive :: "go_time \<Rightarrow> ticker \<Rightarrow> go_time \<times> ticker" where
  "ticker_receive now tk =
     (let tk1 = ticker_elapse now tk
      in if tk_pending tk1 then (now, tk1\<lparr>tk_pending := False\<rparr>)
         else (tk_next tk1, tk1\<lparr>tk_next := tk_next tk1 + tk_period tk1\<rparr>))"

section \<open>The goroutine\<close>

text \<open>
  One turn of the loop, entered at \<open>now\<close> with a request that takes \<open>took\<close>: it sends, resets the ticker
  to the answer or to the configured interval, and waits for the next tick.
\<close>

definition heartbeat_turn ::
  "'b estuary_client \<Rightarrow> config \<Rightarrow> duration \<Rightarrow> go_time \<Rightarrow> ticker \<Rightarrow> (go_time \<times> ticker) outcome" where
  "heartbeat_turn ec cfg took now tk =
     (let sent = now + took;
          interval = (case send_estuary_heartbeat ec cfg of Inl e \<Rightarrow> heartbeat_interval cfg | Inr i \<Rightarrow> i)
      in case ticker_reset sent interval (ticker_elapse sent tk) of
           Panics m \<Rightarrow> Panics m
         | Returns tk' \<Rightarrow> Returns (ticker_receive sent tk'))"

text \<open>The turns of a run: the client as it answers in each and how long it takes, and the times at which
  the turns start, the last of them the turn after the run.\<close>

fun heartbeat_turns ::
  "config \<Rightarrow> ('b estuary_client \<times> duration) list \<Rightarrow> go_time \<Rightarrow> ticker \<Rightarrow> go_time list outcome" where
  "heartbeat_turns cfg [] now tk = Returns [now]"
| "heartbeat_turns cfg ((ec, took) # turns) now tk =
     (case heartbeat_turn ec cfg took now tk of
        Panics m \<Rightarrow> Panics m
      | Returns (now', tk') \<Rightarrow>
          (case heartbeat_turns cfg turns now' tk' of
             Panics m \<Rightarrow> Panics m
           | Returns ts \<Rightarrow> Returns (now # ts)))"

definition heartbeat_loop ::
  "config \<Rightarrow> ('b estuary_client \<times> duration) list \<Rightarrow> go_time \<Rightarrow> go_time list outcome" where
  "heartbeat_loop cfg turns now =
     (case new_ticker now (heartbeat_interval cfg) of
        Panics m \<Rightarrow> Panics m
      | Returns tk \<Rightarrow> heartbeat_turns cfg turns now tk)"

section \<open>The schedule of heartbeats\<close>

text \<open>The interval that a turn resets the ticker to.\<close>

definition turn_interval :: "config \<Rightarrow> 'b estuary_client \<Rightarrow> duration" where
  "turn_interval cfg ec = (case send_estuary_heartbeat ec cfg of Inl e \<Rightarrow> heartbeat_interval cfg | Inr i \<Rightarrow> i)"

text \<open>The reference: each turn starts an interval after the request of the last one was done, or at once
  when that request took as long as the interval before it.\<close>

fun heartbeat_schedule :: "duration \<Rightarrow> (duration \<times> duration) list \<Rightarrow> go_time \<Rightarrow> go_time list option" where
  "heartbeat_schedule period [] now = Some [now]"
| "heartbeat_schedule period ((took, i) # turns) now =
     (if i \<le> 0 then None
      else map_option ((#) now) (heartbeat_schedule i turns (now + took + (if took < period then i else 0))))"

lemma heartbeat_turn_result:
  assumes "0 \<le> took" and "0 < p"
  shows "\<exists>tk'. heartbeat_turn ec cfg took now \<lparr>tk_next = now + p, tk_period = p, tk_pending = False\<rparr> =
     (if turn_interval cfg ec \<le> 0 then Panics ''non-positive interval for Ticker.Reset''
      else (let i = turn_interval cfg ec; now' = now + took + (if took < p then i else 0)
            in Returns (now', \<lparr>tk_next = now' + i, tk_period = i, tk_pending = False\<rparr>)))"
  using assms
  by (auto simp: heartbeat_turn_def ticker_reset_def ticker_elapse_def ticker_receive_def turn_interval_def [symmetric] Let_def)

lemma heartbeat_turns_schedule:
  assumes "\<forall>(ec, took) \<in> set turns. 0 \<le> took" and "0 < p"
  shows "heartbeat_turns cfg turns now \<lparr>tk_next = now + p, tk_period = p, tk_pending = False\<rparr> =
     (case heartbeat_schedule p (map (\<lambda>(ec, took). (took, turn_interval cfg ec)) turns) now of
        None \<Rightarrow> Panics ''non-positive interval for Ticker.Reset'' | Some ts \<Rightarrow> Returns ts)"
  using assms
proof (induction turns arbitrary: now p)
  case (Cons turn turns)
  obtain ec took where turn: "turn = (ec, took)" by (cases turn)
  have took: "0 \<le> took" using Cons.prems(1) turn by simp
  let ?i = "turn_interval cfg ec"
  note step = heartbeat_turn_result [OF took Cons.prems(2), of ec cfg now]
  show ?case
  proof (cases "?i \<le> 0")
    case True
    with step show ?thesis by (simp add: turn)
  next
    case False
    with Cons.IH [of ?i] Cons.prems(1) step show ?thesis
      by (auto simp: turn Let_def not_le split: option.splits)
  qed
qed simp

lemma schedule_none_iff:
  "heartbeat_schedule p turns now = None \<longleftrightarrow> (\<exists>(took, i) \<in> set turns. i \<le> 0)"
  by (induction p turns now rule: heartbeat_schedule.induct) auto

section \<open>Properties\<close>

text \<open>C22. The heartbeat goroutine follows its schedule. For all answers and request times, the ticker-driven
  loop starts its turns exactly when the reference says: the first at once, each later one an interval
  after the request before it was done, where the interval is half of the one Estuary advertised, or
  the configured one when the request failed; only after a request that outlasted the
  interval before it is the next heartbeat sent at once, because a tick was left in the channel. The
  loop panics when the configured interval is not positive, or when the schedule meets an interval that is
  not.\<close>

theorem heartbeat_follows_schedule:
  assumes "\<forall>(ec, took) \<in> set turns. 0 \<le> took"
  shows "heartbeat_loop cfg turns now =
     (if heartbeat_interval cfg \<le> 0 then Panics ''non-positive interval for NewTicker''
      else case heartbeat_schedule (heartbeat_interval cfg) (map (\<lambda>(ec, took). (took, turn_interval cfg ec)) turns) now of
             None \<Rightarrow> Panics ''non-positive interval for Ticker.Reset''
           | Some ts \<Rightarrow> Returns ts)"
  using heartbeat_turns_schedule [OF assms, of "heartbeat_interval cfg" cfg now]
  by (simp add: heartbeat_loop_def new_ticker_def)

text \<open>C24. An advertised interval below two nanoseconds ends the process. When one answer in a run of
  heartbeats is a success that advertises an interval of less than two nanoseconds (\<open>0s\<close>, or any
  negative duration, which the parser accepts), the loop panics in \<open>Ticker.Reset\<close>, and nothing recovers the
  panic of a goroutine; with a positive configured interval there is no other way to panic.\<close>

theorem heartbeat_panics_iff:
  assumes "\<forall>(ec, took) \<in> set turns. 0 \<le> took" and "0 < heartbeat_interval cfg"
  shows "(\<exists>m. heartbeat_loop cfg turns now = Panics m) \<longleftrightarrow>
     (\<exists>(ec, took) \<in> set turns. \<exists>status body out adv.
        new_request ec (estuary_url cfg @ ''/autoretrieve/heartbeat'') = None \<and>
        do_post ec (estuary_url cfg @ ''/autoretrieve/heartbeat'') (''Bearer '' @ advertise_token cfg) = Inr (status, body) \<and>
        status div 100 = 2 \<and> decode_heartbeat ec body = Inr out \<and> \<not> reports_error (hr_error out) \<and>
        parse_duration (float_frac ec) (hr_advertise_interval out) = Inr adv \<and> adv < 2)"
proof -
  have answer: "turn_interval cfg ec \<le> 0 \<longleftrightarrow> (\<exists>status body out adv.
        new_request ec (estuary_url cfg @ ''/autoretrieve/heartbeat'') = None \<and>
        do_post ec (estuary_url cfg @ ''/autoretrieve/heartbeat'') (''Bearer '' @ advertise_token cfg) = Inr (status, body) \<and>
        status div 100 = 2 \<and> decode_heartbeat ec body = Inr out \<and> \<not> reports_error (hr_error out) \<and>
        parse_duration (float_frac ec) (hr_advertise_interval out) = Inr adv \<and> adv < 2)" for ec :: "'a estuary_client"
    using assms(2) half_positive
    by (auto simp: turn_interval_def send_estuary_heartbeat_def Let_def not_less [symmetric]
        split: option.splits sum.splits if_splits)
  have "(\<exists>m. heartbeat_loop cfg turns now = Panics m) \<longleftrightarrow> (\<exists>(ec, took) \<in> set turns. turn_interval cfg ec \<le> 0)"
    using assms(2) heartbeat_turns_schedule [OF assms, of cfg now]
      schedule_none_iff [of "heartbeat_interval cfg" "map (\<lambda>(ec, took). (took, turn_interval cfg ec)) turns" now]
    by (auto simp: heartbeat_loop_def new_ticker_def split: option.splits)
  then show ?thesis by (simp only: answer)
qed

definition demo_client :: "string \<Rightarrow> unit estuary_client" where
  "demo_client interval = \<lparr>new_request = (\<lambda>u. None), do_post = (\<lambda>u a. Inr (200, ())), read_all = (\<lambda>b. ([], None)),
     decode_heartbeat = (\<lambda>b. Inr \<lparr>hr_advertise_interval = interval, hr_error = JsonNull\<rparr>),
     err_text = (\<lambda>e. []), float_frac = (\<lambda>f sc u. f * u div sc)\<rparr>"

lemma demo_durations:
  "parse_duration (\<lambda>f sc u. f * u div sc) ''2m0.5s'' = Inr 120500000000"
  "parse_duration (\<lambda>f sc u. f * u div sc) ''0s'' = Inr 0"
  by (simp_all add: parse_duration_def duration_parts.simps duration_part_def is_digit_def digit_value_def unit_map_def)

lemma demo_interval:
  "turn_interval default_config (demo_client ''2m0.5s'') = 60250000000"
  by (simp add: turn_interval_def send_estuary_heartbeat_def demo_client_def reports_error_def demo_durations half_duration_def
      signed_divide_int_def)

lemma demo_heartbeat: "heartbeat_interval default_config = 15000000000"
  by (simp add: default_config_def duration_defs)

lemma heartbeat_follows_schedule_witness:
  "heartbeat_loop default_config [(demo_client ''2m0.5s'', 20 * second), (demo_client ''2m0.5s'', second)] 0 =
     Returns [0, 20000000000, 81250000000]"
  using heartbeat_follows_schedule [of "[(demo_client ''2m0.5s'', 20 * second), (demo_client ''2m0.5s'', second)]" default_config 0]
  by (simp add: demo_interval demo_heartbeat duration_defs)

lemma heartbeat_panics_iff_witness:
  "\<exists>m. heartbeat_loop default_config [(demo_client ''0s'', second)] 0 = Panics m"
proof -
  have "\<forall>(ec, took) \<in> set [(demo_client ''0s'', second)]. 0 \<le> took" by (simp add: duration_defs)
  moreover have "0 < heartbeat_interval default_config" by (simp add: demo_heartbeat)
  ultimately show ?thesis
    by (subst heartbeat_panics_iff) (simp_all add: demo_client_def reports_error_def demo_durations)
qed

end
