(* ===== verification/Go_Files.thy ===== *)
theory Go_Files
  imports Go_Paths
begin

text \<open>
  What the code uses of the package \<open>os\<close>: a file system is a map from places (cleaned paths) to nodes.
  What can fail outside the program is the record \<open>os_env\<close>: the error an operation meets on a
  path, what a failed write leaves behind, the process's umask, and the order in which a directory
  is read.
\<close>

unbundle bit_operations_syntax

section \<open>Files\<close>

type_synonym place = "bool \<times> string list"
type_synonym file_mode = "32 word"

datatype node = File file_mode bytes | Directory file_mode

fun node_mode :: "node \<Rightarrow> file_mode" where
  "node_mode (File m d) = m"
| "node_mode (Directory m) = m"

type_synonym fs = "place \<rightharpoonup> node"

datatype os_op = OpStat | OpMkdir | OpOpen | OpRead | OpReaddir | OpWrite | OpRemove

record os_env =
  os_fault :: "os_op \<Rightarrow> string \<Rightarrow> go_error option"
  os_torn :: "string \<Rightarrow> bytes option"
  os_umask :: file_mode
  os_order :: "string \<Rightarrow> string list"

definition parent_of :: "place \<Rightarrow> place" where
  "parent_of pl = (fst pl, butlast (snd pl))"

definition is_directory :: "fs \<Rightarrow> place \<Rightarrow> bool" where
  "is_directory fs pl = (case fs pl of Some (Directory m) \<Rightarrow> True | _ \<Rightarrow> False)"

definition children :: "fs \<Rightarrow> place \<Rightarrow> string set" where
  "children fs pl = {n. (fst pl, snd pl @ [n]) \<in> dom fs}"

definition os_stat :: "os_env \<Rightarrow> fs \<Rightarrow> string \<Rightarrow> go_error + file_mode" where
  "os_stat oe fs p =
     (case os_fault oe OpStat p of
        Some e \<Rightarrow> Inl e
      | None \<Rightarrow> (case fs (resolve p) of None \<Rightarrow> Inl NotExist | Some n \<Rightarrow> Inr (node_mode n)))"

definition os_mkdir :: "os_env \<Rightarrow> string \<Rightarrow> file_mode \<Rightarrow> fs \<Rightarrow> go_error option \<times> fs" where
  "os_mkdir oe p m fs =
     (if resolve p \<in> dom fs then (Some (Msg ''file exists''), fs)
      else if \<not> is_directory fs (parent_of (resolve p)) then (Some NotExist, fs)
      else case os_fault oe OpMkdir p of
             Some e \<Rightarrow> (Some e, fs)
           | None \<Rightarrow> (None, fs(resolve p \<mapsto> Directory (m AND NOT (os_umask oe)))))"

text \<open>\<open>MkdirAll\<close> makes every directory on the way that is missing.\<close>

fun mkdir_places :: "place \<Rightarrow> place list" where
  "mkdir_places (r, cs) = map (\<lambda>i. (r, take i cs)) [0..<Suc (length cs)]"

definition os_mkdir_all :: "os_env \<Rightarrow> string \<Rightarrow> file_mode \<Rightarrow> fs \<Rightarrow> go_error option \<times> fs" where
  "os_mkdir_all oe p m fs =
     (if \<exists>pl \<in> set (mkdir_places (resolve p)). pl \<in> dom fs \<and> \<not> is_directory fs pl
      then (Some (Msg ''not a directory''), fs)
      else case os_fault oe OpMkdir p of
             Some e \<Rightarrow> (Some e, fs)
           | None \<Rightarrow>
               (None, fold (\<lambda>pl f. if pl \<in> dom f then f else f(pl \<mapsto> Directory (m AND NOT (os_umask oe))))
                        (mkdir_places (resolve p)) fs))"

definition os_read_file :: "os_env \<Rightarrow> fs \<Rightarrow> string \<Rightarrow> go_error + bytes" where
  "os_read_file oe fs p =
     (case os_fault oe OpRead p of
        Some e \<Rightarrow> Inl e
      | None \<Rightarrow>
          (case fs (resolve p) of
             None \<Rightarrow> Inl NotExist
           | Some (Directory m) \<Rightarrow> Inl (Msg ''is a directory'')
           | Some (File m d) \<Rightarrow> Inr d))"

text \<open>A write creates the file with the mode given, or truncates an existing one and keeps its mode.\<close>

definition put_node :: "os_env \<Rightarrow> string \<Rightarrow> file_mode \<Rightarrow> bytes \<Rightarrow> fs \<Rightarrow> fs" where
  "put_node oe p m d fs =
     fs(resolve p \<mapsto> File (case fs (resolve p) of Some (File m' d') \<Rightarrow> m' | _ \<Rightarrow> m AND NOT (os_umask oe)) d)"

definition os_write_file :: "os_env \<Rightarrow> string \<Rightarrow> bytes \<Rightarrow> file_mode \<Rightarrow> fs \<Rightarrow> go_error option \<times> fs" where
  "os_write_file oe p d m fs =
     (if is_directory fs (resolve p) then (Some (Msg ''is a directory''), fs)
      else if \<not> is_directory fs (parent_of (resolve p)) then (Some NotExist, fs)
      else case os_fault oe OpWrite p of
             Some e \<Rightarrow> (Some e, case os_torn oe p of None \<Rightarrow> fs | Some t \<Rightarrow> put_node oe p m t fs)
           | None \<Rightarrow> (None, put_node oe p m d fs))"

text \<open>A file can be removed, and so can an empty directory.\<close>

definition os_remove :: "os_env \<Rightarrow> string \<Rightarrow> fs \<Rightarrow> go_error option \<times> fs" where
  "os_remove oe p fs =
     (case os_fault oe OpRemove p of
        Some e \<Rightarrow> (Some e, fs)
      | None \<Rightarrow>
          (case fs (resolve p) of
             None \<Rightarrow> (Some NotExist, fs)
           | Some n \<Rightarrow>
               if is_directory fs (resolve p) \<and> children fs (resolve p) \<noteq> {}
               then (Some (Msg ''directory not empty''), fs)
               else (None, fs(resolve p := None))))"

section \<open>What reading and writing have to do with each other\<close>

lemma write_then_read:
  "os_write_file oe p d m fs = (None, fs') \<Longrightarrow> os_fault oe' OpRead p = None \<Longrightarrow> os_read_file oe' fs' p = Inr d"
  by (auto simp: os_write_file_def os_read_file_def put_node_def split: if_splits option.splits)

lemma write_other:
  "os_write_file oe p d m fs = (r, fs') \<Longrightarrow> pl \<noteq> resolve p \<Longrightarrow> fs' pl = fs pl"
  by (auto simp: os_write_file_def put_node_def split: if_splits option.splits)

lemma read_same_place:
  "fs (resolve p) = fs' (resolve p) \<Longrightarrow> os_read_file oe fs p = os_read_file oe fs' p"
  by (simp add: os_read_file_def split: option.split)

lemma write_new_mode:
  "os_write_file oe p d m fs = (None, fs') \<Longrightarrow> fs (resolve p) = None \<Longrightarrow>
     fs' (resolve p) = Some (File (m AND NOT (os_umask oe)) d)"
  by (auto simp: os_write_file_def put_node_def split: if_splits option.splits)

end
