(* ===== verification/Peer_Key.thy ===== *)
theory Peer_Key
  imports Go_Files
begin

text \<open>
  The files in the data directory that src/autoretrieve.go reads on its own: the private key of the
  libp2p host, made at the first start (\<open>loadPeerKey\<close>), and the authorization of the event recorder
  (\<open>loadEventRecorderAuth\<close>). The key generator and the key codec are parameters; a key is an
  interface value, so a parameter may give \<open>nil\<close>.
\<close>

section \<open>Loading\<close>

record 'k key_lib =
  generate_key :: "go_error + 'k option"
  marshal_private :: "'k option \<Rightarrow> go_error + bytes"
  unmarshal_private :: "bytes \<Rightarrow> go_error + 'k option"

definition peer_key_path :: "string \<Rightarrow> string" where
  "peer_key_path dir = path_join [dir, ''peerkey'']"

definition load_peer_key :: "'k key_lib \<Rightarrow> os_env \<Rightarrow> string \<Rightarrow> fs \<Rightarrow> (go_error + 'k) outcome \<times> fs" where
  "load_peer_key kl oe dir fs =
     (let kp = peer_key_path dir;
          check = (\<lambda>key. case key of None \<Rightarrow> Panics ''sanity check: peer key is uninitialized'' | Some k \<Rightarrow> Returns (Inr k))
      in case os_read_file oe fs kp of
           Inl e \<Rightarrow>
             if e \<noteq> NotExist then (Returns (Inl e), fs)
             else (case generate_key kl of
                     Inl e' \<Rightarrow> (Returns (Inl e'), fs)
                   | Inr key \<Rightarrow>
                  (case marshal_private kl key of
                     Inl e' \<Rightarrow> (Returns (Inl e'), fs)
                   | Inr data \<Rightarrow>
                  (case os_write_file oe kp data 0x180 fs of
                     (Some e', fs') \<Rightarrow> (Returns (Inl e'), fs')
                   | (None, fs') \<Rightarrow> (check key, fs'))))
         | Inr data \<Rightarrow>
             (case unmarshal_private kl data of
                Inl e \<Rightarrow> (Returns (Inl e), fs)
              | Inr key \<Rightarrow> (check key, fs)))"

definition load_event_recorder_auth :: "os_env \<Rightarrow> fs \<Rightarrow> string \<Rightarrow> go_error + string" where
  "load_event_recorder_auth oe fs dir =
     (case os_read_file oe fs (path_join [dir, ''eventrecorderauth'']) of
        Inl e \<Rightarrow> if e \<noteq> NotExist then Inl e else Inr []
      | Inr data \<Rightarrow> Inr (trim_suffix data [CHR 0x0A]))"

section \<open>The key on disk\<close>

text \<open>The key that a data directory holds, and what the key codec promises: decoding gives back what was
  encoded, and no function gives \<open>nil\<close> without an error.\<close>

definition stored_key :: "'k key_lib \<Rightarrow> string \<Rightarrow> fs \<Rightarrow> 'k option" where
  "stored_key kl dir fs =
     (case fs (resolve (peer_key_path dir)) of
        Some (File m d) \<Rightarrow> (case unmarshal_private kl d of Inl e \<Rightarrow> None | Inr key \<Rightarrow> key)
      | _ \<Rightarrow> None)"

definition key_lib_ok :: "'k key_lib \<Rightarrow> bool" where
  "key_lib_ok kl \<longleftrightarrow>
     generate_key kl \<noteq> Inr None \<and> (\<forall>d. unmarshal_private kl d \<noteq> Inr None) \<and>
     (\<forall>key d. marshal_private kl key = Inr d \<longrightarrow> unmarshal_private kl d = Inr key)"

lemma load_no_panic: "key_lib_ok kl \<Longrightarrow> \<exists>r fs'. load_peer_key kl oe dir fs = (Returns r, fs')"
  by (auto simp: load_peer_key_def key_lib_ok_def Let_def split: sum.splits option.splits prod.splits)

lemma load_peer_key_stored:
  assumes "load_peer_key kl oe dir fs = (Returns (Inr k), fs')" and "key_lib_ok kl"
  shows "stored_key kl dir fs' = Some k"
  using assms
  by (auto simp: load_peer_key_def stored_key_def key_lib_ok_def Let_def os_read_file_def os_write_file_def put_node_def
      split: sum.splits option.splits if_splits node.splits)

lemma load_peer_key_other:
  "load_peer_key kl oe dir fs = (r, fs') \<Longrightarrow> pl \<noteq> resolve (peer_key_path dir) \<Longrightarrow> fs' pl = fs pl"
  by (auto simp: load_peer_key_def Let_def dest: write_other split: sum.splits option.splits if_splits prod.splits)

lemma load_stored_key:
  assumes "stored_key kl dir fs = Some k" and "os_fault oe OpRead (peer_key_path dir) = None"
  shows "load_peer_key kl oe dir fs = (Returns (Inr k), fs)"
  using assms
  by (auto simp: load_peer_key_def stored_key_def Let_def os_read_file_def split: sum.splits option.splits node.splits)

section \<open>Properties\<close>

text \<open>C30. The host keeps its identity. Once loading the peer key of a data directory has succeeded, every
  later load from a directory whose key file was not touched gives the same key and writes nothing,
  whatever keys a new generator would make; a key made by the first load is readable by its owner
  only; no load panics and no other file is changed. The key codec decodes what it encodes.\<close>

theorem peer_key_stable:
  assumes "key_lib_ok kl" and "load_peer_key kl oe dir fs = (Returns (Inr k), fs')"
    and "fs2 (resolve (peer_key_path dir)) = fs' (resolve (peer_key_path dir))"
    and "os_fault oe2 OpRead (peer_key_path dir) = None"
  shows "load_peer_key (kl\<lparr>generate_key := g, marshal_private := mp\<rparr>) oe2 dir fs2 = (Returns (Inr k), fs2) \<and>
     (fs (resolve (peer_key_path dir)) = None \<longrightarrow>
        (\<exists>d. fs' (resolve (peer_key_path dir)) = Some (File (0x180 AND NOT (os_umask oe)) d))) \<and>
     (\<forall>pl. pl \<noteq> resolve (peer_key_path dir) \<longrightarrow> fs' pl = fs pl)"
proof (intro conjI)
  let ?kl = "kl\<lparr>generate_key := g, marshal_private := mp\<rparr>"
  have "stored_key ?kl dir fs2 = stored_key kl dir fs'" using assms(3)
    by (simp add: stored_key_def split: option.split node.split)
  with load_peer_key_stored [OF assms(2,1)] have "stored_key ?kl dir fs2 = Some k" by simp
  then show "load_peer_key ?kl oe2 dir fs2 = (Returns (Inr k), fs2)" using assms(4) by (rule load_stored_key)
  show "fs (resolve (peer_key_path dir)) = None \<longrightarrow>
        (\<exists>d. fs' (resolve (peer_key_path dir)) = Some (File (0x180 AND NOT (os_umask oe)) d))"
    using assms(2) by (auto simp: load_peer_key_def Let_def os_read_file_def
        split: sum.splits option.splits if_splits prod.splits dest: write_new_mode)
  show "\<forall>pl. pl \<noteq> resolve (peer_key_path dir) \<longrightarrow> fs' pl = fs pl"
    using load_peer_key_other [OF assms(2)] by blast
qed

definition demo_key_lib :: "string key_lib" where
  "demo_key_lib = \<lparr>generate_key = Inr (Some ''new key''),
     marshal_private = (\<lambda>k. case k of None \<Rightarrow> Inl (Msg ''nil key'') | Some s \<Rightarrow> Inr s),
     unmarshal_private = (\<lambda>d. Inr (Some d))\<rparr>"

definition quiet_os :: os_env where
  "quiet_os = \<lparr>os_fault = (\<lambda>op p. None), os_torn = (\<lambda>p. None), os_umask = 0x12, os_order = (\<lambda>p. [])\<rparr>"

definition data_place :: place where "data_place = (True, [''data''])"

definition key_place_demo :: place where "key_place_demo = (True, [''data'', ''peerkey''])"

lemma resolve_demo_key: "resolve (peer_key_path ''/data'') = key_place_demo"
  by code_simp

lemma demo_first_load:
  "load_peer_key demo_key_lib quiet_os ''/data'' [data_place \<mapsto> Directory 0x1C0] =
     (Returns (Inr ''new key''), [data_place \<mapsto> Directory 0x1C0, key_place_demo \<mapsto> File 0x180 ''new key''])"
  by (simp add: load_peer_key_def demo_key_lib_def quiet_os_def os_read_file_def os_write_file_def put_node_def
      is_directory_def parent_of_def resolve_demo_key data_place_def key_place_demo_def Let_def)

lemma peer_key_stable_witness:
  "load_peer_key (demo_key_lib\<lparr>generate_key := Inr (Some ''other key'')\<rparr>) quiet_os ''/data''
       [data_place \<mapsto> Directory 0x1C0, key_place_demo \<mapsto> File 0x180 ''new key''] =
     (Returns (Inr ''new key''), [data_place \<mapsto> Directory 0x1C0, key_place_demo \<mapsto> File 0x180 ''new key''])"
proof -
  have "key_lib_ok demo_key_lib" by (auto simp: key_lib_ok_def demo_key_lib_def split: option.splits)
  note stable = peer_key_stable [OF this demo_first_load,
      of "[data_place \<mapsto> Directory 0x1C0, key_place_demo \<mapsto> File 0x180 ''new key'']"
        quiet_os "marshal_private demo_key_lib" "Inr (Some ''other key'')"]
  have "demo_key_lib\<lparr>generate_key := g, marshal_private := marshal_private demo_key_lib\<rparr> =
      demo_key_lib\<lparr>generate_key := g\<rparr>" for g :: "go_error + string option"
    by (simp add: demo_key_lib_def)
  with stable show ?thesis by (simp add: quiet_os_def)
qed

end
