(* ===== verification/Estuary_Registration.thy ===== *)
theory Estuary_Registration
  imports Estuary_Heartbeat Peer_Key
begin

text \<open>
  The command \<open>register-estuary\<close> (\<open>cmdRegisterEstuary\<close> in src/main.go): it finds the public address, takes or
  makes the peer key, registers both with Estuary in one request, and writes the answer into the
  configuration file. The state is the file system and the list of registration requests sent. The
  HTTP client, the JSON and YAML codecs and the key codec are parameters. What is printed is left out, and so
  is the content type of the form.
\<close>

section \<open>The command\<close>

record register_reply =
  rr_token :: string
  rr_advertise_interval :: string
  rr_error :: json_any

text \<open>A form request: its URL, its fields in order, and the authorization.\<close>

record form_request =
  fr_url :: string
  fr_fields :: "(string \<times> string) list"
  fr_authorization :: string

record ('k, 'b) register_env =
  re_get :: "string \<Rightarrow> go_error + 'b"
  re_decode_ip :: "'b \<Rightarrow> go_error + string"
  re_keys :: "'k key_lib"
  re_marshal_public :: "'k \<Rightarrow> go_error + bytes"
  re_encode_key :: "bytes \<Rightarrow> string"
  re_new_request :: "string \<Rightarrow> go_error option"
  re_do :: "form_request \<Rightarrow> go_error + int \<times> 'b"
  re_decode_reply :: "'b \<Rightarrow> go_error + register_reply"
  re_frac :: "nat \<Rightarrow> nat \<Rightarrow> nat \<Rightarrow> nat"
  re_text :: "go_error \<Rightarrow> string"
  re_yaml_apply :: "bytes \<Rightarrow> config \<Rightarrow> go_error option \<times> config"
  re_yaml_marshal :: "config \<Rightarrow> go_error + bytes"

definition registration_form :: "('k, 'b) register_env \<Rightarrow> string \<Rightarrow> string \<Rightarrow> string \<Rightarrow> bytes \<Rightarrow> form_request" where
  "registration_form re url token ip pub =
     \<lparr>fr_url = url @ ''/admin/autoretrieve/init'',
      fr_fields = [(''addresses'', ''/ip4/'' @ ip @ ''/tcp/6746''), (''pubKey'', re_encode_key re pub)],
      fr_authorization = ''Bearer '' @ token\<rparr>"

text \<open>The last part: the answer to the registration goes into the configuration file.\<close>

definition store_registration ::
  "('k, 'b) register_env \<Rightarrow> os_env \<Rightarrow> string \<Rightarrow> string \<Rightarrow> register_reply \<Rightarrow> fs \<Rightarrow> go_error option \<times> fs" where
  "store_registration re oe path url out fs =
     (case load_config (os_read_file oe fs) (re_yaml_apply re) path of
        (Some e, cfg) \<Rightarrow> (Some (Msg (''could not load config: '' @ re_text re e)), fs)
      | (None, cfg) \<Rightarrow>
          (let cfg1 = cfg\<lparr>estuary_url := url, advertise_token := rr_token out\<rparr>
           in case parse_duration (re_frac re) (rr_advertise_interval out) of
                Inl e \<Rightarrow> (Some (Msg (''could not parse advertisement interval: '' @ re_text re e)), fs)
              | Inr d \<Rightarrow>
                  (case write_config (re_yaml_marshal re) (\<lambda>p bs f. os_write_file oe p bs 0x1A4 f)
                          (cfg1\<lparr>heartbeat_interval := d\<rparr>) path fs of
                     (Some e, fs') \<Rightarrow> (Some (Msg (''failed to write config: '' @ re_text re e)), fs')
                   | (None, fs') \<Rightarrow> (None, fs'))))"

text \<open>The middle part: the request, and what is made of the answer.\<close>

definition do_registration ::
  "('k, 'b) register_env \<Rightarrow> form_request \<Rightarrow> (go_error + register_reply) \<times> form_request list" where
  "do_registration re form =
     (case re_new_request re (fr_url form) of
        Some e \<Rightarrow> (Inl (Msg (''building registration request failed: '' @ re_text re e)), [])
      | None \<Rightarrow>
          ((case re_do re form of
              Inl e \<Rightarrow> Inl (Msg (''registration request failed: '' @ re_text re e))
            | Inr (status, body) \<Rightarrow>
                if status \<noteq> 200
                then Inl (Msg (''registration request failed: expected status code 200 but got '' @ int_string status))
                else case re_decode_reply re body of
                       Inl e \<Rightarrow> Inl (Msg (''couldn'' @ CHR 0x27 # ''t decode response: '' @ re_text re e))
                     | Inr out \<Rightarrow>
                         if reports_error (rr_error out) then Inl (Msg (''registration failed: '' @ json_show (rr_error out)))
                         else Inr out), [form]))"

definition cmd_register_estuary ::
  "('k, 'b) register_env \<Rightarrow> os_env \<Rightarrow> cli \<Rightarrow> string \<Rightarrow> string \<Rightarrow> fs \<Rightarrow> go_error option outcome \<times> fs \<times> form_request list" where
  "cmd_register_estuary re oe cl url token fs =
     (if url = [] then (Returns (Some (Msg ''an Estuary endpoint URL is required (first argument)'')), fs, [])
      else if token = [] then (Returns (Some (Msg ''an Estuary admin token is required (second argument)'')), fs, [])
      else
     (case re_get re ''http://ip-api.com/json'' of
        Inl e \<Rightarrow> (Returns (Some (Msg (''could not get public ip: '' @ re_text re e))), fs, [])
      | Inr ipbody \<Rightarrow>
     (case re_decode_ip re ipbody of
        Inl e \<Rightarrow> (Returns (Some (Msg (''could not get public ip: '' @ re_text re e))), fs, [])
      | Inr ip \<Rightarrow>
     (case load_peer_key (re_keys re) oe (data_dir_path cl) fs of
        (Panics m, fs1) \<Rightarrow> (Panics m, fs1, [])
      | (Returns (Inl e), fs1) \<Rightarrow> (Returns (Some (Msg (''couldn'' @ CHR 0x27 # ''t get peer key: '' @ re_text re e))), fs1, [])
      | (Returns (Inr key), fs1) \<Rightarrow>
     (case re_marshal_public re key of
        Inl e \<Rightarrow> (Returns (Some (Msg (''couldn'' @ CHR 0x27 # ''t marshal peer public key: '' @ re_text re e))), fs1, [])
      | Inr pub \<Rightarrow>
     (case do_registration re (registration_form re url token ip pub) of
        (Inl e, sent) \<Rightarrow> (Returns (Some e), fs1, sent)
      | (Inr out, sent) \<Rightarrow>
          (case store_registration re oe (full_config_path cl) url out fs1 of
             (r, fs2) \<Rightarrow> (Returns r, fs2, sent))))))))"

section \<open>The files of the data directory\<close>

lemma data_dir_nonempty: "data_dir_path cl \<noteq> []"
  by (auto simp: data_dir_path_def path_join_def path_clean_def dot_def Let_def)

lemma simple_file_names: "simple_name ''config.yaml''" "simple_name ''peerkey''"
  by (simp_all add: simple_name_def dot_def dotdot_def slash_def)

lemma config_not_key: "resolve (full_config_path cl) \<noteq> resolve (peer_key_path (data_dir_path cl))"
  by (simp add: full_config_path_def peer_key_path_def resolve_join_simple data_dir_nonempty simple_file_names)

lemma write_config_cases:
  assumes "write_config ym (\<lambda>p bs f. os_write_file oe p bs m f) cfg path fs = (r, fs')"
  shows "(\<exists>e. r = Some e \<and> ym cfg = Inl e \<and> fs' = fs) \<or>
     (\<exists>bs. ym cfg = Inr bs \<and> os_write_file oe path bs m fs = (r, fs'))"
  using assms by (auto simp: write_config_def split: sum.splits)

lemma store_registration_ok:
  assumes "store_registration re oe path url out fs = (None, fs')"
  shows "\<exists>cfg d bs. load_config (os_read_file oe fs) (re_yaml_apply re) path = (None, cfg) \<and>
     parse_duration (re_frac re) (rr_advertise_interval out) = Inr d \<and>
     re_yaml_marshal re (cfg\<lparr>estuary_url := url, advertise_token := rr_token out, heartbeat_interval := d\<rparr>) = Inr bs \<and>
     os_write_file oe path bs 0x1A4 fs = (None, fs')"
  using assms
  by (auto simp: store_registration_def Let_def split: prod.splits option.splits sum.splits dest!: write_config_cases)

lemma store_registration_failed:
  assumes "store_registration re oe path url out fs = (Some e, fs')"
  shows "fs' = fs \<or> (\<exists>w bs. os_write_file oe path bs 0x1A4 fs = (Some w, fs') \<and> e = Msg (''failed to write config: '' @ re_text re w))"
  using assms
  by (auto simp: store_registration_def Let_def split: prod.splits option.splits sum.splits dest!: write_config_cases)

lemma load_config_same_file:
  "fs (resolve path) = fs' (resolve path) \<Longrightarrow>
     load_config (os_read_file oe fs) ya path = load_config (os_read_file oe fs') ya path"
  using read_same_place [of fs path fs' oe] by (simp add: load_config_def)

lemma do_registration_sent:
  "do_registration re form = (r, sent) \<Longrightarrow> sent = [] \<or> sent = [form]"
  "do_registration re form = (Inr out, sent) \<Longrightarrow> sent = [form]"
  by (auto simp: do_registration_def split: option.splits sum.splits if_splits prod.splits)

lemma do_registration_refused:
  "do_registration re form = (Inl e, sent) \<Longrightarrow> form' \<in> set sent \<Longrightarrow> do_registration re form' \<noteq> (Inr out, l)"
  using do_registration_sent(1) [of re form "Inl e" sent] by auto

text \<open>How a run of the command went: it stopped before or at the request, with at most the key file
  touched, or it got an answer and stored it.\<close>

lemma register_cases:
  assumes "cmd_register_estuary re oe cl url token fs = (Returns r, fs', sent)"
  obtains (stopped) e where "r = Some e" "fs' (resolve (full_config_path cl)) = fs (resolve (full_config_path cl))"
      "\<forall>form \<in> set sent. \<forall>out. do_registration re form \<noteq> (Inr out, [form])"
  | (answered) ip k fs1 pub out where "load_peer_key (re_keys re) oe (data_dir_path cl) fs = (Returns (Inr k), fs1)"
      "re_marshal_public re k = Inr pub"
      "do_registration re (registration_form re url token ip pub) = (Inr out, [registration_form re url token ip pub])"
      "store_registration re oe (full_config_path cl) url out fs1 = (r, fs')"
      "sent = [registration_form re url token ip pub]"
      "fs1 (resolve (full_config_path cl)) = fs (resolve (full_config_path cl))"
proof -
  have keep: "fs1 (resolve (full_config_path cl)) = fs (resolve (full_config_path cl))"
    if "load_peer_key (re_keys re) oe (data_dir_path cl) fs = (x, fs1)" for x fs1
    using that config_not_key [of cl] by (rule load_peer_key_other)
  show thesis
  proof (cases "\<exists>ip k fs1 pub out sent'. load_peer_key (re_keys re) oe (data_dir_path cl) fs = (Returns (Inr k), fs1) \<and>
      re_marshal_public re k = Inr pub \<and>
      do_registration re (registration_form re url token ip pub) = (Inr out, sent') \<and>
      store_registration re oe (full_config_path cl) url out fs1 = (r, fs') \<and> sent = sent'")
    case True
    then show thesis using answered keep do_registration_sent(2) by blast
  next
    case False
    then show thesis
      using assms
      by (auto simp: cmd_register_estuary_def split: if_splits sum.splits prod.splits outcome.splits
          dest: keep do_registration_refused intro!: stopped)
  qed
qed

section \<open>Properties\<close>

text \<open>C15. What a registration leaves behind. When the command succeeds it has sent exactly one form, with the public
  form of a key that every later load of the peer key gives back, so the host started afterwards is the
  one registered; the configuration file then holds the YAML form of the configuration that was loaded from it, with the
  URL, the token and the advertised interval of the answer put in; and no file but this and the key file is changed. When the command
  fails, at most one form was sent, and the configuration file is as it was, unless writing it failed.\<close>

theorem registration_correct:
  assumes "key_lib_ok (re_keys re)" and "cmd_register_estuary re oe cl url token fs = (Returns r, fs', sent)"
    and "\<forall>p. os_fault oe2 OpRead p = None"
  shows "(r = None \<longrightarrow> (\<exists>ip k pub out cfg d bs.
        sent = [registration_form re url token ip pub] \<and> re_marshal_public re k = Inr pub \<and>
        load_peer_key (re_keys re) oe2 (data_dir_path cl) fs' = (Returns (Inr k), fs') \<and>
        do_registration re (registration_form re url token ip pub) = (Inr out, sent) \<and>
        parse_duration (re_frac re) (rr_advertise_interval out) = Inr d \<and>
        load_config (os_read_file oe fs) (re_yaml_apply re) (full_config_path cl) = (None, cfg) \<and>
        re_yaml_marshal re (cfg\<lparr>estuary_url := url, advertise_token := rr_token out, heartbeat_interval := d\<rparr>) = Inr bs \<and>
        os_read_file oe2 fs' (full_config_path cl) = Inr bs \<and>
        (\<forall>pl. pl \<noteq> resolve (full_config_path cl) \<and> pl \<noteq> resolve (peer_key_path (data_dir_path cl)) \<longrightarrow> fs' pl = fs pl))) \<and>
     (\<forall>e. r = Some e \<longrightarrow> length sent \<le> 1 \<and>
        (fs' (resolve (full_config_path cl)) = fs (resolve (full_config_path cl)) \<or>
         (\<exists>w. e = Msg (''failed to write config: '' @ re_text re w))))"
  using assms(2)
proof (cases rule: register_cases)
  case (stopped e)
  moreover have "length sent \<le> 1"
    using assms(2) by (auto simp: cmd_register_estuary_def split: if_splits sum.splits prod.splits outcome.splits
        dest!: do_registration_sent(1))
  ultimately show ?thesis by simp
next
  case (answered ip k fs1 pub out)
  show ?thesis
  proof (cases r)
    case None
    with answered(4) obtain cfg d bs where stored:
      "load_config (os_read_file oe fs1) (re_yaml_apply re) (full_config_path cl) = (None, cfg)"
      "parse_duration (re_frac re) (rr_advertise_interval out) = Inr d"
      "re_yaml_marshal re (cfg\<lparr>estuary_url := url, advertise_token := rr_token out, heartbeat_interval := d\<rparr>) = Inr bs"
      "os_write_file oe (full_config_path cl) bs 0x1A4 fs1 = (None, fs')"
      using store_registration_ok by blast
    note other = write_other [OF stored(4)]
    from load_peer_key_stored [OF answered(1) assms(1)] other config_not_key [of cl]
    have "stored_key (re_keys re) (data_dir_path cl) fs' = Some k"
      by (simp add: stored_key_def not_sym)
    from load_stored_key [OF this] assms(3)
    have "load_peer_key (re_keys re) oe2 (data_dir_path cl) fs' = (Returns (Inr k), fs')" by blast
    moreover have "os_read_file oe2 fs' (full_config_path cl) = Inr bs" using write_then_read [OF stored(4)] assms(3) by blast
    ultimately show ?thesis
      using None answered(2,3,5) stored(1-3) other
        load_config_same_file [of fs1 "full_config_path cl" fs oe "re_yaml_apply re", OF answered(6)] load_peer_key_other [OF answered(1)]
      by (intro conjI impI exI [of _ ip] exI [of _ k] exI [of _ pub] exI [of _ out] exI [of _ cfg] exI [of _ d] exI [of _ bs]) auto
  next
    case (Some e)
    with answered(4) have "store_registration re oe (full_config_path cl) url out fs1 = (Some e, fs')" by simp
    from store_registration_failed [OF this] answered(5,6) Some show ?thesis by auto
  qed
qed

text \<open>A registration without a configuration file is lost. Starting the program without the file falls
  back to the defaults, but registering does not: when the file is missing the command always fails and
  leaves it missing, and when Estuary accepted the registration the one thing left of it, the
  token, is thrown away after the fact.\<close>

lemma registration_lost_without_config:
  assumes "cmd_register_estuary re oe cl url token fs = (Returns r, fs', sent)"
    and "fs (resolve (full_config_path cl)) = None" and "os_fault oe OpRead (full_config_path cl) = None"
  shows "r \<noteq> None \<and> fs' (resolve (full_config_path cl)) = None \<and>
     (\<forall>form out. sent = [form] \<and> do_registration re form = (Inr out, [form]) \<longrightarrow>
        r = Some (Msg (''could not load config: '' @ re_text re NotExist))) \<and>
     get_full_config (os_read_file oe fs) (re_yaml_apply re) cl = apply_cli_overrides cl default_config"
proof -
  have missing: "os_read_file oe g (full_config_path cl) = Inl NotExist" if "g (resolve (full_config_path cl)) = None" for g
    using that assms(3) by (simp add: os_read_file_def)
  have defaults: "get_full_config (os_read_file oe fs) (re_yaml_apply re) cl = apply_cli_overrides cl default_config"
    using missing [of fs] assms(2) by (simp add: get_full_config_def load_config_def errors_is_def)
  from assms(1) show ?thesis
  proof (cases rule: register_cases)
    case (stopped e)
    with assms(2) defaults show ?thesis by auto
  next
    case (answered ip k fs1 pub out)
    have "r = Some (Msg (''could not load config: '' @ re_text re NotExist)) \<and> fs' = fs1"
      using answered(4,6) missing [of fs1] assms(2) by (simp add: store_registration_def load_config_def)
    with answered(6) assms(2) defaults show ?thesis by simp
  qed
qed

section \<open>Concrete runs\<close>

definition demo_register :: "(string, unit) register_env" where
  "demo_register = \<lparr>re_get = (\<lambda>u. Inr ()), re_decode_ip = (\<lambda>b. Inr ''192.0.2.1''), re_keys = demo_key_lib,
     re_marshal_public = (\<lambda>k. Inr (''pub '' @ k)), re_encode_key = (\<lambda>d. d), re_new_request = (\<lambda>u. None),
     re_do = (\<lambda>f. Inr (200, ())),
     re_decode_reply = (\<lambda>b. Inr \<lparr>rr_token = ''tok'', rr_advertise_interval = ''2m0.5s'', rr_error = JsonNull\<rparr>),
     re_frac = (\<lambda>f sc u. f * u div sc), re_text = (\<lambda>e. ''error''),
     re_yaml_apply = (\<lambda>bs cfg. (None, cfg)), re_yaml_marshal = (\<lambda>cfg. Inr (''token: '' @ advertise_token cfg))\<rparr>"

definition register_cli :: cli where
  "register_cli = \<lparr>cl_data_dir = ''/data'', cl_lookup_type = None, cl_lookup_url = None, cl_routing_type = None,
     cl_disable_retrieval = None, cl_log_resources = None, cl_home = Inr ''/root''\<rparr>"

lemma register_paths:
  "resolve (full_config_path register_cli) = (True, [''data'', ''config.yaml''])" "data_dir_path register_cli = ''/data''"
  by code_simp+

definition register_fs :: "bytes option \<Rightarrow> fs" where
  "register_fs cfg = [data_place \<mapsto> Directory 0x1C0]((True, [''data'', ''config.yaml'']) := map_option (File 0x1A4) cfg)"

lemmas register_run = cmd_register_estuary_def demo_register_def register_paths load_peer_key_def demo_key_lib_def quiet_os_def
  os_read_file_def os_write_file_def put_node_def is_directory_def parent_of_def resolve_demo_key data_place_def
  key_place_demo_def register_fs_def do_registration_def registration_form_def reports_error_def
  store_registration_def load_config_def write_config_def demo_durations

lemma demo_registered:
  "\<exists>fs' form. cmd_register_estuary demo_register quiet_os register_cli ''https://e'' ''admin'' (register_fs (Some ''old'')) =
     (Returns None, fs', [form])"
  by (simp add: register_run)

lemma demo_unconfigured:
  "\<exists>r fs' form. cmd_register_estuary demo_register quiet_os register_cli ''https://e'' ''admin'' (register_fs None) =
     (Returns r, fs', [form])"
  by (simp add: register_run)

lemma demo_key_lib_ok: "key_lib_ok (re_keys demo_register)"
  by (auto simp: key_lib_ok_def demo_register_def demo_key_lib_def split: option.splits)

lemma registration_correct_witness:
  "\<exists>fs' form k. cmd_register_estuary demo_register quiet_os register_cli ''https://e'' ''admin'' (register_fs (Some ''old'')) =
     (Returns None, fs', [form]) \<and> load_peer_key (re_keys demo_register) quiet_os ''/data'' fs' = (Returns (Inr k), fs')"
proof -
  obtain fs' form where run: "cmd_register_estuary demo_register quiet_os register_cli ''https://e'' ''admin''
      (register_fs (Some ''old'')) = (Returns None, fs', [form])" using demo_registered by blast
  have "\<forall>p. os_fault quiet_os OpRead p = None" by (simp add: quiet_os_def)
  from registration_correct [OF demo_key_lib_ok run this] run show ?thesis
    by (simp add: register_paths) blast
qed

end
