(* ===== verification/Random_Pruner.thy ===== *)
theory Random_Pruner
  imports Blockstore Go_Strings
begin

text \<open>
  \<open>blocks.RandomPruner\<close> (src/blocks/randompruner.go): a blockstore wrapper that deletes random
  blocks when the tracked size reaches a threshold. Sizes are \<open>uint64\<close> values, words of 64 bits
  that wrap. The flatfs datastore's \<open>DiskUsage\<close> is the parameter \<open>du\<close>; the rest of the world of a
  prune operation (the clock, the context, the temporary file, the random numbers, the text form
  of identifiers) is the record \<open>prune_env\<close>.
\<close>

section \<open>Data\<close>

type_synonym u64 = "64 word"

record pruner_config =
  cfg_threshold :: u64
  cfg_prune_bytes :: u64
  cfg_pin_duration :: duration

record 's pruner =
  pstore :: 's
  threshold :: u64
  prune_bytes :: u64
  pin_duration :: duration
  psize :: u64
  last_size_update :: go_time
  pins :: "cid \<rightharpoonup> go_time"
  prune_lk :: bool

type_synonym 's disk_usage = "'s \<Rightarrow> go_error + u64"

section \<open>Operations\<close>

text \<open>
  \<open>Poll\<close>: refresh the tracked size when the last refresh is more than a minute ago, and start a prune
  goroutine when the size has reached the threshold and none is running. The result says
  whether one was started; it holds \<open>pruneLk\<close> until it ends.
\<close>

definition poll :: "'s disk_usage \<Rightarrow> go_time \<Rightarrow> 's pruner \<Rightarrow> 's pruner \<times> bool" where
  "poll du now p =
     (let p1 = (if minute < time_since now (last_size_update p)
                then (case du (pstore p) of Inl e \<Rightarrow> p | Inr sz \<Rightarrow> p\<lparr>psize := sz\<rparr>)
                else p)
      in if threshold p1 \<le> psize p1 \<and> \<not> prune_lk p1 then (p1\<lparr>prune_lk := True\<rparr>, True) else (p1, False))"

text \<open>\<open>NewRandomPruner\<close>, up to the first poll; a goroutine then polls every ten seconds.\<close>

definition new_pruner ::
  "'s disk_usage \<Rightarrow> go_time \<Rightarrow> 's \<Rightarrow> pruner_config \<Rightarrow> go_error + 's pruner \<times> bool" where
  "new_pruner du now s cfg =
     (let pb = (if cfg_prune_bytes cfg = 0 then cfg_threshold cfg div 2 else cfg_prune_bytes cfg);
          pb' = (if pb < cfg_threshold cfg then cfg_threshold cfg else pb)
      in case du s of
           Inl e \<Rightarrow> Inl e
         | Inr sz \<Rightarrow> Inr (poll du now
             \<lparr>pstore = s, threshold = cfg_threshold cfg, prune_bytes = pb',
              pin_duration = cfg_pin_duration cfg, psize = sz, last_size_update = zero_time,
              pins = Map.empty, prune_lk = False\<rparr>))"

text \<open>\<open>updatePin\<close>. The code parses the bytes of the identifier again to get a copy; that panics only for the undefined
  identifier, which no block has, and gives the identifier otherwise.\<close>

definition update_pin :: "go_time \<Rightarrow> cid \<Rightarrow> 's pruner \<Rightarrow> 's pruner" where
  "update_pin now c p = p\<lparr>pins := (pins p)(c \<mapsto> now)\<rparr>"

definition is_pinned :: "go_time \<Rightarrow> cid \<Rightarrow> 's pruner \<Rightarrow> bool \<times> 's pruner" where
  "is_pinned now c p =
     (case pins p c of
        None \<Rightarrow> (False, p)
      | Some last_use \<Rightarrow>
          if time_since now last_use < pin_duration p then (True, p)
          else (False, p\<lparr>pins := (pins p)(c := None)\<rparr>))"

definition pruner_delete :: "'s blockstore \<Rightarrow> cid \<Rightarrow> 's pruner \<Rightarrow> go_error option \<times> 's pruner" where
  "pruner_delete bs c p =
     (case bs_get_size bs (pstore p) c of
        Inl e \<Rightarrow> (Some e, p)
      | Inr n \<Rightarrow>
          (case bs_delete bs (pstore p) c of
             (Some e, s') \<Rightarrow> (Some e, p\<lparr>pstore := s'\<rparr>)
           | (None, s') \<Rightarrow> (None, p\<lparr>pstore := s', psize := psize p - word_of_int n\<rparr>)))"

definition pruner_put ::
  "'s blockstore \<Rightarrow> 's disk_usage \<Rightarrow> go_time \<Rightarrow> block \<Rightarrow> 's pruner \<Rightarrow> go_error option \<times> 's pruner \<times> bool" where
  "pruner_put bs du now b p =
     (let (p1, started) = poll du now (update_pin now (blk_cid b) p)
      in case bs_put bs (pstore p1) b of
           (Some e, s') \<Rightarrow> (Some e, p1\<lparr>pstore := s'\<rparr>, started)
         | (None, s') \<Rightarrow>
             (None, p1\<lparr>pstore := s', psize := psize p1 + word_of_nat (length (raw_data b))\<rparr>, started))"

definition pruner_put_many ::
  "'s blockstore \<Rightarrow> 's disk_usage \<Rightarrow> go_time \<Rightarrow> block list \<Rightarrow> 's pruner \<Rightarrow>
   go_error option \<times> 's pruner \<times> bool" where
  "pruner_put_many bs du now blks p =
     (let (p0, blocks_size) =
            fold (\<lambda>b (p, n). (update_pin now (blk_cid b) p, n + int (length (raw_data b)))) blks (p, 0);
          (p1, started) = poll du now p0
      in case bs_put_many bs (pstore p1) blks of
           (Some e, s') \<Rightarrow> (Some e, p1\<lparr>pstore := s'\<rparr>, started)
         | (None, s') \<Rightarrow> (None, p1\<lparr>pstore := s', psize := psize p1 + word_of_int blocks_size\<rparr>, started))"

text \<open>The wrapper as a blockstore: the operations it overrides, and the embedded ones.\<close>

definition pruner_blockstore ::
  "'s blockstore \<Rightarrow> 's disk_usage \<Rightarrow> go_time \<Rightarrow> 's pruner blockstore" where
  "pruner_blockstore bs du now =
     \<lparr>bs_has = (\<lambda>p. bs_has bs (pstore p)),
      bs_get = (\<lambda>p. bs_get bs (pstore p)),
      bs_get_size = (\<lambda>p. bs_get_size bs (pstore p)),
      bs_put = (\<lambda>p b. case pruner_put bs du now b p of (r, p', started) \<Rightarrow> (r, p')),
      bs_put_many = (\<lambda>p blks. case pruner_put_many bs du now blks p of (r, p', started) \<Rightarrow> (r, p')),
      bs_delete = (\<lambda>p c. pruner_delete bs c p),
      bs_all_keys = (\<lambda>p. bs_all_keys bs (pstore p))\<rparr>"

section \<open>The prune operation\<close>

text \<open>
  \<open>pe_clock k\<close> and \<open>pe_ctx k\<close> are the clock and the context's error at the \<open>k\<close>-th check,
  \<open>pe_rand k\<close> the \<open>k\<close>-th \<open>rand.Int()\<close>, \<open>pe_write k\<close> and \<open>pe_seek k\<close> the errors of writing to
  and seeking in the temporary file, and \<open>pe_disk\<close> what of the written text is in the file
  after the unchecked flush.
\<close>

record prune_env =
  pe_clock :: "nat \<Rightarrow> go_time"
  pe_ctx :: "nat \<Rightarrow> go_error option"
  pe_create :: "go_error option"
  pe_write :: "nat \<Rightarrow> go_error option"
  pe_disk :: "string \<Rightarrow> string"
  pe_seek :: "nat \<Rightarrow> go_error option"
  pe_rand :: "nat \<Rightarrow> nat"
  pe_string :: "cid \<Rightarrow> string"
  pe_parse :: "string \<Rightarrow> go_error + cid"

definition newline :: char where "newline = CHR 0x0A"

definition cid_pad_length :: nat where "cid_pad_length = 64"

definition line_offset :: "nat \<Rightarrow> nat" where "line_offset i = (cid_pad_length + 1) * i"

definition candidate_line :: "prune_env \<Rightarrow> cid \<Rightarrow> string" where
  "candidate_line pe c = pad_right cid_pad_length (pe_string pe c) @ [newline]"

text \<open>The listing loop: the text written, the number of candidates, and the pruner without expired pins.\<close>

fun write_candidates ::
  "prune_env \<Rightarrow> nat \<Rightarrow> cid list \<Rightarrow> string \<Rightarrow> nat \<Rightarrow> 's pruner \<Rightarrow>
   (go_error + string \<times> nat) \<times> 's pruner" where
  "write_candidates pe k [] doc n p = (Inr (doc, n), p)"
| "write_candidates pe k (c # cs) doc n p =
     (case pe_ctx pe k of
        Some e \<Rightarrow> (Inl e, p)
      | None \<Rightarrow>
          (let (pinned, p') = is_pinned (pe_clock pe k) c p
           in if pinned then write_candidates pe (Suc k) cs doc n p'
              else case pe_write pe k of
                     Some e \<Rightarrow> (Inl (Wrapped ''failed to write cid to tmp file'' e), p')
                   | None \<Rightarrow> write_candidates pe (Suc k) cs (doc @ candidate_line pe c) (Suc n) p'))"

text \<open>Seek to a byte offset and scan one line, without its newline; nothing is there past the end.\<close>

definition line_at :: "string \<Rightarrow> nat \<Rightarrow> string" where
  "line_at doc off = takeWhile (\<lambda>c. c \<noteq> newline) (drop off doc)"

datatype 's prune_step =
    Stop "go_error option" u64 "'s pruner"
  | Again u64 nat "'s pruner"

text \<open>One iteration of the removal loop, from the context check on.\<close>

definition prune_iter ::
  "'s blockstore \<Rightarrow> prune_env \<Rightarrow> string \<Rightarrow> nat \<Rightarrow> nat \<Rightarrow> u64 \<Rightarrow> nat \<Rightarrow> 's pruner \<Rightarrow> 's prune_step" where
  "prune_iter bs pe doc cid_count k pruned nf p =
     (case pe_ctx pe k of
        Some e \<Rightarrow> Stop (Some e) pruned p
      | None \<Rightarrow>
     (case pe_seek pe k of
        Some e \<Rightarrow> Stop (Some (Wrapped ''failed to seek back to start of tmp file'' e)) pruned p
      | None \<Rightarrow>
     (case pe_parse pe (trim_space (line_at doc (line_offset (pe_rand pe k mod cid_count)))) of
        Inl e \<Rightarrow> Again pruned nf p
      | Inr c \<Rightarrow>
     (case bs_get_size bs (pstore p) c of
        Inl e \<Rightarrow>
          if is_not_found e
          then (if 10 < Suc nf then Stop None pruned p else Again pruned (Suc nf) p)
          else Stop (Some e) pruned p
      | Inr n \<Rightarrow>
     (case pruner_delete bs c p of
        (Some e, p') \<Rightarrow> Stop (Some e) pruned p'
      | (None, p') \<Rightarrow> Again (pruned + word_of_int n) 0 p')))))"

text \<open>
  The loop may not end in general, so it takes fuel: \<open>None\<close> means that the fuel ran out. The
  result is the error, the number of bytes pruned and the pruner.
\<close>

fun prune_loop ::
  "'s blockstore \<Rightarrow> prune_env \<Rightarrow> string \<Rightarrow> nat \<Rightarrow> u64 \<Rightarrow> nat \<Rightarrow> nat \<Rightarrow> u64 \<Rightarrow> nat \<Rightarrow> 's pruner \<Rightarrow>
   (go_error option \<times> u64 \<times> 's pruner) option" where
  "prune_loop bs pe doc cid_count target 0 k pruned nf p =
     (if pruned < target then None else Some (None, pruned, p))"
| "prune_loop bs pe doc cid_count target (Suc fuel) k pruned nf p =
     (if pruned < target then
        (case prune_iter bs pe doc cid_count k pruned nf p of
           Stop r pruned' p' \<Rightarrow> Some (r, pruned', p')
         | Again pruned' nf' p' \<Rightarrow> prune_loop bs pe doc cid_count target fuel (Suc k) pruned' nf' p')
      else Some (None, pruned, p))"

definition prune ::
  "'s blockstore \<Rightarrow> prune_env \<Rightarrow> u64 \<Rightarrow> nat \<Rightarrow> 's pruner \<Rightarrow> (go_error option \<times> u64 \<times> 's pruner) option" where
  "prune bs pe target fuel p =
     (case bs_all_keys bs (pstore p) of
        Inl e \<Rightarrow> Some (Some e, 0, p)
      | Inr cs \<Rightarrow>
     (case pe_create pe of
        Some e \<Rightarrow> Some (Some e, 0, p)
      | None \<Rightarrow>
     (case write_candidates pe 0 cs [] 0 p of
        (Inl e, p') \<Rightarrow> Some (Some e, 0, p')
      | (Inr (doc, n), p') \<Rightarrow>
          if n = 0 then Some (None, 0, p')
          else prune_loop bs pe (pe_disk pe doc) n target fuel (length cs) 0 0 p')))"

text \<open>The goroutine that \<open>Poll\<close> starts: prune, log an error, release the lock.\<close>

definition prune_goroutine ::
  "'s blockstore \<Rightarrow> prune_env \<Rightarrow> nat \<Rightarrow> 's pruner \<Rightarrow> 's pruner option" where
  "prune_goroutine bs pe fuel p =
     map_option (\<lambda>(r, n, p'). p'\<lparr>prune_lk := False\<rparr>) (prune bs pe (prune_bytes p) fuel p)"

section \<open>What the operations touch\<close>

lemma poll_sel [simp]:
  "pstore (fst (poll du now p)) = pstore p"
  "threshold (fst (poll du now p)) = threshold p"
  "prune_bytes (fst (poll du now p)) = prune_bytes p"
  "pin_duration (fst (poll du now p)) = pin_duration p"
  "last_size_update (fst (poll du now p)) = last_size_update p"
  "pins (fst (poll du now p)) = pins p"
  by (simp_all add: poll_def Let_def split: sum.splits)

lemma update_pin_sel [simp]:
  "pstore (update_pin now c p) = pstore p"
  "threshold (update_pin now c p) = threshold p"
  "prune_bytes (update_pin now c p) = prune_bytes p"
  "pin_duration (update_pin now c p) = pin_duration p"
  "psize (update_pin now c p) = psize p"
  "last_size_update (update_pin now c p) = last_size_update p"
  "prune_lk (update_pin now c p) = prune_lk p"
  "pins (update_pin now c p) = (pins p)(c \<mapsto> now)"
  by (simp_all add: update_pin_def)

lemma is_pinned_sel [simp]:
  "pstore (snd (is_pinned now c p)) = pstore p"
  "threshold (snd (is_pinned now c p)) = threshold p"
  "prune_bytes (snd (is_pinned now c p)) = prune_bytes p"
  "pin_duration (snd (is_pinned now c p)) = pin_duration p"
  "psize (snd (is_pinned now c p)) = psize p"
  "last_size_update (snd (is_pinned now c p)) = last_size_update p"
  "prune_lk (snd (is_pinned now c p)) = prune_lk p"
  by (simp_all add: is_pinned_def split: option.splits)

lemma is_pinned_fst:
  "fst (is_pinned now c p) \<longleftrightarrow> (\<exists>t. pins p c = Some t \<and> time_since now t < pin_duration p)"
  by (simp add: is_pinned_def split: option.splits)

text \<open>A check forgets a pin only when it has expired.\<close>

lemma is_pinned_keeps:
  "pins p c' = Some t \<Longrightarrow> (c' = c \<Longrightarrow> time_since now t < pin_duration p) \<Longrightarrow>
     pins (snd (is_pinned now c p)) c' = Some t"
  by (auto simp: is_pinned_def split: option.splits)

lemma fold_update_pin_sel:
  "fold (\<lambda>b (p, n). (update_pin now (blk_cid b) p, n + int (length (raw_data b)))) blks (p, n) =
     (fold (\<lambda>b. update_pin now (blk_cid b)) blks p, n + (\<Sum>b \<leftarrow> blks. int (length (raw_data b))))"
  by (induction blks arbitrary: p n) simp_all

lemma fold_update_pin_frame [simp]:
  "pstore (fold (\<lambda>b. update_pin now (blk_cid b)) blks p) = pstore p"
  "psize (fold (\<lambda>b. update_pin now (blk_cid b)) blks p) = psize p"
  "prune_lk (fold (\<lambda>b. update_pin now (blk_cid b)) blks p) = prune_lk p"
  "threshold (fold (\<lambda>b. update_pin now (blk_cid b)) blks p) = threshold p"
  "prune_bytes (fold (\<lambda>b. update_pin now (blk_cid b)) blks p) = prune_bytes p"
  "pin_duration (fold (\<lambda>b. update_pin now (blk_cid b)) blks p) = pin_duration p"
  "last_size_update (fold (\<lambda>b. update_pin now (blk_cid b)) blks p) = last_size_update p"
  by (induction blks arbitrary: p) simp_all

text \<open>A put hands the block to the wrapped store, whatever the poll before it decides.\<close>

lemma pruner_put_store:
  "pruner_put bs du now b p = (r, p', started) \<Longrightarrow> bs_put bs (pstore p) b = (r, pstore p')"
  by (cases "bs_put bs (pstore p) b")
    (auto simp: pruner_put_def Let_def case_prod_beta split: option.splits)

lemma pruner_put_many_store:
  "pruner_put_many bs du now blks p = (r, p', started) \<Longrightarrow> bs_put_many bs (pstore p) blks = (r, pstore p')"
  by (cases "bs_put_many bs (pstore p) blks")
    (auto simp: pruner_put_many_def fold_update_pin_sel Let_def case_prod_beta split: option.splits)

section \<open>The wrapper keeps the contract\<close>

context block_store
begin

lemma pruner_delete_ok:
  assumes "pruner_delete bs c p = (None, p')"
  shows "contents (pstore p') = (contents (pstore p))(c := None)"
    and "\<exists>d. contents (pstore p) c = Some d \<and> psize p' = psize p - word_of_nat (length d)"
  using assms get_size_found
  by (fastforce simp: pruner_delete_def delete_ok split: sum.splits prod.splits option.splits)+

lemma pruner_delete_failed:
  "pruner_delete bs c p = (Some e, p') \<Longrightarrow>
     contents (pstore p') = contents (pstore p) \<and> psize p' = psize p"
  by (auto simp: pruner_delete_def dest: delete_failed split: sum.splits prod.splits option.splits)

end

locale pruned_store = block_store bs contents
  for bs :: "'s blockstore" and contents :: "'s \<Rightarrow> store_contents" +
  fixes du :: "'s disk_usage" and now :: go_time
begin

abbreviation pcontents :: "'s pruner \<Rightarrow> store_contents" where
  "pcontents p \<equiv> contents (pstore p)"

end

sublocale pruned_store \<subseteq> wrapper: block_store "pruner_blockstore bs du now" "\<lambda>p. contents (pstore p)"
proof (unfold_locales, goal_cases)
  case (1 p c n)
  then show ?case by (simp add: pruner_blockstore_def get_size_found)
next
  case (2 p c e)
  then show ?case by (simp add: pruner_blockstore_def get_size_missing)
next
  case (3 p c r)
  then show ?case using has_found [of "pstore p" c r] by (simp add: pruner_blockstore_def)
next
  case (4 p c b)
  then show ?case by (simp add: pruner_blockstore_def get_found)
next
  case (5 p)
  show ?case by (rule finite_contents)
next
  case (6 p b p')
  then show ?case
    by (auto simp: pruner_blockstore_def split: prod.splits dest!: pruner_put_store put_ok)
next
  case (7 p b e p')
  then show ?case
    by (auto simp: pruner_blockstore_def split: prod.splits dest!: pruner_put_store put_failed)
next
  case (8 p blks p')
  then show ?case
    by (auto simp: pruner_blockstore_def split: prod.splits dest!: pruner_put_many_store put_many_ok)
next
  case (9 p blks e p')
  then show ?case
    by (auto simp: pruner_blockstore_def split: prod.splits dest!: pruner_put_many_store put_many_failed)
next
  case (10 p c p')
  then show ?case by (simp add: pruner_blockstore_def pruner_delete_ok)
next
  case (11 p c e p')
  then show ?case by (simp add: pruner_blockstore_def pruner_delete_failed)
next
  case (12 p cs)
  then show ?case by (simp add: pruner_blockstore_def all_keys)
qed

definition mem_usage :: "mem_store disk_usage" where
  "mem_usage s = Inr (word_of_nat (\<Sum>(c, d) \<leftarrow> s. length d))"

interpretation mem_pruned: pruned_store mem_blockstore map_of mem_usage now for now
  by unfold_locales

section \<open>The candidate file\<close>

text \<open>What the code needs of the text form of the listed identifiers: printable, at most one field
  wide, and parsed back.\<close>

definition codec_ok :: "prune_env \<Rightarrow> cid list \<Rightarrow> bool" where
  "codec_ok pe cs \<longleftrightarrow> (\<forall>c \<in> set cs. pe_string pe c \<noteq> [] \<and> list_all plain_char (pe_string pe c) \<and>
     length (pe_string pe c) \<le> cid_pad_length \<and> pe_parse pe (pe_string pe c) = Inr c)"

lemma codec_ok_subset: "set cs' \<subseteq> set cs \<Longrightarrow> codec_ok pe cs \<Longrightarrow> codec_ok pe cs'"
  by (auto simp: codec_ok_def)

definition candidate_text :: "prune_env \<Rightarrow> cid list \<Rightarrow> string" where
  "candidate_text pe cs = concat (map (candidate_line pe) cs)"

lemma length_candidate_line:
  "length (pe_string pe c) \<le> cid_pad_length \<Longrightarrow> length (candidate_line pe c) = cid_pad_length + 1"
  by (simp add: candidate_line_def)

lemma drop_concat_lines:
  "\<forall>x \<in> set xs. length (f x) = n \<Longrightarrow> i \<le> length xs \<Longrightarrow>
     drop (n * i) (concat (map f xs)) = concat (map f (drop i xs))"
proof (induction xs arbitrary: i)
  case Nil
  then show ?case by simp
next
  case (Cons x xs)
  then show ?case by (cases i) (simp_all add: algebra_simps)
qed

lemma newline_not_plain: "plain_char c \<Longrightarrow> c \<noteq> newline"
  by (auto simp: plain_char_def newline_def)

lemma takeWhile_line:
  "list_all plain_char s \<Longrightarrow> takeWhile (\<lambda>c. c \<noteq> newline) (pad_right n s @ newline # rest) = pad_right n s"
  by (subst takeWhile_append2)
    (auto simp: pad_right_def list_all_iff newline_not_plain newline_def dest: newline_not_plain)

lemma line_at_candidate:
  assumes "codec_ok pe cs" and "i < length cs"
  shows "line_at (candidate_text pe cs) (line_offset i) =
     pad_right cid_pad_length (pe_string pe (cs ! i))"
proof -
  have c: "cs ! i \<in> set cs" using assms(2) by simp
  have "drop (line_offset i) (candidate_text pe cs) = concat (map (candidate_line pe) (drop i cs))"
    unfolding candidate_text_def line_offset_def using assms
    by (intro drop_concat_lines) (auto simp: codec_ok_def length_candidate_line)
  also have "\<dots> = pad_right cid_pad_length (pe_string pe (cs ! i)) @
      newline # concat (map (candidate_line pe) (drop (Suc i) cs))"
    using assms(2) by (simp add: Cons_nth_drop_Suc [symmetric] candidate_line_def)
  finally show ?thesis
    using assms(1) c by (simp add: line_at_def takeWhile_line codec_ok_def)
qed

lemma parse_candidate:
  assumes "codec_ok pe cs" and "i < length cs"
  shows "pe_parse pe (trim_space (line_at (candidate_text pe cs) (line_offset i))) = Inr (cs ! i)"
proof -
  have "cs ! i \<in> set cs" using assms(2) by simp
  then show ?thesis
    unfolding line_at_candidate [OF assms] using assms(1)
    by (simp add: codec_ok_def trim_space_pad_right)
qed

text \<open>The identifiers whose pin holds at every check of the listing.\<close>

definition held_pin :: "prune_env \<Rightarrow> 's pruner \<Rightarrow> cid \<Rightarrow> bool" where
  "held_pin pe p c \<longleftrightarrow>
     (\<exists>t. pins p c = Some t \<and> (\<forall>k. time_since (pe_clock pe k) t < pin_duration p))"

lemma held_pin_check: "held_pin pe p c \<Longrightarrow> held_pin pe (snd (is_pinned (pe_clock pe k) c' p)) c"
  by (auto simp: held_pin_def intro!: is_pinned_keeps)

lemma write_candidates_result:
  "write_candidates pe k cs doc n p = (r, p') \<Longrightarrow>
     pstore p' = pstore p \<and> psize p' = psize p \<and>
     (\<forall>doc' n'. r = Inr (doc', n') \<longrightarrow>
        (\<exists>sel. doc' = doc @ candidate_text pe sel \<and> n' = n + length sel \<and> set sel \<subseteq> set cs \<and>
           (\<forall>c \<in> set sel. \<not> held_pin pe p c)))"
proof (induction pe k cs doc n p arbitrary: r p' rule: write_candidates.induct)
  case (1 pe k doc n p)
  then show ?case by (auto simp: candidate_text_def intro!: exI [of _ "[]"])
next
  case (2 pe k c cs doc n p)
  obtain pinned p1 where check: "is_pinned (pe_clock pe k) c p = (pinned, p1)"
    by (cases "is_pinned (pe_clock pe k) c p")
  then have p1: "pstore p1 = pstore p" "psize p1 = psize p" "p1 = snd (is_pinned (pe_clock pe k) c p)"
    using is_pinned_sel(1,5) [of "pe_clock pe k" c p] by simp_all
  have held: "held_pin pe p c' \<Longrightarrow> held_pin pe p1 c'" for c'
    unfolding p1(3) by (rule held_pin_check)
  show ?case
  proof (cases "pe_ctx pe k")
    case (Some e)
    with "2.prems" show ?thesis by auto
  next
    case ctx: None
    show ?thesis
    proof (cases pinned)
      case True
      with "2.prems" ctx check have "write_candidates pe (Suc k) cs doc n p1 = (r, p')" by simp
      note IH = "2.IH"(1) [OF ctx check [symmetric] refl True this]
      show ?thesis
      proof (intro conjI allI impI)
        fix doc' n' assume "r = Inr (doc', n')"
        with IH obtain sel where "doc' = doc @ candidate_text pe sel" "n' = n + length sel"
          "set sel \<subseteq> set cs" "\<forall>c \<in> set sel. \<not> held_pin pe p1 c"
          by blast
        moreover from this have "\<forall>c \<in> set sel. \<not> held_pin pe p c" using held by blast
        ultimately show "\<exists>sel. doc' = doc @ candidate_text pe sel \<and> n' = n + length sel \<and>
            set sel \<subseteq> set (c # cs) \<and> (\<forall>c \<in> set sel. \<not> held_pin pe p c)"
          by (metis set_subset_Cons subset_trans)
      qed (simp_all add: IH p1(1,2))
    next
      case False
      then have nh: "\<not> held_pin pe p c"
        using check is_pinned_fst [of "pe_clock pe k" c p] by (auto simp: held_pin_def)
      show ?thesis
      proof (cases "pe_write pe k")
        case (Some e)
        with "2.prems" ctx check False p1(1,2) show ?thesis by auto
      next
        case None
        with "2.prems" ctx check False
        have "write_candidates pe (Suc k) cs (doc @ candidate_line pe c) (Suc n) p1 = (r, p')" by simp
        note IH = "2.IH"(2) [OF ctx check [symmetric] refl False None this]
        show ?thesis
        proof (intro conjI allI impI)
          fix doc' n' assume "r = Inr (doc', n')"
          with IH obtain sel where sel: "doc' = (doc @ candidate_line pe c) @ candidate_text pe sel"
            "n' = Suc n + length sel" "set sel \<subseteq> set cs" "\<forall>c \<in> set sel. \<not> held_pin pe p1 c"
            by blast
          moreover from sel(4) have "\<forall>c \<in> set sel. \<not> held_pin pe p c" using held by blast
          ultimately show "\<exists>sel. doc' = doc @ candidate_text pe sel \<and> n' = n + length sel \<and>
              set sel \<subseteq> set (c # cs) \<and> (\<forall>c \<in> set sel. \<not> held_pin pe p c)"
            using nh by (intro exI [of _ "c # sel"]) (simp add: candidate_text_def subset_insertI2)
        qed (simp_all add: IH p1(1,2))
      qed
    qed
  qed
qed

text \<open>How a prune operation ends: it fails before the first removal, finds nothing to remove, or runs
  the removal loop on the candidates it listed.\<close>

lemma prune_cases [consumes 1, case_names failed unlisted removal]:
  assumes "prune bs pe target fuel p = Some (r, b, p')"
  obtains e where "r = Some e" "b = 0" "pstore p' = pstore p" "psize p' = psize p"
  | cs p1 where "bs_all_keys bs (pstore p) = Inr cs" "write_candidates pe 0 cs [] 0 p = (Inr ([], 0), p1)"
      "r = None" "b = 0" "p' = p1" "pstore p' = pstore p" "psize p' = psize p"
  | cs sel p1 where "bs_all_keys bs (pstore p) = Inr cs"
      "write_candidates pe 0 cs [] 0 p = (Inr (candidate_text pe sel, length sel), p1)" "sel \<noteq> []"
      "set sel \<subseteq> set cs" "pstore p1 = pstore p" "psize p1 = psize p" "\<forall>c \<in> set sel. \<not> held_pin pe p c"
      "prune_loop bs pe (pe_disk pe (candidate_text pe sel)) (length sel) target fuel (length cs) 0 0 p1 =
         Some (r, b, p')"
proof (cases "bs_all_keys bs (pstore p)")
  case (Inl e)
  with assms show ?thesis by (intro that(1) [of e]) (simp_all add: prune_def)
next
  case cs: (Inr cs)
  show ?thesis
  proof (cases "pe_create pe")
    case (Some e)
    with assms cs show ?thesis by (intro that(1) [of e]) (simp_all add: prune_def)
  next
    case create: None
    obtain w p1 where wc: "write_candidates pe 0 cs [] 0 p = (w, p1)"
      by (cases "write_candidates pe 0 cs [] 0 p")
    note written = write_candidates_result [OF wc]
    show ?thesis
    proof (cases w)
      case (Inl e)
      with assms cs create wc written show ?thesis by (intro that(1) [of e]) (simp_all add: prune_def)
    next
      case (Inr doc_n)
      obtain doc n where dn: "doc_n = (doc, n)" by (cases doc_n)
      obtain sel where sel: "doc = candidate_text pe sel" "n = length sel" "set sel \<subseteq> set cs"
        "\<forall>c \<in> set sel. \<not> held_pin pe p c" using written Inr dn by auto
      show ?thesis
      proof (cases "sel = []")
        case True
        with assms cs create wc Inr dn sel written that(2) show ?thesis
          by (simp add: prune_def candidate_text_def)
      next
        case False
        with assms cs create wc Inr dn sel written that(3) show ?thesis by (simp add: prune_def)
      qed
    qed
  qed
qed

section \<open>The removal loop\<close>

definition total_bytes :: "store_contents \<Rightarrow> nat" where
  "total_bytes m = (\<Sum>c \<in> dom m. length (the (m c)))"

lemma total_bytes_upd:
  assumes "finite (dom m)"
  shows "m c = Some d \<Longrightarrow> total_bytes m = total_bytes (m(c := None)) + length d"
    and "m c = None \<Longrightarrow> total_bytes (m(c \<mapsto> d)) = total_bytes m + length d"
proof -
  assume c: "m c = Some d"
  then have "total_bytes m = length (the (m c)) + (\<Sum>k \<in> dom m - {c}. length (the (m k)))"
    unfolding total_bytes_def using assms by (intro sum.remove) auto
  also have "(\<Sum>k \<in> dom m - {c}. length (the (m k))) = total_bytes (m(c := None))"
    unfolding total_bytes_def by (intro sum.cong) auto
  finally show "total_bytes m = total_bytes (m(c := None)) + length d" using c by simp
next
  assume c: "m c = None"
  have "total_bytes (m(c \<mapsto> d)) = length d + (\<Sum>k \<in> dom m. length (the ((m(c \<mapsto> d)) k)))"
    unfolding total_bytes_def using assms c by (simp add: domIff)
  also have "(\<Sum>k \<in> dom m. length (the ((m(c \<mapsto> d)) k))) = total_bytes m"
    unfolding total_bytes_def using c by (intro sum.cong) auto
  finally show "total_bytes (m(c \<mapsto> d)) = total_bytes m + length d" by (simp only: add.commute)
qed

definition drawn :: "prune_env \<Rightarrow> cid list \<Rightarrow> nat \<Rightarrow> cid" where
  "drawn pe sel k = sel ! (pe_rand pe k mod length sel)"

lemma drawn_in: "sel \<noteq> [] \<Longrightarrow> drawn pe sel k \<in> set sel"
  by (simp add: drawn_def)

lemma parse_drawn:
  assumes "codec_ok pe sel" and "sel \<noteq> []"
  shows "pe_parse pe (trim_space (line_at (candidate_text pe sel)
     (line_offset (pe_rand pe k mod length sel)))) = Inr (drawn pe sel k)"
  using parse_candidate [OF assms(1), of "pe_rand pe k mod length sel"] assms(2)
  by (simp add: drawn_def)

context block_store
begin

lemma prune_iter_Stop:
  assumes "prune_iter bs pe (candidate_text pe sel) (length sel) k pruned nf p = Stop r b p'"
    and "codec_ok pe sel" and "sel \<noteq> []"
  shows "contents (pstore p') = contents (pstore p) \<and> psize p' = psize p \<and> b = pruned \<and>
     (r = None \<longrightarrow> 10 \<le> nf \<and> contents (pstore p) (drawn pe sel k) = None)"
  using assms
  by (auto simp: prune_iter_def parse_drawn dest: pruner_delete_failed get_size_missing
      split: option.splits sum.splits prod.splits if_splits)

lemma prune_iter_Again:
  assumes "prune_iter bs pe (candidate_text pe sel) (length sel) k pruned nf p = Again b nf' p'"
    and "codec_ok pe sel" and "sel \<noteq> []"
  shows "(p' = p \<and> b = pruned \<and> nf' = Suc nf \<and> nf < 10 \<and> contents (pstore p) (drawn pe sel k) = None) \<or>
     (\<exists>d. contents (pstore p) (drawn pe sel k) = Some d \<and>
        contents (pstore p') = (contents (pstore p))(drawn pe sel k := None) \<and>
        b = pruned + word_of_nat (length d) \<and> nf' = 0 \<and> psize p' = psize p - word_of_nat (length d))"
proof (cases "bs_get_size bs (pstore p) (drawn pe sel k)")
  case (Inl e)
  with assms show ?thesis
    by (auto simp: prune_iter_def parse_drawn dest: get_size_missing split: option.splits if_splits)
next
  case (Inr n)
  then obtain d where d: "contents (pstore p) (drawn pe sel k) = Some d" "n = int (length d)"
    using get_size_found by blast
  from assms Inr have "pruner_delete bs (drawn pe sel k) p = (None, p')"
    and b: "b = pruned + word_of_int n" "nf' = 0"
    by (auto simp: prune_iter_def parse_drawn split: option.splits prod.splits)
  from pruner_delete_ok [OF this(1)] d b show ?thesis by auto
qed

lemma prune_loop_result:
  assumes "prune_loop bs pe (candidate_text pe sel) (length sel) target fuel k pruned nf p = Some (r, b, p')"
    and "codec_ok pe sel" and "sel \<noteq> []" and "nf \<le> 10" and "nf \<le> k"
    and "\<forall>j < nf. contents (pstore p) (drawn pe sel (k - Suc j)) = None"
  shows "(\<exists>removed. total_bytes (contents (pstore p)) = total_bytes (contents (pstore p')) + removed \<and>
        b = pruned + word_of_nat removed \<and> psize p' = psize p - word_of_nat removed) \<and>
     contents (pstore p') \<subseteq>\<^sub>m contents (pstore p) \<and>
     (\<forall>c. c \<notin> set sel \<longrightarrow> contents (pstore p') c = contents (pstore p) c) \<and>
     (r = None \<and> b < target \<longrightarrow> (\<exists>k. \<forall>j < 11. contents (pstore p') (drawn pe sel (k + j)) = None))"
  using assms
proof (induction fuel arbitrary: k pruned nf p)
  case 0
  then show ?case by (auto split: if_splits intro!: exI [of _ 0])
next
  case (Suc fuel)
  show ?case
  proof (cases "pruned < target")
    case False
    with Suc.prems(1) show ?thesis by (auto intro!: exI [of _ 0])
  next
    case True
    show ?thesis
    proof (cases "prune_iter bs pe (candidate_text pe sel) (length sel) k pruned nf p")
      case (Stop r1 b1 p1)
      with True Suc.prems(1) have r: "r1 = r" "b1 = b" "p1 = p'" by simp_all
      note st = prune_iter_Stop [OF Stop Suc.prems(2,3)]
      have gave_up: "\<exists>k. \<forall>j < 11. contents (pstore p') (drawn pe sel (k + j)) = None" if "r = None"
      proof (rule exI [of _ "k - 10"], intro allI impI)
        fix j :: nat assume "j < 11"
        from st that r Suc.prems(4) have nf: "nf = 10"
          and last: "contents (pstore p) (drawn pe sel k) = None" by auto
        show "contents (pstore p') (drawn pe sel (k - 10 + j)) = None"
        proof (cases "j = 10")
          case True
          with last st r Suc.prems(5) nf show ?thesis by simp
        next
          case False
          with \<open>j < 11\<close> have "9 - j < nf" "k - 10 + j = k - Suc (9 - j)"
            using nf Suc.prems(5) by auto
          with Suc.prems(6) st r show ?thesis by metis
        qed
      qed
      then show ?thesis using st r by (auto intro!: exI [of _ 0])
    next
      case (Again b1 nf1 p1)
      with True Suc.prems(1) have rest:
        "prune_loop bs pe (candidate_text pe sel) (length sel) target fuel (Suc k) b1 nf1 p1 = Some (r, b, p')"
        by simp
      from prune_iter_Again [OF Again Suc.prems(2,3)] show ?thesis
      proof (elim disjE exE conjE)
        assume same: "p1 = p" "b1 = pruned" "nf1 = Suc nf" "nf < 10"
          and none: "contents (pstore p) (drawn pe sel k) = None"
        have hist: "\<forall>j < nf1. contents (pstore p1) (drawn pe sel (Suc k - Suc j)) = None"
        proof (intro allI impI)
          fix j assume "j < nf1"
          then show "contents (pstore p1) (drawn pe sel (Suc k - Suc j)) = None"
            using none same Suc.prems(6) by (cases j) auto
        qed
        have "nf1 \<le> 10" "nf1 \<le> Suc k" using same Suc.prems(5) by simp_all
        from Suc.IH [OF rest Suc.prems(2,3) this hist] same show ?thesis by simp
      next
        fix d assume d: "contents (pstore p) (drawn pe sel k) = Some d"
          "contents (pstore p1) = (contents (pstore p))(drawn pe sel k := None)"
          "b1 = pruned + word_of_nat (length d)" "nf1 = 0" "psize p1 = psize p - word_of_nat (length d)"
        have "nf1 \<le> 10" "nf1 \<le> Suc k" "\<forall>j < nf1. contents (pstore p1) (drawn pe sel (Suc k - Suc j)) = None"
          using d(4) by simp_all
        note IH = Suc.IH [OF rest Suc.prems(2,3) this]
        then obtain removed where rem: "total_bytes (contents (pstore p1)) = total_bytes (contents (pstore p')) + removed"
          "b = b1 + word_of_nat removed" "psize p' = psize p1 - word_of_nat removed" by blast
        have "total_bytes (contents (pstore p)) = total_bytes (contents (pstore p')) + (removed + length d)"
          using total_bytes_upd(1) [OF finite_contents d(1)] rem(1) d(2) by simp
        moreover have "b = pruned + word_of_nat (removed + length d)"
          "psize p' = psize p - word_of_nat (removed + length d)"
          using rem(2,3) d(3,5) by (simp_all add: algebra_simps)
        ultimately have 1: "\<exists>removed. total_bytes (contents (pstore p)) = total_bytes (contents (pstore p')) + removed \<and>
            b = pruned + word_of_nat removed \<and> psize p' = psize p - word_of_nat removed" by blast
        have "contents (pstore p1) \<subseteq>\<^sub>m contents (pstore p)" using d(2) by (auto simp: map_le_def)
        with IH have 2: "contents (pstore p') \<subseteq>\<^sub>m contents (pstore p)" by (blast intro: map_le_trans)
        have 3: "\<forall>c. c \<notin> set sel \<longrightarrow> contents (pstore p') c = contents (pstore p) c"
          using IH d(2) drawn_in [OF Suc.prems(3), of pe k] by auto
        from 1 2 3 IH show ?thesis by blast
      qed
    qed
  qed
qed

lemma prune_loop_returns:
  assumes "codec_ok pe sel" and "sel \<noteq> []" and "nf \<le> 10"
    and "11 * card (dom (contents (pstore p))) + 11 \<le> fuel + nf"
  shows "\<exists>res. prune_loop bs pe (candidate_text pe sel) (length sel) target fuel k pruned nf p = Some res"
  using assms
proof (induction fuel arbitrary: k pruned nf p)
  case 0
  then show ?case by simp
next
  case (Suc fuel)
  show ?case
  proof (cases "prune_iter bs pe (candidate_text pe sel) (length sel) k pruned nf p")
    case (Stop r b p')
    then show ?thesis by simp
  next
    case (Again b nf' p')
    from prune_iter_Again [OF Again Suc.prems(1,2)]
    have "nf' \<le> 10 \<and> 11 * card (dom (contents (pstore p'))) + 11 \<le> fuel + nf'"
    proof (elim disjE exE conjE)
      fix d assume d: "contents (pstore p) (drawn pe sel k) = Some d"
        "contents (pstore p') = (contents (pstore p))(drawn pe sel k := None)" "nf' = 0"
      then have "card (dom (contents (pstore p))) = Suc (card (dom (contents (pstore p'))))"
        using card.remove [of "dom (contents (pstore p))" "drawn pe sel k"] finite_contents
        by (simp add: domI)
      then show ?thesis using Suc.prems(3,4) d(3) by simp
    qed (use Suc.prems(3,4) in auto)
    with Suc.IH [OF Suc.prems(1,2)] Again show ?thesis by simp
  qed
qed

end

section \<open>The pruner under concurrency\<close>

text \<open>
  Puts, deletes, polls and the prune goroutines share one pruner. A prune goroutine lists the
  candidates and then removes one block per iteration; other operations can run in between, and
  what the goroutine keeps in its own variables is left open here. \<open>jobs\<close> counts the running
  prune goroutines.
\<close>

record 's pruner_sys =
  pr :: "'s pruner"
  jobs :: nat

definition started_job :: "bool \<Rightarrow> nat \<Rightarrow> nat" where
  "started_job started n = (if started then Suc n else n)"

text \<open>What happens without a caller: the ticker polls, and a prune goroutine lists, removes or ends.\<close>

inductive prune_work ::
  "'s blockstore \<Rightarrow> 's disk_usage \<Rightarrow> 's pruner_sys \<Rightarrow> 's pruner_sys \<Rightarrow> bool"
  for bs :: "'s blockstore" and du :: "'s disk_usage" where
  step_poll: "poll du now (pr s) = (p', st) \<Longrightarrow>
     prune_work bs du s \<lparr>pr = p', jobs = started_job st (jobs s)\<rparr>"
| step_list: "0 < jobs s \<Longrightarrow> write_candidates pe k cs doc n (pr s) = (r, p') \<Longrightarrow>
     prune_work bs du s (s\<lparr>pr := p'\<rparr>)"
| step_iter: "0 < jobs s \<Longrightarrow> prune_iter bs pe doc n k pruned nf (pr s) = Again b nf' p' \<Longrightarrow>
     prune_work bs du s (s\<lparr>pr := p'\<rparr>)"
| step_stop: "0 < jobs s \<Longrightarrow> prune_iter bs pe doc n k pruned nf (pr s) = Stop r b p' \<Longrightarrow>
     prune_work bs du s \<lparr>pr = p'\<lparr>prune_lk := False\<rparr>, jobs = jobs s - 1\<rparr>"
| step_finish: "0 < jobs s \<Longrightarrow>
     prune_work bs du s \<lparr>pr = (pr s)\<lparr>prune_lk := False\<rparr>, jobs = jobs s - 1\<rparr>"

inductive pruner_step ::
  "'s blockstore \<Rightarrow> 's disk_usage \<Rightarrow> 's pruner_sys \<Rightarrow> 's pruner_sys \<Rightarrow> bool"
  for bs :: "'s blockstore" and du :: "'s disk_usage" where
  step_put: "pruner_put bs du now b (pr s) = (r, p', st) \<Longrightarrow>
     pruner_step bs du s \<lparr>pr = p', jobs = started_job st (jobs s)\<rparr>"
| step_put_many: "pruner_put_many bs du now blks (pr s) = (r, p', st) \<Longrightarrow>
     pruner_step bs du s \<lparr>pr = p', jobs = started_job st (jobs s)\<rparr>"
| step_delete: "pruner_delete bs c (pr s) = (r, p') \<Longrightarrow> pruner_step bs du s (s\<lparr>pr := p'\<rparr>)"
| step_work: "prune_work bs du s t \<Longrightarrow> pruner_step bs du s t"

inductive pruner_reach :: "'s blockstore \<Rightarrow> 's disk_usage \<Rightarrow> 's pruner_sys \<Rightarrow> bool"
  for bs :: "'s blockstore" and du :: "'s disk_usage" where
  reach_new: "new_pruner du now st cfg = Inr (p, started) \<Longrightarrow>
     pruner_reach bs du \<lparr>pr = p, jobs = started_job started 0\<rparr>"
| reach_step: "pruner_reach bs du s \<Longrightarrow> pruner_step bs du s t \<Longrightarrow> pruner_reach bs du t"

text \<open>The settings are fixed at the start, the time of the last refresh is never written, and the
  lock is held exactly while one goroutine runs.\<close>

definition same_settings :: "'s pruner \<Rightarrow> 's pruner \<Rightarrow> bool" where
  "same_settings p p' \<longleftrightarrow> threshold p' = threshold p \<and> prune_bytes p' = prune_bytes p \<and>
     pin_duration p' = pin_duration p \<and> last_size_update p' = last_size_update p"

definition pruner_inv :: "'s pruner_sys \<Rightarrow> bool" where
  "pruner_inv s \<longleftrightarrow> last_size_update (pr s) = zero_time \<and> threshold (pr s) \<le> prune_bytes (pr s) \<and>
     jobs s = (if prune_lk (pr s) then 1 else 0)"

lemma poll_lock:
  "poll du now p = (p', st) \<Longrightarrow> same_settings p p' \<and> prune_lk p' = (prune_lk p \<or> st) \<and> (st \<longrightarrow> \<not> prune_lk p)"
  by (auto simp: poll_def Let_def same_settings_def split: sum.splits if_splits)

lemma pruner_put_lock:
  assumes "pruner_put bs du now b p = (r, p', st)"
  shows "same_settings p p' \<and> prune_lk p' = (prune_lk p \<or> st) \<and> (st \<longrightarrow> \<not> prune_lk p)"
proof -
  obtain p1 where "poll du now (update_pin now (blk_cid b) p) = (p1, st)"
    using assms by (auto simp: pruner_put_def Let_def split: prod.splits option.splits)
  with poll_lock [OF this] assms show ?thesis
    by (auto simp: pruner_put_def same_settings_def split: prod.splits option.splits)
qed

lemma pruner_put_many_lock:
  assumes "pruner_put_many bs du now blks p = (r, p', st)"
  shows "same_settings p p' \<and> prune_lk p' = (prune_lk p \<or> st) \<and> (st \<longrightarrow> \<not> prune_lk p)"
proof -
  let ?p0 = "fold (\<lambda>b. update_pin now (blk_cid b)) blks p"
  obtain p1 where "poll du now ?p0 = (p1, st)"
    using assms by (auto simp: pruner_put_many_def fold_update_pin_sel Let_def split: prod.splits option.splits)
  with poll_lock [OF this] assms show ?thesis
    by (auto simp: pruner_put_many_def fold_update_pin_sel same_settings_def split: prod.splits option.splits)
qed

lemma pruner_delete_lock:
  "pruner_delete bs c p = (r, p') \<Longrightarrow> same_settings p p' \<and> prune_lk p' = prune_lk p"
  by (auto simp: pruner_delete_def same_settings_def split: sum.splits prod.splits option.splits)

lemma write_candidates_lock:
  "write_candidates pe k cs doc n p = (r, p') \<Longrightarrow> same_settings p p' \<and> prune_lk p' = prune_lk p"
proof (induction pe k cs doc n p arbitrary: r p' rule: write_candidates.induct)
  case (2 pe k c cs doc n p)
  obtain pinned p1 where check: "is_pinned (pe_clock pe k) c p = (pinned, p1)"
    by (cases "is_pinned (pe_clock pe k) c p")
  then have "same_settings p p1 \<and> prune_lk p1 = prune_lk p"
    by (metis is_pinned_sel(2,3,4,6,7) same_settings_def snd_conv)
  moreover have "p' = p \<or> p' = p1 \<or> same_settings p1 p' \<and> prune_lk p' = prune_lk p1"
  proof (cases "pe_ctx pe k")
    case ctx: None
    note IH = "2.IH" [OF ctx check [symmetric] refl]
    show ?thesis
    proof (cases pinned)
      case True
      with IH(1) "2.prems" ctx check show ?thesis by simp
    next
      case False
      with IH(2) "2.prems" ctx check show ?thesis by (cases "pe_write pe k") simp_all
    qed
  qed (use "2.prems" in \<open>simp\<close>)
  ultimately show ?case by (auto simp: same_settings_def)
qed (simp add: same_settings_def)

lemma prune_iter_lock:
  "prune_iter bs pe doc n k pruned nf p = Again b nf' p' \<Longrightarrow> same_settings p p' \<and> prune_lk p' = prune_lk p"
  "prune_iter bs pe doc n k pruned nf p = Stop r b p' \<Longrightarrow> same_settings p p' \<and> prune_lk p' = prune_lk p"
  by (auto simp: prune_iter_def same_settings_def dest!: pruner_delete_lock
      split: option.splits sum.splits prod.splits if_splits)

lemma new_pruner_inv:
  assumes "new_pruner du now st cfg = Inr (p, started)"
  shows "pruner_inv \<lparr>pr = p, jobs = started_job started 0\<rparr>"
proof -
  obtain p0 where "poll du now p0 = (p, started)" "\<not> prune_lk p0" "last_size_update p0 = zero_time"
    "threshold p0 \<le> prune_bytes p0"
    using assms by (auto simp: new_pruner_def Let_def split: sum.splits if_splits)
  with poll_lock [OF this(1)] show ?thesis
    by (auto simp: pruner_inv_def same_settings_def started_job_def)
qed

lemma prune_work_inv: "prune_work bs du s t \<Longrightarrow> pruner_inv s \<Longrightarrow> pruner_inv t"
proof (induction rule: prune_work.induct)
  case (step_stop s pe doc n k pruned nf r b p')
  then show ?case
    using prune_iter_lock(2) [OF step_stop(2)]
    by (auto simp: pruner_inv_def same_settings_def split: if_splits)
qed (auto simp: pruner_inv_def same_settings_def started_job_def split: if_splits
    dest!: poll_lock write_candidates_lock prune_iter_lock(1))

lemma pruner_step_inv: "pruner_step bs du s t \<Longrightarrow> pruner_inv s \<Longrightarrow> pruner_inv t"
  by (induction rule: pruner_step.induct)
    (auto simp: pruner_inv_def same_settings_def started_job_def split: if_splits
      dest!: pruner_put_lock pruner_put_many_lock pruner_delete_lock prune_work_inv [unfolded pruner_inv_def])

lemma pruner_reach_inv: "pruner_reach bs du s \<Longrightarrow> pruner_inv s"
  by (induction rule: pruner_reach.induct) (auto intro: new_pruner_inv pruner_step_inv)

text \<open>No step of a prune operation or of the ticker adds to the store.\<close>

context block_store
begin

lemma prune_iter_shrinks:
  "prune_iter bs pe doc n k pruned nf p = Again b nf' p' \<Longrightarrow> contents (pstore p') \<subseteq>\<^sub>m contents (pstore p)"
  "prune_iter bs pe doc n k pruned nf p = Stop r b p' \<Longrightarrow> contents (pstore p') \<subseteq>\<^sub>m contents (pstore p)"
  by (auto simp: prune_iter_def map_le_def dest: pruner_delete_failed pruner_delete_ok(1)
      split: option.splits sum.splits prod.splits if_splits)

lemma prune_work_shrinks: "prune_work bs du s t \<Longrightarrow> contents (pstore (pr t)) \<subseteq>\<^sub>m contents (pstore (pr s))"
proof (induction rule: prune_work.induct)
  case (step_poll now s p' st)
  then show ?case using poll_sel(1) [of du now "pr s"] by simp
next
  case (step_list s pe k cs doc n r p')
  then show ?case using write_candidates_result [OF step_list(2)] by simp
qed (simp_all add: prune_iter_shrinks)

end

text \<open>The operations of the wrapper are steps of the pruner: a put starts a goroutine exactly when it takes
  \<open>pruneLk\<close>.\<close>

lemma pruner_ops_are_steps:
  shows "pruner_put bs du now b p = (r, p', st) \<Longrightarrow>
      pruner_step bs du \<lparr>pr = p, jobs = n\<rparr> \<lparr>pr = p', jobs = started_job (prune_lk p' \<and> \<not> prune_lk p) n\<rparr>"
    and "pruner_put_many bs du now blks p = (r, p', st) \<Longrightarrow>
      pruner_step bs du \<lparr>pr = p, jobs = n\<rparr> \<lparr>pr = p', jobs = started_job (prune_lk p' \<and> \<not> prune_lk p) n\<rparr>"
    and "pruner_delete bs c p = (r, p') \<Longrightarrow>
      pruner_step bs du \<lparr>pr = p, jobs = n\<rparr> \<lparr>pr = p', jobs = started_job (prune_lk p' \<and> \<not> prune_lk p) n\<rparr>"
proof -
  assume put: "pruner_put bs du now b p = (r, p', st)"
  with pruner_put_lock [OF put] have "(prune_lk p' \<and> \<not> prune_lk p) = st" by auto
  with step_put [of bs du now b "\<lparr>pr = p, jobs = n\<rparr>"] put
  show "pruner_step bs du \<lparr>pr = p, jobs = n\<rparr> \<lparr>pr = p', jobs = started_job (prune_lk p' \<and> \<not> prune_lk p) n\<rparr>"
    by simp
next
  assume put: "pruner_put_many bs du now blks p = (r, p', st)"
  with pruner_put_many_lock [OF put] have "(prune_lk p' \<and> \<not> prune_lk p) = st" by auto
  with step_put_many [of bs du now blks "\<lparr>pr = p, jobs = n\<rparr>"] put
  show "pruner_step bs du \<lparr>pr = p, jobs = n\<rparr> \<lparr>pr = p', jobs = started_job (prune_lk p' \<and> \<not> prune_lk p) n\<rparr>"
    by simp
next
  assume del: "pruner_delete bs c p = (r, p')"
  with pruner_delete_lock [OF del] have "(prune_lk p' \<and> \<not> prune_lk p) = False" by auto
  with step_delete [of bs c "\<lparr>pr = p, jobs = n\<rparr>" r p' du] del
  show "pruner_step bs du \<lparr>pr = p, jobs = n\<rparr> \<lparr>pr = p', jobs = started_job (prune_lk p' \<and> \<not> prune_lk p) n\<rparr>"
    by (auto simp: started_job_def)
qed

section \<open>Properties\<close>

text \<open>A store of two blocks, one of them pinned a second ago.\<close>

definition demo_pe :: prune_env where
  "demo_pe = \<lparr>pe_clock = (\<lambda>k. 100 * second), pe_ctx = (\<lambda>k. None), pe_create = None,
     pe_write = (\<lambda>k. None), pe_disk = (\<lambda>doc. doc), pe_seek = (\<lambda>k. None), pe_rand = (\<lambda>k. 7 * k),
     pe_string = cid_bytes, pe_parse = (\<lambda>s. if s = [] then Inl (Msg ''cid too short'') else Inr (Cid s))\<rparr>"

definition demo_pruner :: "mem_store pruner" where
  "demo_pruner = \<lparr>pstore = [(Cid ''a'', ''xxxx''), (Cid ''b'', ''yy'')], threshold = 6, prune_bytes = 6,
     pin_duration = hour, psize = 6, last_size_update = zero_time, pins = [Cid ''b'' \<mapsto> 99 * second],
     prune_lk = False\<rparr>"

definition demo_pruned :: "mem_store pruner" where
  "demo_pruned = demo_pruner\<lparr>pstore := [(Cid ''b'', ''yy'')], psize := 2\<rparr>"

lemma demo_pruner_keys: "bs_all_keys mem_blockstore (pstore demo_pruner) = Inr [Cid ''a'', Cid ''b'']"
  by (simp add: demo_pruner_def)

lemma demo_codec: "bs_all_keys mem_blockstore (pstore demo_pruner) = Inr cs \<Longrightarrow> codec_ok demo_pe cs"
  unfolding demo_pruner_keys by (auto simp: codec_ok_def demo_pe_def plain_char_def cid_pad_length_def go_spaces_def)

lemma demo_listed:
  "write_candidates demo_pe 0 [Cid ''a'', Cid ''b''] [] 0 demo_pruner =
     (Inr (candidate_text demo_pe [Cid ''a''], length [Cid ''a'']), demo_pruner)"
  by (simp add: demo_pe_def demo_pruner_def is_pinned_def time_since_def duration_defs candidate_text_def
      candidate_line_def)

lemma demo_pe_sel [simp]:
  "pe_create demo_pe = None" "pe_disk demo_pe doc = doc" "pe_ctx demo_pe k = None" "pe_seek demo_pe k = None"
  by (simp_all add: demo_pe_def)

lemma demo_prune_run: "prune mem_blockstore demo_pe 4 (Suc 0) demo_pruner = Some (None, 4, demo_pruned)"
proof -
  have "codec_ok demo_pe [Cid ''a'']"
    using demo_codec [OF demo_pruner_keys] by (simp add: codec_ok_def)
  note parse = parse_drawn [OF this, of "Suc (Suc 0)"]
  have "prune_iter mem_blockstore demo_pe (candidate_text demo_pe [Cid ''a'']) (Suc 0) (Suc (Suc 0)) 0 0 demo_pruner
      = Again 4 0 demo_pruned"
    unfolding prune_iter_def
    by (simp add: parse [simplified] drawn_def demo_pruner_def demo_pruned_def pruner_delete_def)
  then show ?thesis
    unfolding prune_def demo_pruner_keys sum.case demo_pe_sel option.case demo_listed prod.case
    by simp
qed




text \<open>C13. A prune operation returns. When the identifiers print and parse as above, the removal loop
  needs at most eleven iterations for every block that the store holds and eleven more: each
  iteration either removes a block, or counts one of the ten misses in a row that it tolerates, or
  ends the loop.\<close>

theorem prune_terminates:
  assumes "block_store bs contents"
    and "\<forall>cs. bs_all_keys bs (pstore p) = Inr cs \<longrightarrow> codec_ok pe cs" and "\<forall>doc. pe_disk pe doc = doc"
    and "11 * (card (dom (contents (pstore p))) + 1) \<le> fuel"
  shows "\<exists>res. prune bs pe target fuel p = Some res"
proof (cases "prune bs pe target fuel p")
  case None
  then obtain cs w p1 where listed: "bs_all_keys bs (pstore p) = Inr cs"
      "write_candidates pe 0 cs [] 0 p = (w, p1)"
    by (cases "bs_all_keys bs (pstore p)") (auto simp: prune_def split: prod.splits)
  note written = write_candidates_result [OF listed(2)]
  from None listed obtain doc n where w: "w = Inr (doc, n)" "n \<noteq> 0"
    by (cases w) (auto simp: prune_def split: option.splits if_splits)
  with written obtain sel where sel: "doc = candidate_text pe sel" "n = length sel" "set sel \<subseteq> set cs"
    by auto
  have "codec_ok pe sel" using assms(2) listed(1) sel(3) codec_ok_subset by blast
  moreover have "11 * card (dom (contents (pstore p1))) + 11 \<le> fuel + 0" using assms(4) written by simp
  moreover have "sel \<noteq> []" using w(2) sel(2) by auto
  ultimately obtain res where
    "prune_loop bs pe (candidate_text pe sel) (length sel) target fuel (length cs) 0 0 p1 = Some res"
    using block_store.prune_loop_returns [OF assms(1), of pe sel 0] by blast
  with None listed w sel assms(3) show ?thesis by (cases "pe_create pe") (simp_all add: prune_def)
qed blast

lemma prune_terminates_witness:
  "card (dom (map_of (pstore demo_pruner))) = 2 \<and>
   (\<exists>res. prune mem_blockstore demo_pe 4 33 demo_pruner = Some res)"
proof -
  have "card (dom (map_of (pstore demo_pruner))) = 2"
    by (simp add: demo_pruner_def)
  with prune_terminates [OF mem.block_store_axioms, of demo_pruner demo_pe 33 4] demo_codec
  show ?thesis by simp
qed

text \<open>C35. The candidate file can be read back at random. When the identifiers print as at most 64
  printable characters that parse back, the listing writes a file in which line \<open>i\<close>, read from byte
  offset \<open>65 * i\<close> and trimmed, parses as the \<open>i\<close>-th candidate, for every \<open>i\<close> below the count; the
  candidates are identifiers of the store, and none of them has a pin that held all along.\<close>

theorem candidate_file_roundtrip:
  assumes "write_candidates pe 0 cs [] 0 p = (Inr (doc, n), p')" and "codec_ok pe cs"
  shows "\<exists>sel. length sel = n \<and> set sel \<subseteq> set cs \<and> (\<forall>c \<in> set sel. \<not> held_pin pe p c) \<and>
     (\<forall>i < n. pe_parse pe (trim_space (line_at doc (line_offset i))) = Inr (sel ! i))"
proof -
  from write_candidates_result [OF assms(1)] obtain sel where sel: "doc = candidate_text pe sel"
    "n = length sel" "set sel \<subseteq> set cs" "\<forall>c \<in> set sel. \<not> held_pin pe p c" by auto
  with parse_candidate [OF codec_ok_subset [OF sel(3) assms(2)]] show ?thesis by auto
qed

lemma candidate_file_roundtrip_witness:
  "pe_parse demo_pe (trim_space (line_at (candidate_text demo_pe [Cid ''a'']) (line_offset 0))) = Inr (Cid ''a'')"
proof -
  have "held_pin demo_pe demo_pruner (Cid ''b'')"
    by (simp add: held_pin_def demo_pruner_def demo_pe_def time_since_def duration_defs)
  moreover obtain sel where "length sel = 1" "set sel \<subseteq> {Cid ''a'', Cid ''b''}"
      "\<forall>c \<in> set sel. \<not> held_pin demo_pe demo_pruner c"
      "pe_parse demo_pe (trim_space (line_at (candidate_text demo_pe [Cid ''a'']) (line_offset 0))) = Inr (sel ! 0)"
    using candidate_file_roundtrip [OF demo_listed demo_codec [OF demo_pruner_keys]] by auto
  ultimately show ?thesis by (cases sel) auto
qed


text \<open>At most one prune operation runs. In every state that the pruner reaches from its creation by
  puts, deletes, polls and the steps of prune goroutines, in any order, there is one running prune
  goroutine when \<open>pruneLk\<close> is held and none when it is free, so there are never two.\<close>

lemma one_prune_at_a_time:
  assumes "pruner_reach bs du s"
  shows "jobs s \<le> 1 \<and> (prune_lk (pr s) \<longleftrightarrow> jobs s = 1)"
  using pruner_reach_inv [OF assms] by (simp add: pruner_inv_def)

definition demo_config :: pruner_config where
  "demo_config = \<lparr>cfg_threshold = 5, cfg_prune_bytes = 0, cfg_pin_duration = hour\<rparr>"

definition demo_sys :: "mem_store pruner_sys" where
  "demo_sys = \<lparr>pr = \<lparr>pstore = [(Cid ''a'', ''xxxx''), (Cid ''b'', ''yy'')], threshold = 5, prune_bytes = 5,
     pin_duration = hour, psize = 6, last_size_update = zero_time, pins = Map.empty, prune_lk = True\<rparr>, jobs = 1\<rparr>"

lemma demo_new:
  "new_pruner mem_usage 0 [(Cid ''a'', ''xxxx''), (Cid ''b'', ''yy'')] demo_config = Inr (pr demo_sys, True)"
proof -
  have "(5 :: 64 word) div 2 = 2" and "(2 :: 64 word) < 5" by code_simp+
  then show ?thesis
    using time_since_zero_time [of 0]
    by (simp add: new_pruner_def poll_def demo_config_def mem_usage_def demo_sys_def)
qed

lemma demo_sys_reach: "pruner_reach mem_blockstore mem_usage demo_sys"
  using reach_new [OF demo_new] by (simp add: demo_sys_def started_job_def)

text \<open>The refresh of the tracked size is not throttled. \<open>Poll\<close> means to read the disk usage at most
  once a minute, but no operation ever writes the time of the last refresh: in every reachable
  state, at any time since 1970, a poll reads the disk usage and overwrites the tracked size with it.\<close>

lemma poll_always_refreshes:
  assumes "pruner_reach bs du s" and "0 \<le> now" and "du (pstore (pr s)) = Inr sz"
  shows "psize (fst (poll du now (pr s))) = sz"
  using pruner_reach_inv [OF assms(1)] time_since_zero_time [OF assms(2)] assms(3)
  by (simp add: pruner_inv_def poll_def Let_def)

text \<open>A prune operation is always asked for at least the whole threshold: whatever \<open>PruneBytes\<close> is
  configured, zero included, the constructor settles on the larger of it and the threshold, where
  the comment on the field promises half of the threshold for a value of zero.\<close>

lemma new_pruner_settings:
  assumes "new_pruner du now st cfg = Inr (p, started)"
  shows "prune_bytes p = max (cfg_prune_bytes cfg) (cfg_threshold cfg) \<and> threshold p = cfg_threshold cfg \<and>
     pin_duration p = cfg_pin_duration cfg"
proof -
  have half: "cfg_threshold cfg div 2 \<le> cfg_threshold cfg"
    by (simp add: word_le_nat_alt unat_div)
  from assms obtain p0 where p0: "poll du now p0 = (p, started)" "threshold p0 = cfg_threshold cfg"
    "pin_duration p0 = cfg_pin_duration cfg"
    "prune_bytes p0 =
       (let pb = (if cfg_prune_bytes cfg = 0 then cfg_threshold cfg div 2 else cfg_prune_bytes cfg)
        in if pb < cfg_threshold cfg then cfg_threshold cfg else pb)"
    by (auto simp: new_pruner_def Let_def split: sum.splits)
  then have "prune_bytes p = prune_bytes p0" "threshold p = threshold p0"
    using poll_lock [OF p0(1)] by (simp_all add: same_settings_def)
  moreover have "pin_duration p = pin_duration p0"
    using p0(1) by (auto simp: poll_def Let_def split: if_splits sum.splits)
  ultimately show ?thesis using p0 half by (auto simp: Let_def max_def not_le not_less)
qed

context pruned_store
begin

lemma wrapped_contract: "block_store (pruner_blockstore bs du now) (\<lambda>p. contents (pstore p))"
  by (rule wrapper.block_store_axioms)

end

text \<open>C19. The wrapper keeps the contract of the store it wraps. When the wrapped store is a block store,
  so is the pruner around it, with the same contents: its reads find what the store holds, a put
  stores the block, a delete removes it and nothing else, a failed operation does no harm.\<close>

theorem pruner_keeps_contract:
  assumes "block_store bs contents"
  shows "block_store (pruner_blockstore bs du now) (\<lambda>p. contents (pstore p))"
proof -
  from assms have "pruned_store bs contents" by (rule pruned_store.intro)
  then show ?thesis by (rule pruned_store.wrapped_contract)
qed

definition demo_put :: "go_error option \<times> mem_store pruner" where
  "demo_put = bs_put (pruner_blockstore mem_blockstore mem_usage 0) demo_pruner
     \<lparr>blk_cid = Cid ''c'', raw_data = ''z''\<rparr>"

lemma pruner_keeps_contract_witness:
  "map_of (pstore (snd demo_put)) (Cid ''c'') = Some ''z''"
proof -
  obtain r p' st where run:
    "pruner_put mem_blockstore mem_usage 0 \<lparr>blk_cid = Cid ''c'', raw_data = ''z''\<rparr> demo_pruner = (r, p', st)"
    by (cases "pruner_put mem_blockstore mem_usage 0 \<lparr>blk_cid = Cid ''c'', raw_data = ''z''\<rparr> demo_pruner")
  have "r = None" using pruner_put_store [OF run] by simp
  with run have "bs_put (pruner_blockstore mem_blockstore mem_usage 0) demo_pruner
      \<lparr>blk_cid = Cid ''c'', raw_data = ''z''\<rparr> = (None, snd demo_put)"
    by (simp add: demo_put_def pruner_blockstore_def)
  from block_store.put_ok [OF pruner_keeps_contract [OF mem.block_store_axioms] this]
  show ?thesis by (simp add: add_block_def demo_pruner_def)
qed

lemma poll_update_pin: "psize (fst (poll du now (update_pin now c p))) = psize (fst (poll du now p))"
  by (cases "du (pstore p)") (simp_all add: poll_def update_pin_def Let_def)

text \<open>A put adds the block to the store and its length to the tracked size, also when the store
  already holds the block: then the bytes stored do not change, and the tracked size is too large
  until the next poll reads the disk usage.\<close>

lemma put_accounting:
  assumes "block_store bs contents" and "pruner_put bs du now b p = (None, p', started)"
  shows "contents (pstore p') = add_block b (contents (pstore p)) \<and> pins p' (blk_cid b) = Some now \<and>
    psize p' = psize (fst (poll du now p)) + word_of_nat (length (raw_data b)) \<and>
    total_bytes (contents (pstore p')) = total_bytes (contents (pstore p)) +
      (if blk_cid b \<in> dom (contents (pstore p)) then 0 else length (raw_data b))"
proof -
  obtain p1 where p1: "poll du now (update_pin now (blk_cid b) p) = (p1, started)" "pins p' = pins p1"
    "psize p' = psize p1 + word_of_nat (length (raw_data b))"
    using assms(2) by (auto simp: pruner_put_def Let_def split: prod.splits option.splits)
  have "bs_put bs (pstore p) b = (None, pstore p')" using pruner_put_store [OF assms(2)] .
  then have c: "contents (pstore p') = add_block b (contents (pstore p))"
    by (rule block_store.put_ok [OF assms(1)])
  moreover have "pins p1 = (pins p)(blk_cid b \<mapsto> now)"
    using arg_cong [OF p1(1), of "pins \<circ> fst"] by (simp add: update_pin_def)
  moreover have "psize p1 = psize (fst (poll du now p))"
    using arg_cong [OF p1(1), of "psize \<circ> fst"] by (simp add: poll_update_pin)
  moreover have "total_bytes (add_block b (contents (pstore p))) = total_bytes (contents (pstore p)) +
      (if blk_cid b \<in> dom (contents (pstore p)) then 0 else length (raw_data b))"
    using total_bytes_upd(2) [OF block_store.finite_contents [OF assms(1)], of "pstore p" "blk_cid b" "raw_data b"]
    by (auto simp: add_block_def split: option.splits)
  ultimately show ?thesis using p1 by simp
qed

text \<open>An identifier whose text is longer than the 64 characters of a line breaks the candidate file.
  Padding does not shorten it, so the line after it does not start where the seek for it goes:
  looking up the second candidate reads the rest of the first identifier's text.\<close>

lemma long_cid_misaligns_candidates:
  assumes "cid_pad_length < length (pe_string pe c)" and "list_all plain_char (pe_string pe c)"
  shows "line_at (candidate_text pe (c # cs)) (line_offset 1) = drop (cid_pad_length + 1) (pe_string pe c)"
proof -
  have "candidate_text pe (c # cs) = pe_string pe c @ newline # candidate_text pe cs"
    using assms(1) by (simp add: candidate_text_def candidate_line_def pad_right_def)
  then have "drop (line_offset 1) (candidate_text pe (c # cs)) =
      drop (cid_pad_length + 1) (pe_string pe c) @ newline # candidate_text pe cs"
    using assms(1) by (simp add: line_offset_def)
  moreover have "\<forall>x \<in> set (drop (cid_pad_length + 1) (pe_string pe c)). x \<noteq> newline"
    using assms(2) by (auto simp: list_all_iff dest!: in_set_dropD newline_not_plain)
  ultimately show ?thesis
    unfolding line_at_def by (simp add: takeWhile_append2)
qed

definition demo_long :: cid where "demo_long = Cid (replicate 70 CHR ''q'')"

text \<open>C40. A candidate file without its contents makes the prune operation spin. The listing succeeded with
  at least one candidate, but its text is not in the file (the result of \<open>Flush\<close> is not checked),
  so every line reads as the empty string, which does not parse; such an iteration counts neither
  a pruned byte nor a miss. As long as the context is not cancelled and the seeks succeed, the
  operation does not end, and it keeps \<open>pruneLk\<close>.\<close>

theorem unflushed_candidates_spin:
  assumes "bs_all_keys bs (pstore p) = Inr cs" and "pe_create pe = None"
    and "write_candidates pe 0 cs [] 0 p = (Inr (doc, n), p1)" and "n \<noteq> 0" and "0 < target"
    and "pe_disk pe doc = []" and "pe_parse pe [] = Inl e"
    and "\<forall>k. pe_ctx pe k = None \<and> pe_seek pe k = None"
  shows "prune bs pe target fuel p = None"
proof -
  have iter: "prune_iter bs pe [] n k 0 0 p1 = Again 0 0 p1" for k
    using assms(7,8) by (simp add: prune_iter_def line_at_def trim_space_Nil)
  have "prune_loop bs pe [] n target fuel k 0 0 p1 = None" for k
    using assms(5) by (induction fuel arbitrary: k) (simp_all add: iter)
  with assms show ?thesis by (simp add: prune_def)
qed

definition unflushed_pe :: prune_env where
  "unflushed_pe = demo_pe\<lparr>pe_disk := (\<lambda>doc. [])\<rparr>"

lemma unflushed_candidates_spin_witness:
  "prune mem_blockstore unflushed_pe 4 1000 demo_pruner = None"
proof -
  have "write_candidates unflushed_pe 0 [Cid ''a'', Cid ''b''] [] 0 demo_pruner =
      (Inr (candidate_text demo_pe [Cid ''a''], 1), demo_pruner)"
    by (simp add: unflushed_pe_def demo_pe_def demo_pruner_def is_pinned_def time_since_def duration_defs
        candidate_text_def candidate_line_def)
  from unflushed_candidates_spin [OF demo_pruner_keys _ this, of 4 "Msg ''cid too short''" 1000]
  show ?thesis by (simp add: unflushed_pe_def demo_pe_def)
qed

text \<open>A pin taken after the listing does not protect a block. The removal loop does not look at the
  pins, so when it draws the line of a block that was put again meanwhile, and whose pin therefore
  holds, it removes the block all the same.\<close>

lemma late_pin_does_not_protect:
  assumes "reliable_block_store bs contents" and "codec_ok pe sel" and "sel \<noteq> []"
    and "pe_ctx pe k = None" and "pe_seek pe k = None"
    and "contents (pstore p) (drawn pe sel k) = Some d"
    and "fst (is_pinned (pe_clock pe k) (drawn pe sel k) p)"
  shows "\<exists>p'. prune_iter bs pe (candidate_text pe sel) (length sel) k pruned nf p =
      Again (pruned + word_of_nat (length d)) 0 p' \<and>
    contents (pstore p') (drawn pe sel k) = None \<and> fst (is_pinned (pe_clock pe k) (drawn pe sel k) p')"
proof -
  have bs: "block_store bs contents" using assms(1) by (rule reliable_block_store.axioms)
  have size: "bs_get_size bs (pstore p) (drawn pe sel k) = Inr (int (length d))"
    using reliable_block_store.get_size_total [OF assms(1,6)] .
  obtain s' where del: "bs_delete bs (pstore p) (drawn pe sel k) = (None, s')"
    using reliable_block_store.delete_total [OF assms(1), of "pstore p" "drawn pe sel k"] assms(6) by auto
  have "prune_iter bs pe (candidate_text pe sel) (length sel) k pruned nf p =
      Again (pruned + word_of_nat (length d)) 0
        (p\<lparr>pstore := s', psize := psize p - word_of_nat (length d)\<rparr>)"
    using assms(4,5) size del by (simp add: prune_iter_def parse_drawn [OF assms(2,3)] pruner_delete_def)
  moreover have "contents s' (drawn pe sel k) = None"
    using block_store.delete_ok [OF bs del] by simp
  ultimately show ?thesis using assms(7) by (simp add: is_pinned_fst)
qed

end
