(* ===== verification/Disk_Keystore.thy ===== *)
theory Disk_Keystore
  imports Go_Files
begin

text \<open>
  \<open>DiskKeyStore\<close> (src/keystore/keystore.go): a directory with one file per key, named by the base32
  form of the key's name and readable by its owner only. The base32 and JSON codecs are the
  parameter \<open>key_codec\<close>.
\<close>

unbundle bit_operations_syntax

section \<open>The key store\<close>

record 'i key_codec =
  base32_encode :: "string \<Rightarrow> string"
  base32_decode :: "string \<Rightarrow> go_error + string"
  json_marshal :: "'i \<Rightarrow> go_error + bytes"
  json_unmarshal :: "bytes \<Rightarrow> go_error + 'i"

definition too_relaxed :: "file_mode \<Rightarrow> bool" where
  "too_relaxed m = (m AND 0x3F \<noteq> 0)"

text \<open>The octal modes 0700, 0600 and 0077 are \<open>0x1C0\<close>, \<open>0x180\<close> and \<open>0x3F\<close>. The store is its path.\<close>

definition open_or_init_keystore :: "os_env \<Rightarrow> string \<Rightarrow> fs \<Rightarrow> (go_error + string) \<times> fs" where
  "open_or_init_keystore oe p fs =
     (case os_stat oe fs p of
        Inr m \<Rightarrow> (Inr p, fs)
      | Inl e \<Rightarrow>
          if e \<noteq> NotExist then (Inl e, fs)
          else (case os_mkdir oe p 0x1C0 fs of (Some e', fs') \<Rightarrow> (Inl e', fs') | (None, fs') \<Rightarrow> (Inr p, fs')))"

definition key_path :: "'i key_codec \<Rightarrow> string \<Rightarrow> string \<Rightarrow> string" where
  "key_path kc p name = path_join [p, base32_encode kc name]"

fun list_names :: "'i key_codec \<Rightarrow> (string \<times> file_mode) list \<Rightarrow> string list \<Rightarrow> go_error + string list" where
  "list_names kc [] keys = Inr keys"
| "list_names kc ((f, m) # fl) keys =
     (if too_relaxed m then Inl (Msg (''permissions of key: '' @ f @ '' are too relaxed''))
      else case base32_decode kc f of
             Inl e \<Rightarrow> Inl (Wrapped (''decoding key: '' @ f) e)
           | Inr name \<Rightarrow> list_names kc fl (keys @ [name]))"

definition read_dir :: "os_env \<Rightarrow> fs \<Rightarrow> string \<Rightarrow> (string \<times> file_mode) list" where
  "read_dir oe fs p =
     List.map_filter (\<lambda>n. map_option (\<lambda>nd. (n, node_mode nd)) (fs (fst (resolve p), snd (resolve p) @ [n])))
       (os_order oe p)"

definition keystore_list :: "'i key_codec \<Rightarrow> os_env \<Rightarrow> fs \<Rightarrow> string \<Rightarrow> go_error + string list" where
  "keystore_list kc oe fs p =
     (case os_fault oe OpOpen p of
        Some e \<Rightarrow> Inl (Wrapped ''opening dir to list keystore'' e)
      | None \<Rightarrow>
          if resolve p \<notin> dom fs then Inl (Wrapped ''opening dir to list keystore'' NotExist)
          else case os_fault oe OpReaddir p of
                 Some e \<Rightarrow> Inl (Wrapped ''reading keystore dir'' e)
               | None \<Rightarrow>
                   if \<not> is_directory fs (resolve p) then Inl (Wrapped ''reading keystore dir'' (Msg ''not a directory''))
                   else list_names kc (read_dir oe fs p) [])"

definition keystore_get :: "'i key_codec \<Rightarrow> os_env \<Rightarrow> fs \<Rightarrow> string \<Rightarrow> string \<Rightarrow> go_error + 'i" where
  "keystore_get kc oe fs p name =
     (let kp = key_path kc p name
      in case os_stat oe fs kp of
           Inl e \<Rightarrow> Inl (Wrapped (''opening key '' @ name) (if e = NotExist then KeyInfoNotFound else e))
         | Inr m \<Rightarrow>
             if too_relaxed m then Inl (Msg (''permissions of key: '' @ name @ '' are too relaxed''))
             else case os_fault oe OpOpen kp of
                    Some e \<Rightarrow> Inl (Wrapped (''opening key '' @ name) e)
                  | None \<Rightarrow>
                (case os_read_file oe fs kp of
                   Inl e \<Rightarrow> Inl (Wrapped (''reading key '' @ name) e)
                 | Inr d \<Rightarrow>
                     (case json_unmarshal kc d of
                        Inl e \<Rightarrow> Inl (Wrapped (''decoding key '' @ name) e)
                      | Inr i \<Rightarrow> Inr i)))"

definition keystore_put ::
  "'i key_codec \<Rightarrow> os_env \<Rightarrow> string \<Rightarrow> string \<Rightarrow> 'i \<Rightarrow> fs \<Rightarrow> go_error option \<times> fs" where
  "keystore_put kc oe p name info fs =
     (let kp = key_path kc p name
      in case os_stat oe fs kp of
           Inr m \<Rightarrow> (Some (Wrapped (''checking key before put '' @ name) KeyExists), fs)
         | Inl e \<Rightarrow>
             if e \<noteq> NotExist then (Some (Wrapped (''checking key before put '' @ name) e), fs)
             else case json_marshal kc info of
                    Inl e \<Rightarrow> (Some (Wrapped (''encoding key '' @ name) e), fs)
                  | Inr d \<Rightarrow>
                      (case os_write_file oe kp d 0x180 fs of
                         (Some e, fs') \<Rightarrow> (Some (Wrapped (''writing key '' @ name) e), fs')
                       | (None, fs') \<Rightarrow> (None, fs')))"

definition keystore_delete ::
  "'i key_codec \<Rightarrow> os_env \<Rightarrow> string \<Rightarrow> string \<Rightarrow> fs \<Rightarrow> go_error option \<times> fs" where
  "keystore_delete kc oe p name fs =
     (let kp = key_path kc p name
      in case os_stat oe fs kp of
           Inl e \<Rightarrow>
             (Some (Wrapped (''checking key before delete '' @ name) (if e = NotExist then KeyInfoNotFound else e)), fs)
         | Inr m \<Rightarrow>
             (case os_remove oe kp fs of
                (Some e, fs') \<Rightarrow> (Some (Wrapped (''deleting key '' @ name) e), fs')
              | (None, fs') \<Rightarrow> (None, fs')))"

section \<open>The contract of a key store\<close>

text \<open>
  What a user of a key store relies on, over a view of the store as a map from names to keys: reading
  gives what the view holds, a successful put adds a new key and nothing else, a failed one
  leaves the other keys alone, a delete removes one key.
\<close>

locale key_store =
  fixes get :: "'s \<Rightarrow> string \<Rightarrow> go_error + 'i"
    and put :: "string \<Rightarrow> 'i \<Rightarrow> 's \<Rightarrow> go_error option \<times> 's"
    and del :: "string \<Rightarrow> 's \<Rightarrow> go_error option \<times> 's"
    and keys :: "'s \<Rightarrow> string \<rightharpoonup> 'i"
    and good :: "'s \<Rightarrow> bool"
  assumes get_held: "good s \<Longrightarrow> n \<noteq> [] \<Longrightarrow> get s n = Inr i \<Longrightarrow> keys s n = Some i"
    and put_ok: "good s \<Longrightarrow> n \<noteq> [] \<Longrightarrow> put n i s = (None, s') \<Longrightarrow>
      good s' \<and> keys s n = None \<and> keys s' = (keys s)(n \<mapsto> i)"
    and put_failed: "good s \<Longrightarrow> n \<noteq> [] \<Longrightarrow> put n i s = (Some e, s') \<Longrightarrow>
      good s' \<and> (\<forall>n'. n' \<noteq> n \<longrightarrow> keys s' n' = keys s n') \<and> (keys s n \<noteq> None \<longrightarrow> keys s' n = keys s n)"
    and del_ok: "good s \<Longrightarrow> n \<noteq> [] \<Longrightarrow> del n s = (None, s') \<Longrightarrow> good s' \<and> keys s' = (keys s)(n := None)"
    and del_failed: "good s \<Longrightarrow> n \<noteq> [] \<Longrightarrow> del n s = (Some e, s') \<Longrightarrow> s' = s"
begin

lemma put_good: "good s \<Longrightarrow> n \<noteq> [] \<Longrightarrow> put n i s = (r, s') \<Longrightarrow> good s'"
  using put_ok put_failed by (cases r) blast+

lemma put_keeps: "good s \<Longrightarrow> n \<noteq> [] \<Longrightarrow> put n i s = (r, s') \<Longrightarrow> keys s \<subseteq>\<^sub>m keys s'"
proof (cases r)
  case None
  moreover assume "good s" "n \<noteq> []" "put n i s = (r, s')"
  ultimately show ?thesis using put_ok [of s n i s'] by (auto simp: map_le_def)
next
  case (Some e)
  moreover assume "good s" "n \<noteq> []" "put n i s = (r, s')"
  ultimately have "\<forall>n'. n' \<noteq> n \<longrightarrow> keys s' n' = keys s n'" "keys s n \<noteq> None \<longrightarrow> keys s' n = keys s n"
    using put_failed [of s n i e s'] by simp_all
  then show ?thesis unfolding map_le_def by (metis domIff)
qed

lemma put_existing: "good s \<Longrightarrow> n \<noteq> [] \<Longrightarrow> keys s n \<noteq> None \<Longrightarrow> put n i s = (r, s') \<Longrightarrow> r \<noteq> None"
  using put_ok [of s n i s'] by (cases r) auto

lemma get_after_put:
  "good s \<Longrightarrow> n \<noteq> [] \<Longrightarrow> put n i s = (None, s') \<Longrightarrow> get s' n = Inr j \<Longrightarrow> j = i"
  using put_ok [of s n i s'] get_held [of s' n j] by simp

lemma get_after_del: "good s \<Longrightarrow> n \<noteq> [] \<Longrightarrow> del n s = (None, s') \<Longrightarrow> get s' n \<noteq> Inr j"
  using del_ok [of s n s'] get_held [of s' n j] by auto

text \<open>Any sequence of puts, whatever fails on the way, leaves the keys it found.\<close>

lemma puts_keep:
  assumes "good s" and "\<forall>(n, i) \<in> set calls. n \<noteq> []"
  shows "good (fold (\<lambda>(n, i) s. snd (put n i s)) calls s) \<and>
     keys s \<subseteq>\<^sub>m keys (fold (\<lambda>(n, i) s. snd (put n i s)) calls s)"
  using assms
proof (induction calls arbitrary: s)
  case (Cons c calls)
  obtain n i r s1 where c: "c = (n, i)" and put: "put n i s = (r, s1)" by (metis prod.exhaust)
  with Cons.prems have "good s1" "keys s \<subseteq>\<^sub>m keys s1" using put_good put_keeps by auto
  with Cons.IH [of s1] Cons.prems(2) c put show ?case by (auto intro: map_le_trans)
qed simp

end

section \<open>The disk key store keeps the contract\<close>

text \<open>What the codecs promise: a name's code can be decoded, is a simple file name unless the name is
  empty, and what was marshalled unmarshals.\<close>

locale codec_laws =
  fixes kc :: "'i key_codec"
  assumes decode_encode: "base32_decode kc (base32_encode kc n) = Inr n"
    and encode_nothing: "base32_encode kc [] = []"
    and encode_simple: "n \<noteq> [] \<Longrightarrow> simple_name (base32_encode kc n)"
    and unmarshal_marshal: "json_marshal kc i = Inr d \<Longrightarrow> json_unmarshal kc d = Inr i"
begin

lemma encode_inject: "base32_encode kc n = base32_encode kc n' \<longleftrightarrow> n = n'"
  by (metis decode_encode sum.inject(2))

end

definition key_place :: "'i key_codec \<Rightarrow> string \<Rightarrow> string \<Rightarrow> place" where
  "key_place kc p n = (rooted p, clean_components p @ [base32_encode kc n])"

definition keys_on_disk :: "'i key_codec \<Rightarrow> string \<Rightarrow> fs \<Rightarrow> string \<rightharpoonup> 'i" where
  "keys_on_disk kc p fs n =
     (case fs (key_place kc p n) of
        Some (File m d) \<Rightarrow> if too_relaxed m then None else (case json_unmarshal kc d of Inl e \<Rightarrow> None | Inr i \<Rightarrow> Some i)
      | _ \<Rightarrow> None)"

lemma private_mode [simp]: "\<not> too_relaxed (0x180 AND NOT m)" "\<not> too_relaxed (0x1C0 AND NOT m)"
proof -
  have swap: "(x AND NOT m) AND y = (x AND y) AND NOT m" for x y :: file_mode
    by (simp only: and.assoc and.commute and.left_commute)
  show "\<not> too_relaxed (0x180 AND NOT m)" "\<not> too_relaxed (0x1C0 AND NOT m)"
    unfolding too_relaxed_def swap by simp_all
qed

locale disk_store = codec_laws +
  fixes oe :: os_env and p :: string
  assumes path_given: "p \<noteq> []"
    and stat_honest: "os_fault oe OpStat q \<noteq> Some NotExist"
begin

lemma resolve_key: "n \<noteq> [] \<Longrightarrow> resolve (key_path kc p n) = key_place kc p n"
  by (simp add: key_path_def key_place_def resolve_join_simple path_given encode_simple)

lemma key_place_inject: "key_place kc p n = key_place kc p n' \<longleftrightarrow> n = n'"
  by (simp add: key_place_def encode_inject)

lemma parent_key: "parent_of (key_place kc p n) = resolve p"
  by (simp add: parent_of_def key_place_def resolve_def)

lemma key_place_not_dir: "key_place kc p n \<noteq> resolve p" "resolve p \<noteq> key_place kc p n"
  by (simp_all add: key_place_def resolve_def)

lemma keys_upd:
  "keys_on_disk kc p (fs(key_place kc p n \<mapsto> File m d)) =
     (keys_on_disk kc p fs)(n := if too_relaxed m then None else case json_unmarshal kc d of Inl e \<Rightarrow> None | Inr i \<Rightarrow> Some i)"
  "keys_on_disk kc p (fs(key_place kc p n := None)) = (keys_on_disk kc p fs)(n := None)"
  by (auto simp: keys_on_disk_def key_place_inject fun_eq_iff)

lemma stat_key:
  "n \<noteq> [] \<Longrightarrow> os_stat oe fs (key_path kc p n) = Inl NotExist \<Longrightarrow> fs (key_place kc p n) = None"
  using stat_honest by (auto simp: os_stat_def resolve_key split: option.splits)

text \<open>A put does nothing, or creates the file, which was not there, with all or part of the data.\<close>

lemma put_cases:
  assumes "keystore_put kc oe p n i fs = (r, fs')" and "n \<noteq> []"
  shows "(fs' = fs \<and> r \<noteq> None) \<or>
     (fs (key_place kc p n) = None \<and> (\<exists>d. (r = None \<longrightarrow> json_marshal kc i = Inr d) \<and>
        fs' = fs(key_place kc p n \<mapsto> File (0x180 AND NOT (os_umask oe)) d)))"
proof (cases "os_stat oe fs (key_path kc p n)")
  case (Inr m)
  with assms show ?thesis by (auto simp: keystore_put_def)
next
  case stat: (Inl e)
  show ?thesis
  proof (cases "e = NotExist")
    case True
    then have "fs (key_place kc p n) = None" using stat stat_key [OF assms(2)] by simp
    with True stat assms show ?thesis
      by (auto simp: keystore_put_def os_write_file_def put_node_def resolve_key [OF assms(2)] Let_def
          split: sum.splits option.splits if_splits prod.splits)
  next
    case False
    with stat assms show ?thesis by (auto simp: keystore_put_def Let_def)
  qed
qed

lemma delete_cases:
  assumes "keystore_delete kc oe p n fs = (r, fs')" and "n \<noteq> []"
  shows "(fs' = fs \<and> r \<noteq> None) \<or> (r = None \<and> fs' = fs(key_place kc p n := None))"
  using assms
  by (auto simp: keystore_delete_def os_remove_def resolve_key [OF assms(2)] Let_def
      split: sum.splits option.splits if_splits prod.splits)

lemma get_held_on_disk:
  assumes "keystore_get kc oe fs p n = Inr i" and "n \<noteq> []"
  shows "keys_on_disk kc p fs n = Some i"
  using assms
  by (auto simp: keystore_get_def os_stat_def os_read_file_def keys_on_disk_def resolve_key [OF assms(2)] Let_def
      split: sum.splits option.splits if_splits node.splits)

end

sublocale disk_store \<subseteq> store: key_store "\<lambda>fs n. keystore_get kc oe fs p n" "keystore_put kc oe p"
  "keystore_delete kc oe p" "keys_on_disk kc p" "\<lambda>fs. is_directory fs (resolve p)"
proof (unfold_locales, goal_cases)
  case (1 s n i)
  then show ?case by (simp add: get_held_on_disk)
next
  case (2 s n i s')
  from put_cases [OF 2(3,2)] obtain d where "s (key_place kc p n) = None" "json_marshal kc i = Inr d"
    "s' = s(key_place kc p n \<mapsto> File (0x180 AND NOT (os_umask oe)) d)" by auto
  with 2 show ?case
    by (auto simp: keys_upd unmarshal_marshal keys_on_disk_def is_directory_def key_place_not_dir)
next
  case (3 s n i e s')
  from put_cases [OF 3(3,2)] show ?case
    using 3(1) by (auto simp: keys_upd is_directory_def key_place_not_dir) (simp_all add: keys_on_disk_def)
next
  case (4 s n s')
  from delete_cases [OF 4(3,2)] have "s' = s(key_place kc p n := None)" by simp
  with 4(1) show ?case by (simp add: keys_upd is_directory_def key_place_not_dir)
next
  case (5 s n e s')
  from delete_cases [OF 5(3,2)] show ?case by simp
qed

text \<open>Listing gives the names of the keys: when each file in the directory is the private file of a key,
  \<open>List\<close> decodes exactly their names, in the order of the directory; one file that is too
  relaxed, or whose name is not base32, makes it fail.\<close>

lemma list_names_ok:
  "list_names kc fl keys = Inr ks \<longleftrightarrow>
     (\<forall>(f, m) \<in> set fl. \<not> too_relaxed m \<and> (\<exists>n. base32_decode kc f = Inr n)) \<and>
     ks = keys @ map (\<lambda>(f, m). projr (base32_decode kc f)) fl"
proof (induction kc fl keys rule: list_names.induct)
  case (2 kc f m fl keys)
  show ?case
  proof (cases "base32_decode kc f")
    case (Inl e)
    then show ?thesis by simp
  next
    case (Inr n)
    with "2.IH" show ?thesis by auto
  qed
qed auto

lemma keystore_list_names:
  assumes "codec_laws kc" and "\<forall>op q. os_fault oe op q = None" and "is_directory fs (resolve p)"
    and "os_order oe p = map (base32_encode kc) names"
    and "\<forall>n \<in> set names. \<exists>m d. fs (key_place kc p n) = Some (File m d) \<and> \<not> too_relaxed m"
  shows "keystore_list kc oe fs p = Inr names"
proof -
  have place: "(fst (resolve p), snd (resolve p) @ [base32_encode kc n]) = key_place kc p n" for n
    by (simp add: key_place_def resolve_def)
  have "read_dir oe fs p = map (\<lambda>n. (base32_encode kc n, node_mode (the (fs (key_place kc p n))))) names"
    using assms(5)
    unfolding read_dir_def assms(4)
    by (induction names) (auto simp: List.map_filter_simps place)
  moreover have "base32_decode kc (base32_encode kc n) = Inr n" for n
    by (rule codec_laws.decode_encode [OF assms(1)])
  moreover have "resolve p \<in> dom fs" using assms(3) by (auto simp: is_directory_def split: option.splits)
  ultimately show ?thesis
    using assms(2,3,5) by (fastforce simp: keystore_list_def list_names_ok o_def map_idI)
qed

section \<open>An instance\<close>

text \<open>A codec that writes each byte as two letters stands for base32 where a run is evaluated.\<close>

definition letter :: "nat \<Rightarrow> char" where "letter k = char_of (65 + k)"

definition encode_letters :: "string \<Rightarrow> string" where
  "encode_letters s = concat (map (\<lambda>c. [letter (of_char c div 16), letter (of_char c mod 16)]) s)"

fun decode_letters :: "string \<Rightarrow> go_error + string" where
  "decode_letters [] = Inr []"
| "decode_letters [c] = Inl (Msg ''odd length'')"
| "decode_letters (c # d # cs) =
     (case decode_letters cs of
        Inl e \<Rightarrow> Inl e
      | Inr s \<Rightarrow> Inr (char_of (16 * ((of_char c :: nat) - 65) + ((of_char d :: nat) - 65)) # s))"

definition letters_codec :: "string key_codec" where
  "letters_codec = \<lparr>base32_encode = encode_letters, base32_decode = decode_letters,
     json_marshal = Inr, json_unmarshal = Inr\<rparr>"

lemma of_char_letter: "k < 16 \<Longrightarrow> of_char (letter k) = 65 + k"
  by (simp add: letter_def)

lemma high_letter: "(of_char c :: nat) div 16 < 16"
  by (rule less_mult_imp_div_less) simp

lemma decode_encode_letters: "decode_letters (encode_letters s) = Inr s"
proof (induction s)
  case (Cons c s)
  from high_letter [of c] Cons show ?case by (simp add: encode_letters_def of_char_letter)
qed (simp add: encode_letters_def)

lemma letter_plain: "k < 16 \<Longrightarrow> letter k \<noteq> CHR ''.'' \<and> letter k \<noteq> slash"
  by (auto simp: slash_def dest!: arg_cong [of _ _ "of_char :: char \<Rightarrow> nat"] simp: of_char_letter)

lemma encode_letters_simple: "s \<noteq> [] \<Longrightarrow> simple_name (encode_letters s)"
proof -
  assume "s \<noteq> []"
  then obtain c cs where s: "s = c # cs" by (cases s) auto
  note lt = high_letter
  have "encode_letters s = letter (of_char c div 16) # letter (of_char c mod 16) # encode_letters cs"
    by (simp add: encode_letters_def s)
  moreover have "slash \<notin> set (encode_letters s)"
  proof -
    have "slash \<noteq> letter (of_char x div 16)" "slash \<noteq> letter (of_char x mod 16)" for x :: char
      using letter_plain [of "of_char x div 16"] letter_plain [of "of_char x mod 16"] lt [of x] by auto
    then show ?thesis by (auto simp: encode_letters_def)
  qed
  ultimately show ?thesis
    using letter_plain [OF lt] by (auto simp: simple_name_def dot_def dotdot_def)
qed

interpretation letters: codec_laws letters_codec
  by unfold_locales
    (simp_all add: letters_codec_def decode_encode_letters encode_letters_simple, simp_all add: encode_letters_def)

definition calm_os :: os_env where
  "calm_os = \<lparr>os_fault = (\<lambda>op p. None), os_torn = (\<lambda>p. None), os_umask = 0x12, os_order = (\<lambda>p. [])\<rparr>"

interpretation letters_store: disk_store letters_codec calm_os "''/data/wallet''"
  by unfold_locales (simp_all add: calm_os_def)

context disk_store
begin

lemma store_contract:
  "key_store (\<lambda>fs n. keystore_get kc oe fs p n) (keystore_put kc oe p) (keystore_delete kc oe p)
     (keys_on_disk kc p) (\<lambda>fs. is_directory fs (resolve p))"
  by (rule store.key_store_axioms)

end

section \<open>Properties\<close>

text \<open>C33. The disk key store keeps the contract of a key store. For every codec that decodes what it
  encodes, every non-empty path and every behaviour of the operating system, failed and torn
  writes included, in which \<open>Stat\<close> says that a file does not exist only when it does not: for non-empty
  names, a key that is read is the one stored; a successful put adds a new key readable by its
  owner only; a failed put leaves the other keys as they were, and the named one if it existed;
  a delete removes the named key; a failed delete changes nothing.\<close>

theorem keystore_keeps_contract:
  assumes "codec_laws kc" and "p \<noteq> []" and "\<forall>q. os_fault oe OpStat q \<noteq> Some NotExist"
  shows "key_store (\<lambda>fs n. keystore_get kc oe fs p n) (keystore_put kc oe p) (keystore_delete kc oe p)
     (keys_on_disk kc p) (\<lambda>fs. is_directory fs (resolve p))"
proof -
  have "disk_store kc oe p" using assms by (simp add: disk_store_def disk_store_axioms_def)
  then show ?thesis by (rule disk_store.store_contract)
qed

definition demo_fs :: fs where
  "demo_fs = [resolve ''/data/wallet'' \<mapsto> Directory 0x1C0]"

lemma demo_sel [simp]:
  "json_marshal letters_codec i = Inr i" "json_unmarshal letters_codec d = Inr d"
  "os_fault calm_os op q = None" "is_directory demo_fs (resolve ''/data/wallet'')"
  "demo_fs (resolve ''/data/wallet'') = Some (Directory 0x1C0)"
  by (simp_all add: letters_codec_def calm_os_def demo_fs_def is_directory_def)

definition demo_place :: place where "demo_place = key_place letters_codec ''/data/wallet'' ''k''"

lemma demo_place_free [simp]: "demo_fs demo_place = None"
  using letters_store.key_place_not_dir [of "''k''"] by (simp add: demo_fs_def demo_place_def)

definition demo_after :: fs where
  "demo_after = demo_fs(demo_place \<mapsto> File (0x180 AND NOT (os_umask calm_os)) ''secret'')"

lemma demo_put: "keystore_put letters_codec calm_os ''/data/wallet'' ''k'' ''secret'' demo_fs = (None, demo_after)"
proof -
  have place: "resolve (key_path letters_codec ''/data/wallet'' ''k'') = demo_place"
    "parent_of demo_place = resolve ''/data/wallet''" "is_directory demo_fs demo_place = False"
    using letters_store.resolve_key [of "''k''"] letters_store.parent_key [of "''k''"]
    by (simp_all add: demo_place_def [symmetric] is_directory_def)
  then show ?thesis
    by (simp add: keystore_put_def os_stat_def os_write_file_def put_node_def demo_after_def Let_def)
qed

lemma keystore_keeps_contract_witness:
  "keys_on_disk letters_codec ''/data/wallet'' demo_after =
     (keys_on_disk letters_codec ''/data/wallet'' demo_fs)(''k'' \<mapsto> ''secret'')"
proof -
  have "\<forall>q. os_fault calm_os OpStat q \<noteq> Some NotExist" by simp
  note contract = keystore_keeps_contract [OF letters.codec_laws_axioms _ this, of "''/data/wallet''"]
  show ?thesis
    using key_store.put_ok [OF contract, of demo_fs "''k''" "''secret''" demo_after] demo_put by simp
qed

text \<open>Without faults, a key that is put can be read back. When the operating system has no
  fault to report, the store's directory exists, the name is not empty and its key is not
  there, then a put succeeds; the key is then read back under its name; a second put under the
  name is refused with \<open>ErrKeyExists\<close> and changes nothing; and a delete succeeds and brings the
  files back to what they were before the put.\<close>

lemma keystore_roundtrip:
  assumes "codec_laws kc" and "p \<noteq> []" and "\<forall>op q. os_fault oe op q = None"
    and "is_directory fs (resolve p)" and "n \<noteq> []" and "fs (key_place kc p n) = None"
    and "json_marshal kc i = Inr d"
  shows "\<exists>fs'. keystore_put kc oe p n i fs = (None, fs') \<and> keystore_get kc oe fs' p n = Inr i \<and>
     (\<exists>e. keystore_put kc oe p n j fs' = (Some e, fs') \<and> errors_is e KeyExists) \<and>
     keystore_delete kc oe p n fs' = (None, fs)"
proof -
  have store: "disk_store kc oe p" using assms(1-3) by (simp add: disk_store_def disk_store_axioms_def)
  note place = disk_store.resolve_key [OF store assms(5)] disk_store.parent_key [OF store]
  let ?fs = "fs(key_place kc p n \<mapsto> File (0x180 AND NOT (os_umask oe)) d)"
  have "keystore_put kc oe p n i fs = (None, ?fs)"
    using assms(3,4,6,7)
    by (simp add: keystore_put_def os_stat_def os_write_file_def put_node_def place is_directory_def)
  moreover have "keystore_get kc oe ?fs p n = Inr i"
    using assms(3) codec_laws.unmarshal_marshal [OF assms(1,7)]
    by (simp add: keystore_get_def os_stat_def os_read_file_def place)
  moreover have "keystore_put kc oe p n j ?fs = (Some (Wrapped (''checking key before put '' @ n) KeyExists), ?fs)"
    using assms(3) by (simp add: keystore_put_def os_stat_def place)
  moreover have "fs(key_place kc p n := None) = fs" using assms(6) by auto
  then have "keystore_delete kc oe p n ?fs = (None, fs)"
    using assms(3) by (simp add: keystore_delete_def os_stat_def os_remove_def place is_directory_def)
  ultimately show ?thesis by (intro exI [of _ ?fs]) (simp add: errors_is_def)
qed

text \<open>Deleting the empty name can remove the store itself. The code of the empty name is empty, so its
  path is the store's directory: when that is empty and nothing fails, the delete reports success and
  the directory is gone, after which no key can be put.\<close>

lemma delete_empty_name_removes_store:
  assumes "codec_laws kc" and "p \<noteq> []" and "\<forall>op q. os_fault oe op q = None"
    and "is_directory fs (resolve p)" and "children fs (resolve p) = {}"
    and "n \<noteq> []" and "fs (key_place kc p n) = None"
  shows "keystore_delete kc oe p [] fs = (None, fs(resolve p := None)) \<and>
     (\<exists>e. fst (keystore_put kc oe p n i (fs(resolve p := None))) = Some e)"
proof -
  have store: "disk_store kc oe p" using assms(1-3) by (simp add: disk_store_def disk_store_axioms_def)
  note place = disk_store.resolve_key [OF store assms(6)] disk_store.parent_key [OF store]
    disk_store.key_place_not_dir [OF store]
  have "resolve (key_path kc p []) = resolve p"
    by (simp add: key_path_def codec_laws.encode_nothing [OF assms(1)] resolve_join_nothing [OF assms(2)])
  then have "keystore_delete kc oe p [] fs = (None, fs(resolve p := None))"
    using assms(3,4,5)
    by (auto simp: keystore_delete_def os_stat_def os_remove_def is_directory_def split: option.splits node.splits)
  moreover have "fst (keystore_put kc oe p n i (fs(resolve p := None))) \<noteq> None"
    using assms(3,7)
    by (cases "json_marshal kc i") (simp_all add: keystore_put_def os_stat_def os_write_file_def place is_directory_def)
  ultimately show ?thesis by auto
qed

end
