(* ===== verification/Application.thy ===== *)
theory Application
  imports Estuary_Registration Random_Pruner Disk_Keystore
begin

text \<open>
  How the program is put together: \<open>New\<close>, \<open>initHost\<close> and \<open>Close\<close> of src/autoretrieve.go and the main command
  \<open>cmd\<close> of src/main.go. Starting threads the file system and the list of what was opened or
  started through the steps of the code, each of which may fail or panic. The libp2p host, the Lotus gateway,
  the datastores, the wallet, the payment channel manager, the retriever and the routing tables are
  parameters of the record \<open>app_env\<close>: whether making them fails.
\<close>

section \<open>Steps\<close>

datatype opened =
    OpenedHost | ResourceStats | OpenedGateway | OpenedBlockstore | PruneTicker | PruneRun
  | ManagerGoroutine goroutine | OpenedDatastore | StartedPayChannels | StartedRetriever | EventRecorder string
  | BitswapNetwork | ProviderWorkers nat | Heartbeat

type_synonym boot_state = "fs \<times> opened list"
type_synonym 'a boot = "boot_state \<Rightarrow> (go_error + 'a) outcome \<times> boot_state"

definition boot_return :: "'a \<Rightarrow> 'a boot" where
  "boot_return x s = (Returns (Inr x), s)"

definition boot_try :: "go_error + 'a \<Rightarrow> 'a boot" where
  "boot_try r s = (Returns r, s)"

definition boot_check :: "go_error option \<Rightarrow> unit boot" where
  "boot_check e s = (Returns (case e of None \<Rightarrow> Inr () | Some x \<Rightarrow> Inl x), s)"

definition boot_open :: "opened list \<Rightarrow> unit boot" where
  "boot_open xs = (\<lambda>(fs, opened). (Returns (Inr ()), fs, opened @ xs))"

definition boot_fs :: "(fs \<Rightarrow> (go_error + 'a) outcome \<times> fs) \<Rightarrow> 'a boot" where
  "boot_fs f = (\<lambda>(fs, opened). case f fs of (r, fs') \<Rightarrow> (r, fs', opened))"

definition boot_bind :: "'a boot \<Rightarrow> ('a \<Rightarrow> 'b boot) \<Rightarrow> 'b boot" where
  "boot_bind m f s =
     (case m s of
        (Panics p, s') \<Rightarrow> (Panics p, s')
      | (Returns (Inl e), s') \<Rightarrow> (Returns (Inl e), s')
      | (Returns (Inr x), s') \<Rightarrow> f x s')"

section \<open>The parts\<close>

datatype finder = EstuaryFinder string | IndexerFinder string

datatype 's app_store = Unpruned 's | Pruned "'s pruner"

record ('k, 'h, 's, 'ma, 'r) app_env =
  ae_os :: os_env
  ae_keys :: "'k key_lib"
  ae_libp2p :: "string list \<Rightarrow> 'k \<Rightarrow> go_error + 'h"
  ae_gateway :: "go_error + 'ma gateway"
  ae_parse_shard :: "string \<Rightarrow> go_error option"
  ae_flatfs :: "string \<Rightarrow> go_error + 's"
  ae_disk_usage :: "'s disk_usage"
  ae_now :: go_time
  ae_leveldb :: "string \<Rightarrow> go_error option"
  ae_wallet :: "string \<Rightarrow> go_error option"
  ae_paych_start :: "go_error option"
  ae_client :: "go_error option"
  ae_client_ready :: "go_error option"
  ae_map_order :: "storage_provider list"
  ae_retriever :: "finder \<Rightarrow> retriever_config \<Rightarrow> go_error option"
  ae_fullrt :: "go_error + 'r"
  ae_dht :: "go_error + 'r"
  ae_presence_size :: "cid \<Rightarrow> int"
  ae_parse_url :: "string \<Rightarrow> go_error option"

record ('h, 's, 'r) app =
  ap_host :: 'h
  ap_manager :: "('s app_store, await_cb) manager"
  ap_retriever :: "(finder \<times> retriever_config) option"
  ap_provider :: provider
  ap_routing :: "'r option"
  ap_world :: pworld

section \<open>Starting\<close>

text \<open>\<open>initHost\<close>: the peer key, the host, and the goroutine that logs its resources.\<close>

definition init_host ::
  "('k, 'h, 's, 'ma, 'r) app_env \<Rightarrow> string \<Rightarrow> bool \<Rightarrow> string list \<Rightarrow> 'h boot" where
  "init_host ae dir resource_stats addrs =
     boot_bind (boot_fs (load_peer_key (ae_keys ae) (ae_os ae) dir)) (\<lambda>key.
     boot_bind (boot_try (ae_libp2p ae addrs key)) (\<lambda>host.
     boot_bind (boot_open (OpenedHost # (if resource_stats then [ResourceStats] else []))) (\<lambda>u.
     boot_return host)))"

text \<open>The goroutine that \<open>initHost\<close> starts for the resource statistics. At each tick it ends when the context is done, and
  otherwise logs what the resource manager's system scope says, until that cannot be read.\<close>

record scope_stat =
  st_memory :: int
  st_conns_in :: int
  st_conns_out :: int
  st_fds :: int
  st_streams_in :: int
  st_streams_out :: int

definition stat_line :: "scope_stat \<Rightarrow> string" where
  "stat_line st =
     (let nl = [CHR 0x0A] in
      ''global conn stats: '' @ nl @ ''memory: '' @ int_string (st_memory st) @ '','' @ nl @
      ''number of inbound conns: '' @ int_string (st_conns_in st) @ '','' @ nl @
      ''number of outbound conns: '' @ int_string (st_conns_out st) @ '','' @ nl @
      ''number of file descriptors: '' @ int_string (st_fds st) @ '','' @ nl @
      ''number of inbound streams: '' @ int_string (st_streams_in st) @ '','' @ nl @
      ''number of outbound streams: '' @ int_string (st_streams_out st) @ '','' @ nl)"

fun stats_loop :: "(go_error \<Rightarrow> string) \<Rightarrow> (bool \<times> (go_error + scope_stat)) list \<Rightarrow> string list \<times> bool" where
  "stats_loop show_err [] = ([], False)"
| "stats_loop show_err ((done_now, view) # ticks) =
     (if done_now then ([], True)
      else case view of
             Inl e \<Rightarrow> ([''unable to fetch global resource manager scope: '' @ show_err e], True)
           | Inr st \<Rightarrow> (case stats_loop show_err ticks of (lines, ended) \<Rightarrow> (stat_line st # lines, ended)))"

text \<open>The log is one line per tick before the first at which the context is done or the scope cannot be read, and
  the goroutine has ended exactly when there was such a tick.\<close>

lemma stats_loop_result:
  "\<exists>n. n \<le> length ticks \<and> (\<forall>i < n. \<exists>st. ticks ! i = (False, Inr st) \<and> fst (stats_loop show_err ticks) ! i = stat_line st) \<and>
     (snd (stats_loop show_err ticks) \<longleftrightarrow> n < length ticks) \<and>
     (n < length ticks \<longrightarrow> fst (ticks ! n) \<or> (\<exists>e. snd (ticks ! n) = Inl e)) \<and>
     length (fst (stats_loop show_err ticks)) \<le> Suc n"
proof (induction ticks)
  case (Cons tick ticks)
  obtain done_now view where tick: "tick = (done_now, view)" by (cases tick)
  show ?case
  proof (cases "done_now \<or> (\<exists>e. view = Inl e)")
    case True
    with tick show ?thesis by (intro exI [of _ 0]) (auto split: sum.splits)
  next
    case False
    then obtain st where st: "\<not> done_now" "view = Inr st" by (cases view) auto
    from Cons obtain n where "n \<le> length ticks"
      "\<forall>i < n. \<exists>st. ticks ! i = (False, Inr st) \<and> fst (stats_loop show_err ticks) ! i = stat_line st"
      "snd (stats_loop show_err ticks) \<longleftrightarrow> n < length ticks"
      "n < length ticks \<longrightarrow> fst (ticks ! n) \<or> (\<exists>e. snd (ticks ! n) = Inl e)"
      "length (fst (stats_loop show_err ticks)) \<le> Suc n" by blast
    with tick st show ?thesis
      by (intro exI [of _ "Suc n"]) (auto simp: less_Suc_eq_0_disj split: prod.splits)
  qed
qed simp

text \<open>The blockstore, wrapped with the pruner only when there is a threshold.\<close>

definition open_blockstore :: "('k, 'h, 's, 'ma, 'r) app_env \<Rightarrow> string \<Rightarrow> config \<Rightarrow> 's app_store boot" where
  "open_blockstore ae dir cfg =
     boot_bind (boot_check (ae_parse_shard ae ''/repo/flatfs/shard/v1/next-to-last/3'')) (\<lambda>u.
     boot_bind (boot_try (ae_flatfs ae (path_join [dir, ''blockstore'']))) (\<lambda>st.
     boot_bind (boot_open [OpenedBlockstore]) (\<lambda>u.
       if prune_threshold cfg \<noteq> 0
       then boot_bind (boot_try (new_pruner (ae_disk_usage ae) (ae_now ae) st
                \<lparr>cfg_threshold = prune_threshold cfg, cfg_prune_bytes = 0, cfg_pin_duration = cfg_pin_time cfg\<rparr>)) (\<lambda>(p, started).
              boot_bind (boot_open (PruneTicker # (if started then [PruneRun] else []))) (\<lambda>u.
              boot_return (Pruned p)))
       else boot_return (Unpruned st))))"

text \<open>The wallet over the key store, and the payment channels.\<close>

definition wrap_error :: "string \<Rightarrow> go_error + 'a \<Rightarrow> go_error + 'a" where
  "wrap_error m r = (case r of Inl e \<Rightarrow> Inl (Wrapped m e) | Inr x \<Rightarrow> Inr x)"

definition open_wallet :: "('k, 'h, 's, 'ma, 'r) app_env \<Rightarrow> string \<Rightarrow> unit boot" where
  "open_wallet ae dir =
     boot_bind (boot_fs (\<lambda>fs. case open_or_init_keystore (ae_os ae) (path_join [dir, ''wallet'']) fs of
        (r, fs') \<Rightarrow> (Returns (wrap_error ''keystore initialization failed'' r), fs'))) (\<lambda>ks.
     boot_check (map_option (Wrapped ''wallet initialization failed'') (ae_wallet ae ks)))"

text \<open>The retriever: none when retrieval is disabled.\<close>

definition choose_finder :: "config \<Rightarrow> go_error + finder" where
  "choose_finder cfg =
     (case lookup_endpoint_type cfg of
        EndpointTypeEstuary \<Rightarrow> Inr (EstuaryFinder (lookup_endpoint_url cfg))
      | EndpointTypeIndexer \<Rightarrow> Inr (IndexerFinder (lookup_endpoint_url cfg))
      | EndpointTypeOther n \<Rightarrow> Inl (Msg ''unrecognized candidate finder type''))"

definition make_retriever ::
  "('k, 'h, 's, 'ma, 'r) app_env \<Rightarrow> 'ma gateway \<Rightarrow> cli \<Rightarrow> config \<Rightarrow> (finder \<times> retriever_config) option boot" where
  "make_retriever ae gw cl cfg =
     (if disable_retrieval cfg then boot_return None
      else
        boot_bind (boot_try (choose_finder cfg)) (\<lambda>finder.
        boot_bind (boot_try (extract_retriever_config gw (ae_map_order ae) cfg)) (\<lambda>rc.
        boot_bind (boot_check (ae_client ae)) (\<lambda>u.
        boot_bind (boot_check (ae_client_ready ae)) (\<lambda>u.
        boot_bind (boot_check (ae_retriever ae finder rc)) (\<lambda>u.
        boot_bind (boot_open [StartedRetriever]) (\<lambda>u.
          if event_recorder_url cfg \<noteq> []
          then boot_bind (boot_fs (\<lambda>fs. (Returns (load_event_recorder_auth (ae_os ae) fs (data_dir_path cl)), fs))) (\<lambda>auth.
               boot_bind (boot_open [EventRecorder auth]) (\<lambda>u.
               boot_return (Some (finder, rc))))
          else boot_return (Some (finder, rc)))))))))"

text \<open>The heartbeat goroutine, when an Estuary URL is configured and parses.\<close>

definition start_heartbeat :: "('k, 'h, 's, 'ma, 'r) app_env \<Rightarrow> config \<Rightarrow> unit boot" where
  "start_heartbeat ae cfg =
     (if estuary_url cfg = [] then boot_return ()
      else boot_bind (boot_check (map_option (Wrapped ''could not parse Estuary URL'') (ae_parse_url ae (estuary_url cfg)))) (\<lambda>u.
           boot_open [Heartbeat]))"

text \<open>\<open>New\<close>, in two halves: what it opens, up to the payment channels, and what it starts on that. The mode
  0744 is \<open>0x1E4\<close>.\<close>

definition open_services ::
  "('k, 'h, 's, 'ma, 'r) app_env \<Rightarrow> string \<Rightarrow> config \<Rightarrow> ('h \<times> 'ma gateway \<times> ('s app_store, await_cb) manager) boot" where
  "open_services ae dir cfg =
     boot_bind (boot_fs (\<lambda>fs. case os_mkdir_all (ae_os ae) dir 0x1E4 fs of
         (None, fs') \<Rightarrow> (Returns (Inr ()), fs') | (Some e, fs') \<Rightarrow> (Returns (Inl e), fs'))) (\<lambda>u.
     boot_bind (init_host ae dir (log_resource_manager cfg) [''/ip4/0.0.0.0/tcp/6746'']) (\<lambda>host.
     boot_bind (boot_try (ae_gateway ae)) (\<lambda>gw.
     boot_bind (boot_open [OpenedGateway]) (\<lambda>u.
     boot_bind (open_blockstore ae dir cfg) (\<lambda>store.
     boot_bind (boot_open (map ManagerGoroutine (snd (new_manager store (10 * minute) ::
         ('s app_store, await_cb) manager \<times> goroutine list)))) (\<lambda>u.
     boot_bind (boot_check (ae_leveldb ae (path_join [dir, ''datastore'']))) (\<lambda>u.
     boot_bind (boot_open [OpenedDatastore]) (\<lambda>u.
     boot_bind (open_wallet ae dir) (\<lambda>u.
     boot_bind (boot_check (ae_paych_start ae)) (\<lambda>u.
     boot_bind (boot_open [StartedPayChannels]) (\<lambda>u.
     boot_return (host, gw, fst (new_manager store (10 * minute))))))))))))))"

definition start_services ::
  "('k, 'h, 's, 'ma, 'r) app_env \<Rightarrow> cli \<Rightarrow> config \<Rightarrow> 'h \<Rightarrow> 'ma gateway \<Rightarrow> ('s app_store, await_cb) manager \<Rightarrow>
   ('h, 's, 'r) app boot" where
  "start_services ae cl cfg host gw mgr =
     boot_bind (make_retriever ae gw cl cfg) (\<lambda>retriever.
     let pr = extract_provider cfg (retriever \<noteq> None) (ae_presence_size ae) in
     boot_bind (boot_try (new_provider (ae_fullrt ae) (ae_dht ae) pr)) (\<lambda>(routing, world, workers).
     boot_bind (boot_open [BitswapNetwork, ProviderWorkers workers]) (\<lambda>u.
     boot_bind (start_heartbeat ae cfg) (\<lambda>u.
     boot_return \<lparr>ap_host = host, ap_manager = mgr, ap_retriever = retriever, ap_provider = pr,
                  ap_routing = routing, ap_world = world\<rparr>))))"

definition new_autoretrieve ::
  "('k, 'h, 's, 'ma, 'r) app_env \<Rightarrow> cli \<Rightarrow> string \<Rightarrow> config \<Rightarrow> ('h, 's, 'r) app boot" where
  "new_autoretrieve ae cl dir cfg =
     (if dir = [] then boot_try (Inl (Msg ''dataDir must be set''))
      else boot_bind (open_services ae dir cfg) (\<lambda>(host, gw, mgr). start_services ae cl cfg host gw mgr))"

text \<open>\<open>Close\<close> closes the gateway and the host, and nothing else; \<open>cmd\<close> runs until its context ends.\<close>

definition close_autoretrieve :: "opened list \<Rightarrow> opened list" where
  "close_autoretrieve opened = filter (\<lambda>x. x \<noteq> OpenedGateway \<and> x \<noteq> OpenedHost) opened"

definition cmd ::
  "('k, 'h, 's, 'ma, 'r) app_env \<Rightarrow> (bytes \<Rightarrow> config \<Rightarrow> go_error option \<times> config) \<Rightarrow> cli \<Rightarrow> fs \<Rightarrow>
   go_error option outcome \<times> boot_state" where
  "cmd ae ya cl fs =
     (case get_full_config (os_read_file (ae_os ae) fs) ya cl of
        Inl e \<Rightarrow> (Returns (Some e), fs, [])
      | Inr cfg \<Rightarrow>
          (case new_autoretrieve ae cl (data_dir_path cl) cfg (fs, []) of
             (Panics m, s) \<Rightarrow> (Panics m, s)
           | (Returns (Inl e), s) \<Rightarrow> (Returns (Some e), s)
           | (Returns (Inr app), fs', opened) \<Rightarrow> (Returns None, fs', close_autoretrieve opened)))"

section \<open>What a successful start did\<close>

lemma boot_bind_ok:
  "boot_bind m f s = (Returns (Inr y), t) \<longleftrightarrow> (\<exists>x s1. m s = (Returns (Inr x), s1) \<and> f x s1 = (Returns (Inr y), t))"
  by (auto simp: boot_bind_def split: prod.splits outcome.splits sum.splits)

lemma boot_steps_ok:
  "boot_return x s = (Returns (Inr y), t) \<longleftrightarrow> y = x \<and> t = s"
  "boot_try r s = (Returns (Inr y), t) \<longleftrightarrow> r = Inr y \<and> t = s"
  "boot_check e s = (Returns (Inr u), t) \<longleftrightarrow> e = None \<and> t = s"
  "boot_open xs (fs, ops) = (Returns (Inr u), t) \<longleftrightarrow> t = (fs, ops @ xs)"
  "boot_fs g (fs, ops) = (Returns (Inr y), t) \<longleftrightarrow> (\<exists>fs'. g fs = (Returns (Inr y), fs') \<and> t = (fs', ops))"
  by (auto simp: boot_return_def boot_try_def boot_check_def boot_open_def boot_fs_def split: option.splits prod.splits)

lemmas boot_ok = boot_bind_ok boot_steps_ok

lemma init_host_ok:
  "init_host ae dir rs addrs (fs, ops) = (Returns (Inr host), t) \<Longrightarrow>
     \<exists>k fs'. load_peer_key (ae_keys ae) (ae_os ae) dir fs = (Returns (Inr k), fs') \<and> ae_libp2p ae addrs k = Inr host \<and>
       t = (fs', ops @ OpenedHost # (if rs then [ResourceStats] else []))"
  by (auto simp: init_host_def boot_ok)

definition configured_store :: "config \<Rightarrow> 's app_store \<Rightarrow> bool" where
  "configured_store cfg store =
     (case store of
        Unpruned st \<Rightarrow> prune_threshold cfg = 0
      | Pruned p \<Rightarrow> prune_threshold cfg \<noteq> 0 \<and> threshold p = prune_threshold cfg \<and>
          prune_bytes p = prune_threshold cfg \<and> pin_duration p = cfg_pin_time cfg)"

lemma open_blockstore_ok:
  assumes "open_blockstore ae dir cfg (fs, ops) = (Returns (Inr store), t)"
  shows "configured_store cfg store \<and>
     (\<exists>more_ops. t = (fs, ops @ more_ops) \<and> set more_ops \<subseteq> {OpenedBlockstore, PruneTicker, PruneRun})"
proof (cases "prune_threshold cfg = 0")
  case True
  with assms show ?thesis by (auto simp: open_blockstore_def boot_ok configured_store_def)
next
  case False
  with assms obtain st p started where p: "store = Pruned p"
    "new_pruner (ae_disk_usage ae) (ae_now ae) st
       \<lparr>cfg_threshold = prune_threshold cfg, cfg_prune_bytes = 0, cfg_pin_duration = cfg_pin_time cfg\<rparr> = Inr (p, started)"
    "t = (fs, ops @ OpenedBlockstore # PruneTicker # (if started then [PruneRun] else []))"
    by (auto simp: open_blockstore_def boot_ok split: prod.splits)
  from new_pruner_settings [OF p(2)] have "prune_bytes p = prune_threshold cfg \<and> threshold p = prune_threshold cfg \<and>
      pin_duration p = cfg_pin_time cfg" by (simp add: max_def)
  with False p(1,3) show ?thesis by (auto simp: configured_store_def)
qed

lemma open_wallet_ok:
  assumes "open_wallet ae dir (fs, ops) = (Returns (Inr u), t)"
  shows "\<exists>ks fs'. open_or_init_keystore (ae_os ae) (path_join [dir, ''wallet'']) fs = (Inr ks, fs') \<and> t = (fs', ops)"
  using assms by (auto simp: open_wallet_def boot_ok wrap_error_def split: prod.splits sum.splits)

definition configured_retriever :: "config \<Rightarrow> (finder \<times> retriever_config) option \<Rightarrow> bool" where
  "configured_retriever cfg r =
     (case r of
        None \<Rightarrow> disable_retrieval cfg
      | Some (finder, rc) \<Rightarrow> \<not> disable_retrieval cfg \<and>
          (case finder of
             EstuaryFinder u \<Rightarrow> lookup_endpoint_type cfg = EndpointTypeEstuary \<and> u = lookup_endpoint_url cfg
           | IndexerFinder u \<Rightarrow> lookup_endpoint_type cfg = EndpointTypeIndexer \<and> u = lookup_endpoint_url cfg))"

lemma make_retriever_ok:
  assumes "make_retriever ae gw cl cfg (fs, ops) = (Returns (Inr r), t)"
  shows "configured_retriever cfg r \<and> (\<forall>finder rc. r = Some (finder, rc) \<longrightarrow>
       extract_retriever_config gw (ae_map_order ae) cfg = Inr rc) \<and>
     (\<exists>more_ops. t = (fs, ops @ more_ops) \<and> Heartbeat \<notin> set more_ops)"
proof (cases "disable_retrieval cfg")
  case True
  with assms show ?thesis by (auto simp: make_retriever_def boot_ok configured_retriever_def)
next
  case False
  with assms show ?thesis
    by (cases "lookup_endpoint_type cfg"; cases "event_recorder_url cfg = []")
      (auto simp: make_retriever_def choose_finder_def boot_ok configured_retriever_def)
qed

lemma start_heartbeat_ok:
  assumes "start_heartbeat ae cfg (fs, ops) = (Returns (Inr u), t)"
  shows "t = (fs, ops @ (if estuary_url cfg = [] then [] else [Heartbeat]))"
  using assms by (auto simp: start_heartbeat_def boot_ok split: if_splits)

lemma keystore_elsewhere:
  assumes "open_or_init_keystore oe p fs = (r, fs')" and "pl \<noteq> resolve p"
  shows "fs' pl = fs pl"
  using assms by (auto simp: open_or_init_keystore_def os_mkdir_def split: sum.splits if_splits prod.splits option.splits)

lemma wallet_not_key: "dir \<noteq> [] \<Longrightarrow> resolve (peer_key_path dir) \<noteq> resolve (path_join [dir, ''wallet''])"
proof -
  assume "dir \<noteq> []"
  moreover have "simple_name ''wallet''" by (simp add: simple_name_def dot_def dotdot_def slash_def)
  ultimately show ?thesis by (simp add: peer_key_path_def resolve_join_simple simple_file_names)
qed

lemma open_services_ok:
  assumes "open_services ae dir cfg (fs, []) = (Returns (Inr (host, gw, mgr)), fs', ops)" and "dir \<noteq> []"
    and "key_lib_ok (ae_keys ae)"
  shows "(\<exists>k. stored_key (ae_keys ae) dir fs' = Some k \<and> ae_libp2p ae [''/ip4/0.0.0.0/tcp/6746''] k = Inr host) \<and>
     ae_gateway ae = Inr gw \<and> (\<exists>store. configured_store cfg store \<and> mgr = fst (new_manager store (10 * minute))) \<and>
     Heartbeat \<notin> set ops"
proof -
  from assms(1) obtain fs1 host' fs2 ops2 store fs3 ops3 u fs4 ops4 where stages:
    "init_host ae dir (log_resource_manager cfg) [''/ip4/0.0.0.0/tcp/6746''] (fs1, []) = (Returns (Inr host'), fs2, ops2)"
    "host' = host" "ae_gateway ae = Inr gw"
    "open_blockstore ae dir cfg (fs2, ops2 @ [OpenedGateway]) = (Returns (Inr store), fs3, ops3)"
    "mgr = fst (new_manager store (10 * minute))"
    "open_wallet ae dir (fs3, (ops3 @ map ManagerGoroutine (snd (new_manager store (10 * minute) ::
       ('c app_store, await_cb) manager \<times> goroutine list))) @ [OpenedDatastore]) = (Returns (Inr u), fs4, ops4)"
    "fs' = fs4" "ops = ops4 @ [StartedPayChannels]"
    by (auto simp: open_services_def boot_ok)
  from init_host_ok [OF stages(1)] obtain k where key: "load_peer_key (ae_keys ae) (ae_os ae) dir fs1 = (Returns (Inr k), fs2)"
    "ae_libp2p ae [''/ip4/0.0.0.0/tcp/6746''] k = Inr host" "Heartbeat \<notin> set ops2"
    using stages(2) by auto
  from open_blockstore_ok [OF stages(4)] have store: "configured_store cfg store" "fs3 = fs2" "Heartbeat \<notin> set ops3"
    using key(3) by auto
  from open_wallet_ok [OF stages(6)] obtain ks where
    ks: "open_or_init_keystore (ae_os ae) (path_join [dir, ''wallet'']) fs3 = (Inr ks, fs4)" and ops4: "Heartbeat \<notin> set ops4"
    using store(3) by auto
  have "fs4 (resolve (peer_key_path dir)) = fs2 (resolve (peer_key_path dir))"
    using keystore_elsewhere [OF ks wallet_not_key [OF assms(2)]] store(2) by simp
  with load_peer_key_stored [OF key(1) assms(3)] have "stored_key (ae_keys ae) dir fs4 = Some k"
    by (simp add: stored_key_def)
  with key(2) stages(3,5,7,8) store(1) ops4 show ?thesis by auto
qed

lemma start_services_ok:
  assumes "start_services ae cl cfg host gw mgr (fs, ops) = (Returns (Inr app), fs', ops')"
  shows "fs' = fs \<and> ap_host app = host \<and> ap_manager app = mgr \<and> configured_retriever cfg (ap_retriever app) \<and>
     (\<forall>finder rc. ap_retriever app = Some (finder, rc) \<longrightarrow> extract_retriever_config gw (ae_map_order ae) cfg = Inr rc) \<and>
     ap_provider app = extract_provider cfg (\<not> disable_retrieval cfg) (ae_presence_size ae) \<and>
     ProviderWorkers (max_bitswap_workers cfg) \<in> set ops' \<and>
     (Heartbeat \<notin> set ops \<longrightarrow> (Heartbeat \<in> set ops' \<longleftrightarrow> estuary_url cfg \<noteq> []))"
proof -
  from assms obtain retriever fs1 ops1 routing world workers u where stages:
    "make_retriever ae gw cl cfg (fs, ops) = (Returns (Inr retriever), fs1, ops1)"
    "new_provider (ae_fullrt ae) (ae_dht ae) (extract_provider cfg (retriever \<noteq> None) (ae_presence_size ae)) =
       Inr (routing, world, workers)"
    "start_heartbeat ae cfg (fs1, ops1 @ [BitswapNetwork, ProviderWorkers workers]) = (Returns (Inr u), fs', ops')"
    "app = \<lparr>ap_host = host, ap_manager = mgr, ap_retriever = retriever,
       ap_provider = extract_provider cfg (retriever \<noteq> None) (ae_presence_size ae), ap_routing = routing, ap_world = world\<rparr>"
    unfolding start_services_def boot_bind_ok Let_def by (auto simp: boot_ok)
  note retr = make_retriever_ok [OF stages(1)]
  have "retriever \<noteq> None \<longleftrightarrow> \<not> disable_retrieval cfg"
    using retr by (auto simp: configured_retriever_def split: option.splits)
  moreover have "workers = max_bitswap_workers cfg"
    using stages(2) by (auto simp: new_provider_def extract_provider_def split: sum.splits)
  ultimately show ?thesis
    using retr start_heartbeat_ok [OF stages(3)] stages(4) by auto
qed

text \<open>How the blockstore of a start was made, and how many prune goroutines its first poll started.\<close>

definition opened_store ::
  "('k, 'h, 's, 'ma, 'r) app_env \<Rightarrow> config \<Rightarrow> 's app_store \<Rightarrow> nat \<Rightarrow> bool" where
  "opened_store ae cfg store n =
     (case store of
        Unpruned st \<Rightarrow> prune_threshold cfg = 0 \<and> n = 0
      | Pruned p \<Rightarrow> prune_threshold cfg \<noteq> 0 \<and>
          (\<exists>st started. new_pruner (ae_disk_usage ae) (ae_now ae) st
             \<lparr>cfg_threshold = prune_threshold cfg, cfg_prune_bytes = 0, cfg_pin_duration = cfg_pin_time cfg\<rparr> =
               Inr (p, started) \<and> n = started_job started 0))"

lemma opened_configured: "opened_store ae cfg store n \<Longrightarrow> configured_store cfg store"
  by (auto simp: opened_store_def configured_store_def max_def split: app_store.splits dest!: new_pruner_settings)

definition prune_runs :: "opened list \<Rightarrow> nat" where
  "prune_runs ops = count_list ops PruneRun"

lemma prune_runs_simps [simp]:
  "prune_runs [] = 0" "prune_runs (xs @ ys) = prune_runs xs + prune_runs ys"
  "prune_runs (x # xs) = (if x = PruneRun then Suc (prune_runs xs) else prune_runs xs)"
  "prune_runs (map ManagerGoroutine gs) = 0"
  by (auto simp: prune_runs_def count_list_0_iff)

lemma open_blockstore_runs:
  assumes "open_blockstore ae dir cfg (fs, ops) = (Returns (Inr store), t)"
  shows "\<exists>n. opened_store ae cfg store n \<and> prune_runs (snd t) = prune_runs ops + n"
proof (cases "prune_threshold cfg = 0")
  case True
  with assms show ?thesis by (auto simp: open_blockstore_def boot_ok opened_store_def)
next
  case False
  with assms obtain st p started where made: "store = Pruned p"
    "new_pruner (ae_disk_usage ae) (ae_now ae) st
       \<lparr>cfg_threshold = prune_threshold cfg, cfg_prune_bytes = 0, cfg_pin_duration = cfg_pin_time cfg\<rparr> = Inr (p, started)"
    "snd t = ops @ OpenedBlockstore # PruneTicker # (if started then [PruneRun] else [])"
    by (auto simp: open_blockstore_def boot_ok split: prod.splits)
  have "opened_store ae cfg store (started_job started 0)"
    unfolding opened_store_def made(1) app_store.case using False made(2) by blast
  moreover have "prune_runs (snd t) = prune_runs ops + started_job started 0"
    by (simp add: made(3) started_job_def)
  ultimately show ?thesis by blast
qed

lemma make_retriever_runs:
  "make_retriever ae gw cl cfg (fs, ops) = (Returns (Inr r), t) \<Longrightarrow> prune_runs (snd t) = prune_runs ops"
  by (cases "disable_retrieval cfg"; cases "event_recorder_url cfg = []") (auto simp: make_retriever_def boot_ok)

lemma started_store:
  fixes ae :: "('k, 'h, 's, 'ma, 'r) app_env"
  assumes "new_autoretrieve ae cl dir cfg (fs, []) = (Returns (Inr app), fs', ops)"
  shows "\<exists>store. ap_manager app = fst (new_manager store (10 * minute)) \<and> opened_store ae cfg store (prune_runs ops) \<and>
     ap_world app = init_world"
proof -
  from assms obtain host gw mgr fs1 ops1 where
    services: "open_services ae dir cfg (fs, []) = (Returns (Inr (host, gw, mgr)), fs1, ops1)"
    and rest: "start_services ae cl cfg host gw mgr (fs1, ops1) = (Returns (Inr app), fs', ops)"
    by (auto simp: new_autoretrieve_def boot_ok split: if_splits)
  from services obtain fs2 fs3 ops2 store fs4 ops3 u where open_steps:
    "init_host ae dir (log_resource_manager cfg) [''/ip4/0.0.0.0/tcp/6746''] (fs2, []) = (Returns (Inr host), fs3, ops2)"
    "open_blockstore ae dir cfg (fs3, ops2 @ [OpenedGateway]) = (Returns (Inr store), fs4, ops3)"
    "mgr = fst (new_manager store (10 * minute))"
    "open_wallet ae dir (fs4, (ops3 @ map ManagerGoroutine (snd (new_manager store (10 * minute) ::
       ('s app_store, await_cb) manager \<times> goroutine list))) @ [OpenedDatastore]) = (Returns (Inr u), fs1, butlast ops1)"
    "ops1 = butlast ops1 @ [StartedPayChannels]"
    by (auto simp: open_services_def boot_ok)
  have "prune_runs ops2 = 0" using init_host_ok [OF open_steps(1)] by auto
  with open_blockstore_runs [OF open_steps(2)] have store: "opened_store ae cfg store (prune_runs ops3)" by auto
  have "prune_runs (butlast ops1) = prune_runs ops3" using open_wallet_ok [OF open_steps(4)] by auto
  then have 1: "opened_store ae cfg store (prune_runs ops1)" using store by (subst open_steps(5)) simp
  from rest obtain retriever fs5 ops5 routing world workers u where start_steps:
    "make_retriever ae gw cl cfg (fs1, ops1) = (Returns (Inr retriever), fs5, ops5)"
    "new_provider (ae_fullrt ae) (ae_dht ae) (extract_provider cfg (retriever \<noteq> None) (ae_presence_size ae)) =
       Inr (routing, world, workers)"
    "start_heartbeat ae cfg (fs5, ops5 @ [BitswapNetwork, ProviderWorkers workers]) = (Returns (Inr u), fs', ops)"
    "ap_manager app = mgr" "ap_world app = world"
    unfolding start_services_def boot_bind_ok Let_def by (auto simp: boot_ok)
  have "prune_runs ops = prune_runs ops1"
    using make_retriever_runs [OF start_steps(1)] start_heartbeat_ok [OF start_steps(3)] by auto
  moreover have "world = init_world" using start_steps(2) by (auto simp: new_provider_def split: sum.splits)
  ultimately show ?thesis using 1 open_steps(3) start_steps(4,5) by auto
qed

section \<open>Properties\<close>

text \<open>C14. A start that succeeds is the one that was configured. The host carries the peer key that the data directory
  holds from then on. The block manager starts empty with a timeout of ten minutes, around the plain
  blockstore without a prune threshold, and otherwise around a pruner with that threshold, with
  the whole of it to prune at a time, and with the configured pin duration. There is a retriever unless
  retrieval is disabled, with the configured finder and the settings extracted, and the provider knows whether there is
  one; the provider has the configured blacklist, routing and workers. A heartbeat runs exactly when an
  Estuary URL is configured.\<close>

theorem started_as_configured:
  assumes "new_autoretrieve ae cl dir cfg (fs, []) = (Returns (Inr app), fs', ops)" and "key_lib_ok (ae_keys ae)"
  shows "(\<exists>k. stored_key (ae_keys ae) dir fs' = Some k \<and> ae_libp2p ae [''/ip4/0.0.0.0/tcp/6746''] k = Inr (ap_host app)) \<and>
     (\<exists>store. configured_store cfg store \<and> ap_manager app = fst (new_manager store (10 * minute))) \<and>
     configured_retriever cfg (ap_retriever app) \<and>
     (\<forall>finder rc. ap_retriever app = Some (finder, rc) \<longrightarrow>
        (\<exists>gw. ae_gateway ae = Inr gw \<and> extract_retriever_config gw (ae_map_order ae) cfg = Inr rc)) \<and>
     ap_provider app = extract_provider cfg (\<not> disable_retrieval cfg) (ae_presence_size ae) \<and>
     ProviderWorkers (max_bitswap_workers cfg) \<in> set ops \<and>
     (Heartbeat \<in> set ops \<longleftrightarrow> estuary_url cfg \<noteq> [])"
proof -
  from assms(1) obtain host gw mgr fs1 ops1 where stages: "dir \<noteq> []"
    "open_services ae dir cfg (fs, []) = (Returns (Inr (host, gw, mgr)), fs1, ops1)"
    "start_services ae cl cfg host gw mgr (fs1, ops1) = (Returns (Inr app), fs', ops)"
    by (auto simp: new_autoretrieve_def boot_ok split: if_splits)
  from open_services_ok [OF stages(2,1) assms(2)] start_services_ok [OF stages(3)] show ?thesis by auto
qed

text \<open>A YAML decoder sets a field of an enumeration through its \<open>UnmarshalYAML\<close>, to the zero value for a null
  node, or not at all.\<close>

definition decodes_enums :: "(go_error \<Rightarrow> string) \<Rightarrow> (bytes \<Rightarrow> config \<Rightarrow> go_error option \<times> config) \<Rightarrow> bool" where
  "decodes_enums show_err ya \<longleftrightarrow> (\<forall>bs cfg.
     lookup_endpoint_type (snd (ya bs cfg)) \<in> {lookup_endpoint_type cfg, EndpointTypeIndexer} \<union>
       range (\<lambda>n. snd (unmarshal_endpoint_type show_err n (lookup_endpoint_type cfg))) \<and>
     routing_table_type (snd (ya bs cfg)) \<in> {routing_table_type cfg, RoutingTableTypeDisabled} \<union>
       range (\<lambda>n. snd (unmarshal_routing_table_type show_err n (routing_table_type cfg))))"

definition endpoint_named :: "endpoint_type \<Rightarrow> bool" where
  "endpoint_named t \<longleftrightarrow> t \<in> {EndpointTypeIndexer, EndpointTypeEstuary}"

definition routing_named :: "routing_table_type \<Rightarrow> bool" where
  "routing_named t \<longleftrightarrow> t \<in> {RoutingTableTypeDisabled, RoutingTableTypeDHT, RoutingTableTypeFull}"

definition config_typed :: "config \<Rightarrow> bool" where
  "config_typed cfg \<longleftrightarrow> endpoint_named (lookup_endpoint_type cfg) \<and> routing_named (routing_table_type cfg)"

lemma parse_typed:
  "parse_endpoint_type s = Inr t \<Longrightarrow> endpoint_named t"
  "parse_routing_table_type s = Inr u \<Longrightarrow> routing_named u"
  by (auto simp: parse_endpoint_type_def parse_routing_table_type_def endpoint_named_def routing_named_def Let_def
      split: if_splits)

lemma unmarshal_typed:
  "endpoint_named t \<Longrightarrow> endpoint_named (snd (unmarshal_endpoint_type show_err n t))"
  "routing_named u \<Longrightarrow> routing_named (snd (unmarshal_routing_table_type show_err n u))"
  unfolding unmarshal_endpoint_type_def unmarshal_routing_table_type_def unmarshal_with_def
  by (auto split: sum.split dest: parse_typed)

lemma decoded_typed:
  assumes "decodes_enums show_err ya" and "config_typed cfg"
  shows "config_typed (snd (ya bs cfg))"
proof -
  let ?cfg = "snd (ya bs cfg)"
  from assms(1) have "lookup_endpoint_type ?cfg = lookup_endpoint_type cfg \<or> lookup_endpoint_type ?cfg = EndpointTypeIndexer \<or>
       (\<exists>n. lookup_endpoint_type ?cfg = snd (unmarshal_endpoint_type show_err n (lookup_endpoint_type cfg)))"
    "routing_table_type ?cfg = routing_table_type cfg \<or> routing_table_type ?cfg = RoutingTableTypeDisabled \<or>
       (\<exists>n. routing_table_type ?cfg = snd (unmarshal_routing_table_type show_err n (routing_table_type cfg)))"
    unfolding decodes_enums_def by blast+
  moreover have "endpoint_named EndpointTypeIndexer" "routing_named RoutingTableTypeDisabled"
    by (simp_all add: endpoint_named_def routing_named_def)
  ultimately show ?thesis using assms(2) unmarshal_typed unfolding config_typed_def by metis
qed

lemma override_typed:
  assumes "config_typed cfg"
  shows "override_lookup_type cl cfg = Inr cfg1 \<Longrightarrow> config_typed cfg1"
    and "override_routing_type cl cfg = Inr cfg1 \<Longrightarrow> config_typed cfg1"
  using assms
  by (auto simp: override_lookup_type_def override_routing_type_def config_typed_def
      split: option.splits sum.splits dest: parse_typed)

lemma config_typed_other [simp]:
  "config_typed (cfg\<lparr>lookup_endpoint_url := x\<rparr>) = config_typed cfg"
  "config_typed (cfg\<lparr>disable_retrieval := y\<rparr>) = config_typed cfg"
  "config_typed (cfg\<lparr>log_resource_manager := z\<rparr>) = config_typed cfg"
  by (simp_all add: config_typed_def)

lemma overrides_typed:
  assumes "apply_cli_overrides cl cfg = Inr cfg'" and "config_typed cfg"
  shows "config_typed cfg'"
proof -
  from assms(1) obtain cfg1 where 1: "override_lookup_type cl cfg = Inr cfg1"
    by (auto simp: apply_cli_overrides_def split: sum.splits)
  let ?cfg2 = "case cl_lookup_url cl of None \<Rightarrow> cfg1 | Some u \<Rightarrow> cfg1\<lparr>lookup_endpoint_url := u\<rparr>"
  have 2: "config_typed ?cfg2" using override_typed(1) [OF assms(2) 1] by (simp split: option.split)
  from assms(1) 1 obtain cfg3 where 3: "override_routing_type cl ?cfg2 = Inr cfg3"
    by (auto simp: apply_cli_overrides_def Let_def split: sum.splits)
  have "config_typed cfg3" using override_typed(2) [OF 2 3] .
  with assms(1) 1 3 show ?thesis
    by (simp add: apply_cli_overrides_def Let_def) (auto split: option.splits)
qed

text \<open>C23. The enumerations of a configuration stay in their ranges. Whatever is in the file and on the command
  line, a configuration that the program starts with has one of the two endpoint types and one of the
  three routing table types that have names: so the choice of a candidate finder never comes to the
  unrecognized one, and there is no content routing only when the routing table is disabled.\<close>

theorem configured_types_recognised:
  assumes "decodes_enums show_err ya" and "get_full_config read_file ya cl = Inr cfg"
  shows "config_typed cfg \<and> (\<exists>finder. choose_finder cfg = Inr finder) \<and>
     (choose_routing new_full_rt new_dht (routing_table_type cfg) = Inr None \<longleftrightarrow>
        routing_table_type cfg = RoutingTableTypeDisabled)"
proof -
  have default: "config_typed default_config"
    by (simp add: config_typed_def default_config_def endpoint_named_def routing_named_def)
  have "\<exists>cfg0. config_typed cfg0 \<and> apply_cli_overrides cl cfg0 = Inr cfg"
    using assms(2) default decoded_typed [OF assms(1) default]
    by (auto simp: get_full_config_def load_config_def split: sum.splits prod.splits option.splits if_splits)
      (metis snd_conv)+
  then have typed: "config_typed cfg" using overrides_typed by blast
  then have "\<exists>finder. choose_finder cfg = Inr finder"
    by (auto simp: config_typed_def endpoint_named_def choose_finder_def)
  moreover have "choose_routing new_full_rt new_dht (routing_table_type cfg) = Inr None \<longleftrightarrow>
      routing_table_type cfg = RoutingTableTypeDisabled"
    using typed by (auto simp: config_typed_def routing_named_def choose_routing_def split: sum.splits)
  ultimately show ?thesis using typed by blast
qed

lemma configured_types_recognised_witness:
  "\<exists>cfg finder. get_full_config (\<lambda>p. Inr []) (\<lambda>bs cfg. (None, cfg)) register_cli = Inr cfg \<and> choose_finder cfg = Inr finder"
proof -
  have "decodes_enums (\<lambda>e. []) (\<lambda>bs cfg. (None, cfg))" by (simp add: decodes_enums_def)
  moreover obtain cfg where "get_full_config (\<lambda>p. Inr []) (\<lambda>bs cfg. (None, cfg)) register_cli = Inr cfg"
    by (simp add: get_full_config_def load_config_def apply_cli_overrides_def override_lookup_type_def override_routing_type_def
        register_cli_def)
  ultimately show ?thesis
    using configured_types_recognised [of "\<lambda>e. []" "\<lambda>bs cfg. (None, cfg)" "\<lambda>p. Inr []" register_cli cfg] by blast
qed


section \<open>A concrete start\<close>

definition demo_app :: "(string, string, mem_store, unit, unit) app_env" where
  "demo_app = \<lparr>ae_os = quiet_os, ae_keys = demo_key_lib, ae_libp2p = (\<lambda>addrs k. Inr k),
     ae_gateway = Inr \<lparr>state_miner_info = (\<lambda>a. Inl NotFound), new_multiaddr = (\<lambda>b. Inr ()), show_address = (\<lambda>a. a)\<rparr>,
     ae_parse_shard = (\<lambda>p. None), ae_flatfs = (\<lambda>p. Inr [(Cid ''a'', ''xxxx''), (Cid ''b'', ''yy'')]), ae_disk_usage = mem_usage, ae_now = 0,
     ae_leveldb = (\<lambda>p. None), ae_wallet = (\<lambda>p. None), ae_paych_start = None, ae_client = None, ae_client_ready = None,
     ae_map_order = [], ae_retriever = (\<lambda>f c. None), ae_fullrt = Inr (), ae_dht = Inr (), ae_presence_size = (\<lambda>c. 4),
     ae_parse_url = (\<lambda>u. None)\<rparr>"

lemma demo_places:
  "resolve ''/data'' = (True, [''data''])" "resolve (path_join [''/data'', ''wallet'']) = (True, [''data'', ''wallet''])"
  by code_simp+

lemma demo_app_sel [simp]:
  "ae_os demo_app = quiet_os" "ae_keys demo_app = demo_key_lib" "ae_libp2p demo_app addrs k = Inr k"
  "ae_gateway demo_app = Inr \<lparr>state_miner_info = (\<lambda>a. Inl NotFound), new_multiaddr = (\<lambda>b. Inr ()), show_address = (\<lambda>a. a)\<rparr>"
  "ae_parse_shard demo_app p = None" "ae_flatfs demo_app p = Inr [(Cid ''a'', ''xxxx''), (Cid ''b'', ''yy'')]" "ae_leveldb demo_app p = None"
  "ae_disk_usage demo_app = mem_usage" "ae_now demo_app = 0" "ae_wallet demo_app p = None" "ae_paych_start demo_app = None" "ae_client demo_app = None"
  "ae_client_ready demo_app = None" "ae_map_order demo_app = []" "ae_retriever demo_app f rc = None"
  "ae_fullrt demo_app = Inr ()" "ae_dht demo_app = Inr ()"
  by (simp_all add: demo_app_def)

definition started_fs :: fs where
  "started_fs = [(True, []) \<mapsto> Directory 0x1ED, (True, [''data'']) \<mapsto> Directory 0x1E4,
     key_place_demo \<mapsto> File 0x180 ''new key'', (True, [''data'', ''wallet'']) \<mapsto> Directory 0x1C0]"

lemmas boot_run = boot_bind_def boot_return_def boot_try_def boot_check_def boot_open_def boot_fs_def

definition demo_threshold :: "u64 \<Rightarrow> config" where
  "demo_threshold n = default_config\<lparr>prune_threshold := n, cfg_pin_time := hour\<rparr>"

definition demo_store :: "u64 \<Rightarrow> mem_store app_store" where
  "demo_store n = (if n = 0 then Unpruned [(Cid ''a'', ''xxxx''), (Cid ''b'', ''yy'')] else Pruned (pr demo_sys))"

lemma demo_blockstore:
  assumes "n = 0 \<or> n = 5"
  shows "\<exists>xs. \<forall>fs ops. open_blockstore demo_app dir (demo_threshold n) (fs, ops) = (Returns (Inr (demo_store n)), fs, ops @ xs)"
proof (cases "n = 0")
  case True
  then show ?thesis by (simp add: open_blockstore_def boot_run demo_threshold_def demo_store_def)
next
  case False
  with assms demo_new [unfolded demo_config_def] show ?thesis
    by (simp add: open_blockstore_def boot_run demo_threshold_def demo_store_def)
qed

lemma demo_opens:
  assumes "n = 0 \<or> n = 5"
  shows "\<exists>gw ops. open_services demo_app ''/data'' (demo_threshold n) ([(True, []) \<mapsto> Directory 0x1ED], []) =
     (Returns (Inr (''new key'', gw, fst (new_manager (demo_store n) (10 * minute)))), started_fs, ops)"
proof -
  have mkdir: "os_mkdir_all quiet_os ''/data'' 0x1E4 [(True, []) \<mapsto> Directory 0x1ED] =
      (None, [(True, []) \<mapsto> Directory 0x1ED, (True, [''data'']) \<mapsto> Directory 0x1E4])"
    by (simp add: os_mkdir_all_def demo_places quiet_os_def is_directory_def)
  have key: "load_peer_key demo_key_lib quiet_os ''/data'' [(True, []) \<mapsto> Directory 0x1ED, (True, [''data'']) \<mapsto> Directory 0x1E4] =
      (Returns (Inr ''new key''), [(True, []) \<mapsto> Directory 0x1ED, (True, [''data'']) \<mapsto> Directory 0x1E4,
         key_place_demo \<mapsto> File 0x180 ''new key''])"
    by (simp add: load_peer_key_def demo_key_lib_def quiet_os_def os_read_file_def os_write_file_def put_node_def
        is_directory_def parent_of_def resolve_demo_key key_place_demo_def)
  have wallet: "open_or_init_keystore quiet_os (path_join [''/data'', ''wallet'']) [(True, []) \<mapsto> Directory 0x1ED,
      (True, [''data'']) \<mapsto> Directory 0x1E4, key_place_demo \<mapsto> File 0x180 ''new key''] =
      (Inr (path_join [''/data'', ''wallet'']), started_fs)"
    by (simp add: open_or_init_keystore_def os_stat_def os_mkdir_def demo_places quiet_os_def is_directory_def parent_of_def
        key_place_demo_def started_fs_def)
  from demo_blockstore [OF assms, of "''/data''"] mkdir key wallet show ?thesis
    by (auto simp: open_services_def init_host_def open_wallet_def boot_run wrap_error_def)
qed

lemma demo_starts:
  assumes "n = 0 \<or> n = 5"
  shows "\<exists>app ops. new_autoretrieve demo_app register_cli ''/data'' (demo_threshold n) ([(True, []) \<mapsto> Directory 0x1ED], []) =
     (Returns (Inr app), started_fs, ops) \<and> ap_manager app = fst (new_manager (demo_store n) (10 * minute))"
proof -
  obtain gw ops where opens: "open_services demo_app ''/data'' (demo_threshold n) ([(True, []) \<mapsto> Directory 0x1ED], []) =
     (Returns (Inr (''new key'', gw, fst (new_manager (demo_store n) (10 * minute)))), started_fs, ops)"
    using demo_opens [OF assms] by blast
  have "extract_retriever_config gw [] (demo_threshold n) =
      Inr \<lparr>rcf_blacklist = Map.empty, rcf_whitelist = Map.empty, rcf_default = default_miner_config default_config,
         rcf_miners = Map.empty, rcf_paid = False\<rparr>"
    by (simp add: extract_retriever_config_def default_config_def demo_threshold_def)
  moreover have "disable_retrieval (demo_threshold n) = False"
    "lookup_endpoint_type (demo_threshold n) = EndpointTypeIndexer" "event_recorder_url (demo_threshold n) = []"
    "estuary_url (demo_threshold n) = []" "routing_table_type (demo_threshold n) = RoutingTableTypeDHT"
    by (simp_all add: default_config_def demo_threshold_def)
  ultimately show ?thesis
    by (simp add: new_autoretrieve_def boot_bind_def [of "open_services _ _ _"] opens start_services_def make_retriever_def
        choose_finder_def start_heartbeat_def new_provider_def choose_routing_def extract_provider_def)
      (simp add: boot_run Let_def)
qed

lemma started_as_configured_witness:
  "\<exists>app ops. new_autoretrieve demo_app register_cli ''/data'' (demo_threshold 0) ([(True, []) \<mapsto> Directory 0x1ED], []) =
     (Returns (Inr app), started_fs, ops) \<and> stored_key demo_key_lib ''/data'' started_fs = Some (ap_host app) \<and> Heartbeat \<notin> set ops"
proof -
  obtain app ops where run: "new_autoretrieve demo_app register_cli ''/data'' (demo_threshold 0)
      ([(True, []) \<mapsto> Directory 0x1ED], []) = (Returns (Inr app), started_fs, ops)" using demo_starts by blast
  have keys: "key_lib_ok (ae_keys demo_app)"
    by (auto simp: key_lib_ok_def demo_key_lib_def split: option.splits)
  from started_as_configured [OF run keys] run show ?thesis
    by (auto simp: demo_threshold_def default_config_def)
qed

end
