(* ===== verification/Provider_Steps.thy ===== *)
theory Provider_Steps
  imports Bitswap_Provider
begin

text \<open>
  The provider at work: messages from peers arrive and are handled, the manager's goroutines and its other
  callers run, retrievals end and workers take tokens, in any order. The first part says when an invariant
  of the rest of the program survives every step of the manager; the second defines the handlers of messages
  and the steps of the provider, and proves what every step keeps.
\<close>

section \<open>Invariants of the world under the manager's steps\<close>

definition waiters_ok :: "(cid \<Rightarrow> 'cb \<Rightarrow> bool) \<Rightarrow> ('s, 'cb, 'w) msys \<Rightarrow> bool" where
  "waiters_ok Q s \<longleftrightarrow> (\<forall>c. \<forall>e \<in> set (slice_at (wait_list (ms_mgr s)) c). Q c (we_cb e)) \<and>
     (\<forall>c x cb. ms_holder s = Some (c, x, cb) \<longrightarrow> Q c cb)"

definition calls_keep :: "('cb, 'w) cb_env \<Rightarrow> (cid \<Rightarrow> 'cb \<Rightarrow> bool) \<Rightarrow> ('w \<Rightarrow> bool) \<Rightarrow> bool" where
  "calls_keep env Q W \<longleftrightarrow>
     (\<forall>c cb b r w. Q c cb \<and> W w \<and> (r = None \<longrightarrow> rb_cid b = c) \<longrightarrow> W (invoke env cb b r w))"

lemma calls_keep_fold:
  "calls_keep env Q W \<Longrightarrow> \<forall>e \<in> set es. Q (rb_cid b) (we_cb e) \<Longrightarrow> W w \<Longrightarrow>
     W (fold (\<lambda>e. invoke env (we_cb e) b None) es w)"
proof (induction es arbitrary: w)
  case (Cons e es)
  then have "W (invoke env (we_cb e) b None w)" unfolding calls_keep_def by simp blast
  with Cons show ?case by simp
qed simp

lemma cleanup_slice_keeps:
  assumes "calls_keep env Q W" and "\<forall>e \<in> set es. Q c (we_cb e)" and "W w"
    and "cleanup_slice env now timeout i es w = (es', w')"
  shows "set es' \<subseteq> set es \<and> W w'"
  using assms
proof (induction env now timeout i es w arbitrary: es' w' rule: cleanup_slice.induct)
  case (1 env now timeout i es w)
  note unfold = "1.prems"(4) [unfolded cleanup_slice.simps [of env now timeout i es w]]
  show ?case
  proof (cases "i < length es")
    case False
    with unfold "1.prems"(3) show ?thesis by simp
  next
    case True
    let ?e = "es ! i" and ?es = "swap_remove i es"
    let ?drop = "ctx_err env w (we_ctx ?e) \<noteq> None \<or> timeout < time_since now (we_at ?e)"
    let ?w = "if ctx_err env w (we_ctx ?e) = None then invoke env (we_cb ?e) empty_ready (Some WaitTimeout) w else w"
    show ?thesis
    proof (cases ?drop)
      case drop: True
      have sub: "set ?es \<subseteq> set es" using True by (rule set_swap_remove)
      have "Q c (we_cb ?e)" using "1.prems"(2) True by simp
      then have "W ?w" using "1.prems"(1,3) by (simp add: calls_keep_def)
      moreover have "cleanup_slice env now timeout i ?es ?w = (es', w')"
        using unfold True drop by (simp add: Let_def)
      moreover have "\<forall>e \<in> set ?es. Q c (we_cb e)" using sub "1.prems"(2) by blast
      ultimately have "set es' \<subseteq> set ?es \<and> W w'"
        using "1.IH"(1) [OF True refl drop "1.prems"(1)] by blast
      with sub show ?thesis by blast
    next
      case keep: False
      with unfold True have "cleanup_slice env now timeout (Suc i) es w = (es', w')" by (simp add: Let_def)
      from "1.IH"(2) [OF True refl keep "1.prems"(1-3) this] show ?thesis .
    qed
  qed
qed

lemma cleanup_cid_keeps:
  assumes "calls_keep env Q W" and "\<forall>k. \<forall>e \<in> set (slice_at (wait_list m) k). Q k (we_cb e)" and "W w"
    and "cleanup_cid env now c (m, w) = (m', w')"
  shows "(\<forall>k. set (slice_at (wait_list m') k) \<subseteq> set (slice_at (wait_list m) k)) \<and> W w'"
proof -
  obtain es w1 where slice: "cleanup_slice env now (await_timeout m) 0 (slice_at (wait_list m) c) w = (es, w1)"
    by (cases "cleanup_slice env now (await_timeout m) 0 (slice_at (wait_list m) c) w")
  have "\<forall>e \<in> set (slice_at (wait_list m) c). Q c (we_cb e)" using assms(2) by blast
  from cleanup_slice_keeps [OF assms(1) this assms(3) slice] slice assms(4) show ?thesis
    by (auto simp: cleanup_cid_def slice_at_def split: if_splits)
qed

lemma cleanup_pass_keeps:
  assumes "calls_keep env Q W" and "\<forall>k. \<forall>e \<in> set (slice_at (wait_list m) k). Q k (we_cb e)" and "W w"
    and "cleanup_pass env now cids (m, w) = (m', w')"
  shows "(\<forall>k. set (slice_at (wait_list m') k) \<subseteq> set (slice_at (wait_list m) k)) \<and> W w'"
  using assms(2-4)
proof (induction cids arbitrary: m w)
  case Nil
  then show ?case by (simp add: cleanup_pass_def)
next
  case (Cons c cids)
  obtain m1 w1 where one: "cleanup_cid env now c (m, w) = (m1, w1)"
    by (cases "cleanup_cid env now c (m, w)")
  note kept = cleanup_cid_keeps [OF assms(1) Cons.prems(1,2) one]
  have "\<forall>k. \<forall>e \<in> set (slice_at (wait_list m1) k). Q k (we_cb e)" using kept Cons.prems(1) by blast
  moreover have "cleanup_pass env now cids (m1, w1) = (m', w')"
    using Cons.prems(3) one by (simp add: cleanup_pass_def)
  ultimately have "(\<forall>k. set (slice_at (wait_list m') k) \<subseteq> set (slice_at (wait_list m1) k)) \<and> W w'"
    using Cons.IH kept by blast
  with kept show ?case by blast
qed

text \<open>The key lemma: a step of the manager that is not a new wait keeps every invariant of the world
  that the callbacks of the waiters and the rest of the program keep.\<close>

lemma mgr_step_keeps:
  assumes "mgr_step bs env wstep s ev t" and "calls_keep env Q W" and "\<And>w w'. W w \<Longrightarrow> wstep w w' \<Longrightarrow> W w'"
    and "\<And>x cb. ev \<noteq> Awaited x cb" and "waiters_ok Q s" and "W (ms_world s)"
  shows "waiters_ok Q t \<and> W (ms_world t)"
  using assms(1,4-6)
proof (induction rule: mgr_step.induct)
  case (await_register s c x cb now)
  then show ?case by (auto simp: waiters_ok_def split: if_splits)
next
  case (announce s ss x b bl ss' pick m')
  then show ?case using send_ready_Sent [OF announce(2)] by (simp add: waiters_ok_def)
next
  case (notify s b m' w')
  then have r: "m' = (ms_mgr s)\<lparr>wait_list := (wait_list (ms_mgr s))(rb_cid b := None)\<rparr>"
    "w' = fold (\<lambda>e. invoke env (we_cb e) b None) (slice_at (wait_list (ms_mgr s)) (rb_cid b)) (ms_world s)"
    by (simp_all add: notify_sel)
  have "W w'" unfolding r(2) using notify(5,6)
    by (intro calls_keep_fold [OF assms(2)]) (auto simp: waiters_ok_def)
  with notify(5) r(1) show ?case by (auto simp: waiters_ok_def split: if_splits)
next
  case (cleanup s cids now m' w')
  have "\<forall>k. \<forall>e \<in> set (slice_at (wait_list (ms_mgr s)) k). Q k (we_cb e)"
    using cleanup(7) by (simp add: waiters_ok_def)
  from cleanup_pass_keeps [OF assms(2) this cleanup(8,5)] cleanup(7) show ?case
    by (fastforce simp: waiters_ok_def)
next
  case (elsewhere s w')
  then show ?case using assms(3) by (auto simp: waiters_ok_def)
next
  case (await_now s c now x cb hit m' w')
  then show ?case by blast
qed (simp_all add: waiters_ok_def)

section \<open>Runs of the provider\<close>

text \<open>
  What happens outside the manager and the handlers of messages: a retrieval goroutine ends with some
  outcome, a worker waits, a context ends.
\<close>

inductive world_step :: "provider \<Rightarrow> pworld \<Rightarrow> pworld \<Rightarrow> bool" for pr :: provider where
  retrieval_ends: "rt \<in> set (spawned w) \<Longrightarrow>
     world_step pr w (finish_retrieval pr rt outcome (w\<lparr>spawned := remove1 rt (spawned w)\<rparr>))"
| worker_waits: "wk = Token \<longrightarrow> 0 < work_ready w \<Longrightarrow> worker_wait wk w = (again, w') \<Longrightarrow> world_step pr w w'"
| ctx_ends: "world_step pr w (cancel_ctx x w)"

text \<open>
  A handler is one call of \<open>ReceiveMessage\<close> and the point it has reached: at the head of the loop over the wantlist,
  before the call of \<open>AwaitBlock\<close>, inside it with the lock held and before the waiter is registered, or before the
  retrieval goroutine is started. Between these points any other goroutine may run. The label of a step is \<open>False\<close> when
  \<open>NewRetrievalID\<close> failed.
\<close>

datatype handler_at = AtLoop | AtAwait nat entry bool | AtRegister nat entry bool | AtSpawn nat entry

record handler =
  hd_ctx :: ctx
  hd_sender :: peer_id
  hd_next :: nat
  hd_todo :: "entry list"
  hd_at :: handler_at

definition handler_cb :: "handler \<Rightarrow> nat \<Rightarrow> entry \<Rightarrow> bool \<Rightarrow> await_cb" where
  "handler_cb h k en send_block =
     \<lparr>cb_entry = en, cb_sender = hd_sender h, cb_send_block = send_block, cb_block_ctx = Derived (hd_ctx h) k\<rparr>"

inductive handler_step ::
  "'s blockstore \<Rightarrow> provider \<Rightarrow> handler \<Rightarrow> ('s, await_cb, pworld) msys \<Rightarrow>
   bool \<Rightarrow> handler \<Rightarrow> ('s, await_cb, pworld) msys \<Rightarrow> bool"
  for bs :: "'s blockstore" and pr :: provider where
  looks_up: "hd_at h = AtLoop \<Longrightarrow> hd_todo h = en # ens \<Longrightarrow>
     entry_lookup bs pr (hd_sender h) en (inner (ms_mgr s)) (ms_world s) = (ask, w') \<Longrightarrow>
     handler_step bs pr h s True
       (h\<lparr>hd_next := Suc (hd_next h), hd_todo := ens,
          hd_at := (case ask of None \<Rightarrow> AtLoop | Some send_block \<Rightarrow> AtAwait (hd_next h) en send_block)\<rparr>)
       (s\<lparr>ms_world := w'\<rparr>)"
| no_retrieval_id: "hd_at h = AtAwait k en send_block \<Longrightarrow> handler_step bs pr h s False (h\<lparr>hd_at := AtLoop\<rparr>) s"
| awaits_found: "hd_at h = AtAwait k en send_block \<Longrightarrow> ms_holder s = None \<Longrightarrow>
     \<forall>e. bs_get_size bs (inner (ms_mgr s)) (en_cid en) = Inl e \<longrightarrow> \<not> is_not_found e \<Longrightarrow>
     await_block bs (provider_env pr) now (Derived (hd_ctx h) k) (en_cid en) (handler_cb h k en send_block)
       (ms_mgr s, ms_world s) = (hit, m', w') \<Longrightarrow>
     handler_step bs pr h s True (h\<lparr>hd_at := (if hit then AtLoop else AtSpawn k en)\<rparr>) (s\<lparr>ms_mgr := m', ms_world := w'\<rparr>)"
| awaits_missing: "hd_at h = AtAwait k en send_block \<Longrightarrow> ms_holder s = None \<Longrightarrow>
     bs_get_size bs (inner (ms_mgr s)) (en_cid en) = Inl e \<Longrightarrow> is_not_found e \<Longrightarrow>
     handler_step bs pr h s True (h\<lparr>hd_at := AtRegister k en send_block\<rparr>)
       (s\<lparr>ms_holder := Some (en_cid en, Derived (hd_ctx h) k, handler_cb h k en send_block)\<rparr>)"
| registers: "hd_at h = AtRegister k en send_block \<Longrightarrow>
     ms_holder s = Some (en_cid en, Derived (hd_ctx h) k, handler_cb h k en send_block) \<Longrightarrow>
     handler_step bs pr h s True (h\<lparr>hd_at := AtSpawn k en\<rparr>)
       (s\<lparr>ms_holder := None, ms_mgr := register (en_cid en) \<lparr>we_ctx = Derived (hd_ctx h) k,
          we_cb = handler_cb h k en send_block, we_at = now\<rparr> (ms_mgr s)\<rparr>)"
| spawns: "hd_at h = AtSpawn k en \<Longrightarrow>
     handler_step bs pr h s True (h\<lparr>hd_at := AtLoop\<rparr>)
       (s\<lparr>ms_world := (ms_world s)\<lparr>spawned := spawned (ms_world s) @
          [retrieval_of (hd_ctx h) (hd_sender h) (k, en)]\<rparr>\<rparr>)"

text \<open>
  The provider with its handlers. Only they call \<open>AwaitBlock\<close>, and only a retrieval that is under way writes past the
  manager, any block of what it retrieves, through its link system; so the other steps of the manager are those
  of its remaining goroutines and callers. The history \<open>ps_asked\<close> collects the entries received, with their senders.
\<close>

record 's psys =
  ps_sys :: "('s, await_cb, pworld) msys"
  ps_handlers :: "handler list"
  ps_asked :: "(peer_id \<times> entry) list"

datatype pevent =
    MessageArrived peer_id "entry list"
  | HandlerMoved bool
  | MessageHandled
  | ManagerEvent "await_cb mevent"

definition new_handler :: "ctx \<Rightarrow> peer_id \<Rightarrow> entry list \<Rightarrow> handler" where
  "new_handler ctx sender wl = \<lparr>hd_ctx = ctx, hd_sender = sender, hd_next = 0, hd_todo = wl, hd_at = AtLoop\<rparr>"

inductive provider_step :: "'s blockstore \<Rightarrow> provider \<Rightarrow> 's psys \<Rightarrow> pevent \<Rightarrow> 's psys \<Rightarrow> bool"
  for bs :: "'s blockstore" and pr :: provider where
  arrives: "provider_step bs pr s (MessageArrived sender wl)
     (s\<lparr>ps_handlers := ps_handlers s @ [new_handler ctx sender wl], ps_asked := ps_asked s @ map (Pair sender) wl\<rparr>)"
| handles: "ps_handlers s = hs @ h # hs' \<Longrightarrow> handler_step bs pr h (ps_sys s) ok h' t \<Longrightarrow>
     provider_step bs pr s (HandlerMoved ok) (s\<lparr>ps_sys := t, ps_handlers := hs @ h' # hs'\<rparr>)"
| returns: "ps_handlers s = hs @ h # hs' \<Longrightarrow> hd_at h = AtLoop \<Longrightarrow> hd_todo h = [] \<Longrightarrow>
     provider_step bs pr s MessageHandled
       (s\<lparr>ps_sys := (ps_sys s)\<lparr>ms_world := signal_work pr (ms_world (ps_sys s))\<rparr>, ps_handlers := hs @ hs'\<rparr>)"
| retrieves: "spawned (ms_world (ps_sys s)) \<noteq> [] \<Longrightarrow> link_system_put bs b (ms_mgr (ps_sys s)) = (r, m') \<Longrightarrow>
     provider_step bs pr s (ManagerEvent (WrittenInside {blk_cid b})) (s\<lparr>ps_sys := (ps_sys s)\<lparr>ms_mgr := m'\<rparr>\<rparr>)"
| runs: "mgr_step bs (provider_env pr) (world_step pr) (ps_sys s) ev t \<Longrightarrow>
     \<forall>x cb. ev \<noteq> Awaited x cb \<Longrightarrow> ev \<noteq> Registered \<Longrightarrow> \<forall>cs. ev \<noteq> WrittenInside cs \<Longrightarrow>
     provider_step bs pr s (ManagerEvent ev) (s\<lparr>ps_sys := t\<rparr>)"

inductive provider_run :: "'s blockstore \<Rightarrow> provider \<Rightarrow> 's psys \<Rightarrow> pevent list \<Rightarrow> 's psys \<Rightarrow> bool"
  for bs :: "'s blockstore" and pr :: provider where
  stays: "provider_run bs pr s [] s"
| goes_on: "provider_run bs pr s evs t \<Longrightarrow> provider_step bs pr t ev u \<Longrightarrow> provider_run bs pr s (evs @ [ev]) u"

inductive provider_reach :: "'s blockstore \<Rightarrow> provider \<Rightarrow> 's psys \<Rightarrow> bool"
  for bs :: "'s blockstore" and pr :: provider where
  starts: "provider_reach bs pr
     \<lparr>ps_sys = init_msys (fst (new_manager st timeout)) init_world, ps_handlers = [], ps_asked = []\<rparr>"
| continues: "provider_reach bs pr s \<Longrightarrow> provider_step bs pr s ev t \<Longrightarrow> provider_reach bs pr t"

lemma provider_run_trans: "provider_run bs pr t evs' u \<Longrightarrow> provider_run bs pr s evs t \<Longrightarrow> provider_run bs pr s (evs @ evs') u"
proof (induction rule: provider_run.induct)
  case (goes_on t evs' u ev v)
  then show ?case using provider_run.goes_on by fastforce
qed simp

lemma provider_run_one: "provider_step bs pr s ev t \<Longrightarrow> provider_run bs pr s [ev] t"
  using goes_on [OF stays] by fastforce

lemma provider_reach_run: "provider_run bs pr s evs t \<Longrightarrow> provider_reach bs pr s \<Longrightarrow> provider_reach bs pr t"
  by (induction rule: provider_run.induct) (auto intro: continues)

section \<open>Every answer was asked for\<close>

definition active_want :: "provider \<Rightarrow> (peer_id \<times> entry) list \<Rightarrow> peer_id \<Rightarrow> entry \<Rightarrow> bool" where
  "active_want pr asked p en \<longleftrightarrow> (p, en) \<in> set asked \<and> \<not> en_cancel en \<and> \<not> blacklisted pr (en_cid en)"

definition justified :: "provider \<Rightarrow> (peer_id \<times> entry) list \<Rightarrow> peer_id \<times> task \<Rightarrow> bool" where
  "justified pr asked = (\<lambda>(p, t). \<exists>en. (p, en) \<in> set asked \<and> \<not> en_cancel en \<and> tk_priority t = en_priority en \<and>
     topic_cid (tk_topic t) = en_cid en \<and>
     (case tk_topic t of
        TopicDontHave c \<Rightarrow> True
      | TopicHave c \<Rightarrow> en_type en = WantHave \<and> \<not> blacklisted pr c
      | TopicBlock c \<Rightarrow> en_type en = WantBlock \<and> \<not> blacklisted pr c))"

text \<open>The topic tag of each response event, and the tag that a task calls for.\<close>

definition responses :: "stat list \<Rightarrow> string list" where
  "responses sts = concat (map (\<lambda>st. case st of BitswapResponseCount tp r \<Rightarrow> [tp] | _ \<Rightarrow> []) sts)"

fun topic_tag :: "topic \<Rightarrow> string" where
  "topic_tag (TopicHave c) = ''HAVE''"
| "topic_tag (TopicDontHave c) = ''DONT_HAVE''"
| "topic_tag (TopicBlock c) = ''BLOCK''"

definition task_tags :: "(peer_id \<times> task) list \<Rightarrow> string list" where
  "task_tags ts = map (\<lambda>(p, t). topic_tag (tk_topic t)) ts"

lemma task_tags_simps [simp]:
  "task_tags [] = []" "task_tags (xs @ ys) = task_tags xs @ task_tags ys"
  "task_tags [(p, presence_task pr TopicDontHave en)] = [''DONT_HAVE'']"
  "task_tags [(p, presence_task pr TopicHave en)] = [''HAVE'']"
  "task_tags [(p, block_task n en)] = [''BLOCK'']"
  by (simp_all add: task_tags_def presence_task_def block_task_def)

definition cb_ok :: "provider \<Rightarrow> (peer_id \<times> entry) list \<Rightarrow> cid \<Rightarrow> await_cb \<Rightarrow> bool" where
  "cb_ok pr asked c cb \<longleftrightarrow> active_want pr asked (cb_sender cb) (cb_entry cb) \<and> en_cid (cb_entry cb) = c \<and>
     en_type (cb_entry cb) = (if cb_send_block cb then WantBlock else WantHave)"

definition world_ok :: "provider \<Rightarrow> (peer_id \<times> entry) list \<Rightarrow> pworld \<Rightarrow> bool" where
  "world_ok pr asked w \<longleftrightarrow> (\<forall>x \<in> set (pushed w). justified pr asked x) \<and>
     (\<forall>rt \<in> set (spawned w). active_want pr asked (rt_sender rt) (rt_entry rt)) \<and>
     responses (stats w) = task_tags (pushed w) \<and> work_ready w \<le> max_workers pr"

lemma responses_append [simp]: "responses (xs @ ys) = responses xs @ responses ys"
  by (simp add: responses_def)

lemma responses_of [simp]:
  "responses [BitswapRequestCount] = []" "responses [BlockstoreCacheHitCount] = []"
  "responses [BitswapRetrieverRequestCount] = []"
  "responses [BitswapResponseCount tp r] = [tp]" "responses [] = []"
  by (simp_all add: responses_def)

lemma stats_sel [simp]:
  "stats (record_stat st w) = stats w @ [st]" "stats (signal_work pr w) = stats w" "stats (cancel_ctx x w) = stats w"
  "stats (queue_block p en n w) = stats w @ [BitswapResponseCount ''BLOCK'' None]"
  "stats (queue_have pr p en w) = stats w @ [BitswapResponseCount ''HAVE'' None]"
  "stats (queue_dont_have pr p en r w) = stats w @ [BitswapResponseCount ''DONT_HAVE'' (Some r)]"
  by (simp_all add: record_stat_def signal_work_def cancel_ctx_def queue_block_def queue_have_def
      queue_dont_have_def push_task_def)

lemma justified_task:
  "(p, en) \<in> set asked \<Longrightarrow> \<not> en_cancel en \<Longrightarrow> justified pr asked (p, presence_task pr TopicDontHave en)"
  "active_want pr asked p en \<Longrightarrow> en_type en = WantHave \<Longrightarrow> justified pr asked (p, presence_task pr TopicHave en)"
  "active_want pr asked p en \<Longrightarrow> en_type en = WantBlock \<Longrightarrow> justified pr asked (p, block_task n en)"
  by (auto simp: justified_def presence_task_def block_task_def active_want_def)

lemma world_ok_queue:
  assumes "world_ok pr asked w"
  shows "(p, en) \<in> set asked \<Longrightarrow> \<not> en_cancel en \<Longrightarrow> world_ok pr asked (queue_dont_have pr p en r w)"
    and "active_want pr asked p en \<Longrightarrow> en_type en = WantHave \<Longrightarrow> world_ok pr asked (queue_have pr p en w)"
    and "active_want pr asked p en \<Longrightarrow> en_type en = WantBlock \<Longrightarrow> world_ok pr asked (queue_block p en n w)"
  using assms by (simp_all add: world_ok_def justified_task)

lemma world_ok_other [simp]:
  "world_ok pr asked (signal_work pr w) = world_ok pr asked w"
  "world_ok pr asked (cancel_ctx x w) = world_ok pr asked w"
  "world_ok pr asked (record_stat BitswapRequestCount w) = world_ok pr asked w"
  "world_ok pr asked (record_stat BlockstoreCacheHitCount w) = world_ok pr asked w"
  "world_ok pr asked (record_stat BitswapRetrieverRequestCount w) = world_ok pr asked w"
  by (auto simp: world_ok_def) (auto simp: signal_work_def split: if_splits)

lemma callback_keeps: "calls_keep (provider_env pr) (cb_ok pr asked) (world_ok pr asked)"
  unfolding calls_keep_def
  by (auto simp: block_callback_def cb_ok_def Let_def active_want_def split: option.splits
      intro!: world_ok_queue)

lemma world_step_keeps:
  assumes "world_step pr w w'" and "world_ok pr asked w"
  shows "world_ok pr asked w'"
  using assms
proof (induction rule: world_step.induct)
  case (retrieval_ends rt w outcome)
  let ?w = "w\<lparr>spawned := remove1 rt (spawned w)\<rparr>"
  have "world_ok pr asked ?w"
    using retrieval_ends(2) by (auto simp: world_ok_def dest: notin_set_remove1)
  moreover have "active_want pr asked (rt_sender rt) (rt_entry rt)"
    using retrieval_ends by (simp add: world_ok_def)
  ultimately show ?case
    by (auto simp: finish_retrieval_def active_want_def world_ok_queue(1) split: option.splits)
next
  case (worker_waits wk w again w')
  then show ?case by (cases wk) (auto simp: worker_wait_def world_ok_def)
qed simp_all

definition handler_ok :: "provider \<Rightarrow> (peer_id \<times> entry) list \<Rightarrow> handler \<Rightarrow> bool" where
  "handler_ok pr asked h \<longleftrightarrow> (\<forall>en \<in> set (hd_todo h). (hd_sender h, en) \<in> set asked) \<and>
     (case hd_at h of
        AtLoop \<Rightarrow> True
      | AtAwait k en b \<Rightarrow> cb_ok pr asked (en_cid en) (handler_cb h k en b)
      | AtRegister k en b \<Rightarrow> cb_ok pr asked (en_cid en) (handler_cb h k en b)
      | AtSpawn k en \<Rightarrow> active_want pr asked (hd_sender h) en)"

definition provider_ok :: "provider \<Rightarrow> 's psys \<Rightarrow> bool" where
  "provider_ok pr s \<longleftrightarrow> waiters_ok (cb_ok pr (ps_asked s)) (ps_sys s) \<and>
     world_ok pr (ps_asked s) (ms_world (ps_sys s)) \<and> (\<forall>h \<in> set (ps_handlers s). handler_ok pr (ps_asked s) h)"

lemma active_want_mono: "active_want pr asked p en \<Longrightarrow> active_want pr (asked @ later) p en"
  by (simp add: active_want_def)

lemma cb_ok_mono: "cb_ok pr asked c cb \<Longrightarrow> cb_ok pr (asked @ later) c cb"
  by (simp add: cb_ok_def active_want_mono)

lemma justified_mono: "justified pr asked x \<Longrightarrow> justified pr (asked @ later) x"
  unfolding justified_def by (cases x) fastforce

lemma world_ok_mono: "world_ok pr asked w \<Longrightarrow> world_ok pr (asked @ later) w"
  by (simp add: world_ok_def active_want_mono justified_mono)

lemma handler_ok_mono: "handler_ok pr asked h \<Longrightarrow> handler_ok pr (asked @ later) h"
  by (auto simp: handler_ok_def cb_ok_mono active_want_mono split: handler_at.splits)

lemma entry_lookup_keeps:
  assumes "entry_lookup bs pr sender en st w = (ask, w')" and "(sender, en) \<in> set asked" and "world_ok pr asked w"
  shows "world_ok pr asked w' \<and> (\<forall>b. ask = Some b \<longrightarrow> has_retriever pr \<and> active_want pr asked sender en \<and>
     en_type en = (if b then WantBlock else WantHave))"
proof -
  have "active_want pr asked sender en" if "\<not> en_cancel en" "\<not> blacklisted pr (en_cid en)"
    using assms(2) that by (simp add: active_want_def)
  with assms show ?thesis
    by (auto simp: entry_lookup_def try_retrieval_def Let_def world_ok_queue
        split: if_splits want_type.splits sum.splits)
qed

lemma handler_step_ok:
  assumes "handler_step bs pr h s ok h' t" and "handler_ok pr asked h"
    and "waiters_ok (cb_ok pr asked) s" and "world_ok pr asked (ms_world s)"
  shows "handler_ok pr asked h' \<and> waiters_ok (cb_ok pr asked) t \<and> world_ok pr asked (ms_world t)"
  using assms
proof (induction rule: handler_step.induct)
  case (looks_up h en ens s ask w')
  then have "(hd_sender h, en) \<in> set asked" by (simp add: handler_ok_def)
  from entry_lookup_keeps [OF looks_up(3) this looks_up(6)] looks_up show ?case
    by (auto simp: handler_ok_def waiters_ok_def cb_ok_def handler_cb_def split: option.splits)
next
  case (awaits_found h k en b s now hit m' w')
  let ?cb = "handler_cb h k en b"
  have cb: "cb_ok pr asked (en_cid en) ?cb" using awaits_found(1,5) by (simp add: handler_ok_def)
  then have call: "r = None \<longrightarrow> rb_cid blk = en_cid en \<Longrightarrow> world_ok pr asked (block_callback pr ?cb blk r (ms_world s))" for blk r
    using callback_keeps [of pr asked] awaits_found(7) unfolding calls_keep_def provider_env_sel by blast
  have "m' = ms_mgr s" using await_block_found_sel [OF awaits_found(4,3)] .
  moreover have "world_ok pr asked w'"
    using awaits_found(3,4) call by (auto simp: await_block_def split: sum.splits if_splits)
  moreover have "active_want pr asked (hd_sender h) en" using cb by (simp add: cb_ok_def handler_cb_def)
  ultimately show ?case using awaits_found(5,6) by (simp add: handler_ok_def waiters_ok_def)
next
  case (registers h k en b s now)
  then show ?case by (auto simp: handler_ok_def waiters_ok_def cb_ok_def handler_cb_def split: if_splits)
qed (auto simp: handler_ok_def waiters_ok_def cb_ok_def handler_cb_def world_ok_def retrieval_of_def)

lemma link_system_put_sel:
  assumes "link_system_put bs b m = (r, m')"
  shows "\<exists>st. bs_put bs (inner m) b = (r, st) \<and> m' = m\<lparr>inner := st\<rparr>"
  using assms by (auto simp: link_system_put_def split: prod.splits)

lemma provider_step_ok: "provider_step bs pr s ev t \<Longrightarrow> provider_ok pr s \<Longrightarrow> provider_ok pr t"
proof (induction rule: provider_step.induct)
  case (arrives s sender wl ctx)
  have "handler_ok pr (ps_asked s @ map (Pair sender) wl) (new_handler ctx sender wl)"
    by (simp add: handler_ok_def new_handler_def)
  with arrives show ?case
    by (auto simp: provider_ok_def waiters_ok_def cb_ok_mono world_ok_mono handler_ok_mono)
next
  case (handles s hs h hs' ok h' t)
  then show ?case using handler_step_ok [OF handles(2), of "ps_asked s"] by (simp add: provider_ok_def)
next
  case (returns s hs h hs')
  then show ?case by (simp add: provider_ok_def waiters_ok_def)
next
  case (retrieves s b r m')
  then show ?case using link_system_put_sel [OF retrieves(2)] by (auto simp: provider_ok_def waiters_ok_def)
next
  case (runs s ev t)
  then show ?case
    using mgr_step_keeps [OF runs(1) callback_keeps [of pr "ps_asked s"] world_step_keeps]
    by (simp add: provider_ok_def)
qed

lemma provider_reach_ok: "provider_reach bs pr s \<Longrightarrow> provider_ok pr s"
proof (induction rule: provider_reach.induct)
  case (starts st timeout)
  show ?case
    by (simp add: provider_ok_def waiters_ok_def world_ok_def init_msys_def new_manager_def init_world_def)
qed (rule provider_step_ok)

section \<open>One step of the provider\<close>

text \<open>Seen from the manager, every step of the provider is a step of the manager or leaves it alone.\<close>

lemma mgr_step_any_world: "mgr_step bs env wstep s ev t \<Longrightarrow> mgr_step bs env (\<lambda>w w'. True) s ev t"
proof (induction rule: mgr_step.induct)
  case (drop_sends s ss x b bl ss' pick e)
  then show ?case by (rule mgr_step.drop_sends)
qed (auto intro: mgr_step.intros)

fun handler_side :: "await_cb mevent \<Rightarrow> bool" where
  "handler_side (Awaited x cb) = True"
| "handler_side Registered = True"
| "handler_side Elsewhere = True"
| "handler_side ev = False"

lemma handler_step_mgr:
  assumes "handler_step bs pr h s ok h' t"
  shows "\<exists>ev. mgr_step bs (provider_env pr) (\<lambda>w w'. True) s ev t \<and> handler_side ev"
  using assms
proof (induction rule: handler_step.induct)
  case (looks_up h en ens s ask w')
  then show ?case using mgr_step.elsewhere [of "\<lambda>w w'. True" s w'] by force
next
  case (no_retrieval_id h k en b s)
  then show ?case using mgr_step.elsewhere [of "\<lambda>w w'. True" s "ms_world s"] by force
next
  case (awaits_found h k en b s now hit m' w')
  then show ?case using mgr_step.await_now [OF awaits_found(2-4), of "\<lambda>w w'. True"] by force
next
  case (awaits_missing h k en b s e)
  then show ?case using mgr_step.await_miss [OF awaits_missing(2-4), of "provider_env pr" "\<lambda>w w'. True"] by force
next
  case (registers h k en b s now)
  then show ?case using mgr_step.await_register [OF registers(2), of bs "provider_env pr" "\<lambda>w w'. True" now] by force
next
  case (spawns h k en s)
  then show ?case using mgr_step.elsewhere [of "\<lambda>w w'. True" s] by force
qed

lemma provider_step_mgr:
  assumes "provider_step bs pr s ev t"
  shows "\<exists>mev. mgr_step bs (provider_env pr) (\<lambda>w w'. True) (ps_sys s) mev (ps_sys t) \<and>
     (ev = ManagerEvent mev \<or> handler_side mev \<and> (\<forall>mev'. ev \<noteq> ManagerEvent mev'))"
  using assms
proof (induction rule: provider_step.induct)
  case (arrives s sender wl ctx)
  then show ?case using mgr_step.elsewhere [of "\<lambda>w w'. True" "ps_sys s" "ms_world (ps_sys s)"] by force
next
  case (handles s hs h hs' ok h' t)
  then show ?case using handler_step_mgr [OF handles(2)] by auto
next
  case (returns s hs h hs')
  then show ?case using mgr_step.elsewhere [of "\<lambda>w w'. True" "ps_sys s"] by force
next
  case (retrieves s b r m')
  from link_system_put_sel [OF retrieves(2)] obtain st where "bs_put bs (inner (ms_mgr (ps_sys s))) b = (r, st)"
    "m' = (ms_mgr (ps_sys s))\<lparr>inner := st\<rparr>" by blast
  with mgr_step.write_inside [of bs "ps_sys s" b r st "provider_env pr" "\<lambda>w w'. True"] show ?case
    by (intro exI [of _ "WrittenInside {blk_cid b}"]) simp
next
  case (runs s ev t)
  then show ?case using mgr_step_any_world [OF runs(1)] by auto
qed

lemma provider_step_store:
  assumes "provider_step bs pr s ev t" and "store_ops_in bs R"
  shows "R (inner (ms_mgr (ps_sys s))) (inner (ms_mgr (ps_sys t))) \<and>
     await_timeout (ms_mgr (ps_sys t)) = await_timeout (ms_mgr (ps_sys s))"
  using provider_step_mgr [OF assms(1)] mgr_step_store [OF _ assms(2)] by blast

text \<open>The identifiers whose block an event brings or leaves into the store past the announcements.\<close>

fun past_manager :: "pevent \<Rightarrow> cid set" where
  "past_manager (ManagerEvent ev) = bypassed ev"
| "past_manager ev = {}"

context block_store
begin

lemma provider_step_stranded:
  assumes "provider_step bs pr s ev t" and "ev \<noteq> ManagerEvent PutManyFailed"
  shows "stranded contents (ps_sys t) \<subseteq> stranded contents (ps_sys s) \<union> past_manager ev"
proof -
  obtain mev where mev: "mgr_step bs (provider_env pr) (\<lambda>w w'. True) (ps_sys s) mev (ps_sys t)"
    "ev = ManagerEvent mev \<or> handler_side mev" using provider_step_mgr [OF assms(1)] by blast
  then have "mev \<noteq> PutManyFailed" "bypassed mev \<subseteq> past_manager ev" using assms(2) by (cases mev; auto)+
  with step_stranded [OF mev(1)] show ?thesis by blast
qed

end

text \<open>As long as nobody puts through the manager there is nothing to announce, and the notifier sleeps.\<close>

definition unused_channel :: "('s, 'cb, 'w) msys \<Rightarrow> bool" where
  "unused_channel s \<longleftrightarrow> ready_blocks (ms_mgr s) = [] \<and> ms_senders s = [] \<and> ms_notifying s = None"

lemma mgr_step_unused:
  assumes "mgr_step bs env wstep s ev t" and "unused_channel s" and "\<forall>cs. ev \<noteq> Stored cs"
  shows "unused_channel t \<and> (\<forall>b. ev \<noteq> Notified b)"
  using assms
proof (induction rule: mgr_step.induct)
  case (await_now s c' now x cb hit m' w')
  then have "m' = ms_mgr s" by (blast dest: await_block_found_sel)
  with await_now show ?case by (simp add: unused_channel_def)
next
  case (cleanup s cids now m' w')
  then show ?case using dom_cleanup_pass [of env now cids "ms_mgr s" "ms_world s"] by (simp add: unused_channel_def)
qed (simp_all add: unused_channel_def)

lemma provider_step_unused:
  assumes "provider_step bs pr s ev t" and "unused_channel (ps_sys s)" and "\<forall>cs. ev \<noteq> ManagerEvent (Stored cs)"
  shows "unused_channel (ps_sys t) \<and> (\<forall>b. ev \<noteq> ManagerEvent (Notified b))"
proof -
  obtain mev where mev: "mgr_step bs (provider_env pr) (\<lambda>w w'. True) (ps_sys s) mev (ps_sys t)"
    "ev = ManagerEvent mev \<or> handler_side mev \<and> (\<forall>mev'. ev \<noteq> ManagerEvent mev')" using provider_step_mgr [OF assms(1)] by blast
  then have "\<forall>cs. mev \<noteq> Stored cs" using assms(3) by auto
  from mgr_step_unused [OF mev(1) assms(2) this] mev(2) show ?thesis by auto
qed

lemma unused_channel_announced: "unused_channel s \<Longrightarrow> announced s = {}"
  by (simp add: unused_channel_def announced_def)

text \<open>Without a retriever nothing is ever retrieved, and nobody waits.\<close>

definition idle :: "'s psys \<Rightarrow> bool" where
  "idle s \<longleftrightarrow> waiters_ok (\<lambda>c cb. False) (ps_sys s) \<and> spawned (ms_world (ps_sys s)) = [] \<and>
     (\<forall>h \<in> set (ps_handlers s). hd_at h = AtLoop)"

lemma entry_lookup_idle:
  assumes "entry_lookup bs pr sender en st w = (ask, w')" and "\<not> has_retriever pr"
  shows "ask = None \<and> spawned w' = spawned w"
  using assms
  by (auto simp: entry_lookup_def try_retrieval_def Let_def split: if_splits sum.splits want_type.splits)

lemma handler_step_idle:
  assumes "handler_step bs pr h s ok h' t" and "\<not> has_retriever pr" and "hd_at h = AtLoop"
    and "waiters_ok (\<lambda>c cb. False) s" and "spawned (ms_world s) = []"
  shows "waiters_ok (\<lambda>c cb. False) t \<and> spawned (ms_world t) = [] \<and> hd_at h' = AtLoop"
  using assms by (induction rule: handler_step.induct) (auto simp: waiters_ok_def dest: entry_lookup_idle)

lemma provider_step_idle:
  assumes "provider_step bs pr s ev t" and "\<not> has_retriever pr" and "idle s"
  shows "idle t"
  using assms
proof (induction rule: provider_step.induct)
  case (handles s hs h hs' ok h' t)
  then show ?case using handler_step_idle [OF handles(2,3)] by (simp add: idle_def)
next
  case (runs s ev t)
  have "calls_keep (provider_env pr) (\<lambda>c cb. False) (\<lambda>w. spawned w = [])" by (simp add: calls_keep_def)
  moreover have "spawned w' = []" if "spawned w = []" "world_step pr w w'" for w w'
    using that(2,1)
  proof (induction rule: world_step.induct)
    case (worker_waits wk w again w')
    then show ?case by (cases wk) (auto simp: worker_wait_def)
  qed (simp_all add: signal_work_def cancel_ctx_def)
  ultimately show ?case
    using mgr_step_keeps [OF runs(1), of "\<lambda>c cb. False" "\<lambda>w. spawned w = []"] runs(2,6) unfolding idle_def by simp
qed (auto simp: idle_def waiters_ok_def new_handler_def)

end
