(* ===== verification/Message_Handlers.thy ===== *)
theory Message_Handlers
  imports Provider_Steps
begin

text \<open>
  The handlers of messages (\<open>ReceiveMessage\<close>, src/bitswap/provider.go) among the other goroutines: what a handler
  does when nothing comes between its steps is the function \<open>receive_message\<close>, the lock is held by one
  handler at most, and handlers always come to their end.
\<close>

section \<open>Who holds the lock\<close>

text \<open>What a handler holds the lock for, and the claim that the lock is held by the handlers that hold it.\<close>

definition handler_lock :: "handler \<Rightarrow> (cid \<times> ctx \<times> await_cb) list" where
  "handler_lock h =
     (case hd_at h of
        AtRegister k en b \<Rightarrow> [(en_cid en, Derived (hd_ctx h) k, handler_cb h k en b)]
      | _ \<Rightarrow> [])"

definition locks :: "handler list \<Rightarrow> (cid \<times> ctx \<times> await_cb) list" where
  "locks hs = concat (map handler_lock hs)"

definition lock_ok :: "'s psys \<Rightarrow> bool" where
  "lock_ok s \<longleftrightarrow> locks (ps_handlers s) = (case ms_holder (ps_sys s) of None \<Rightarrow> [] | Some l \<Rightarrow> [l])"

lemma locks_simps [simp]:
  "locks [] = []" "locks (h # hs) = handler_lock h @ locks hs" "locks (hs @ hs') = locks hs @ locks hs'"
  by (simp_all add: locks_def)

lemma mgr_step_holder:
  assumes "mgr_step bs env wstep s ev t" and "\<forall>x cb. ev \<noteq> Awaited x cb" and "ev \<noteq> Registered"
  shows "ms_holder t = ms_holder s"
  using assms by (induction rule: mgr_step.induct) auto

lemma handler_step_lock:
  assumes "handler_step bs pr h s ok h' t"
    and "before @ handler_lock h @ after = (case ms_holder s of None \<Rightarrow> [] | Some l \<Rightarrow> [l])"
  shows "before @ handler_lock h' @ after = (case ms_holder t of None \<Rightarrow> [] | Some l \<Rightarrow> [l])"
  using assms
  by (induction rule: handler_step.induct)
    (auto simp: handler_lock_def handler_cb_def append_eq_Cons_conv split: option.splits)

lemma provider_step_lock: "provider_step bs pr s ev t \<Longrightarrow> lock_ok s \<Longrightarrow> lock_ok t"
proof (induction rule: provider_step.induct)
  case (handles s hs h hs' ok h' t)
  then show ?case using handler_step_lock [OF handles(2), of "locks hs" "locks hs'"] by (simp add: lock_ok_def)
next
  case (runs s ev t)
  then show ?case using mgr_step_holder [OF runs(1-3)] by (simp add: lock_ok_def)
qed (simp_all add: lock_ok_def new_handler_def handler_lock_def)

lemma provider_reach_lock: "provider_reach bs pr s \<Longrightarrow> lock_ok s"
proof (induction rule: provider_reach.induct)
  case (starts st timeout)
  show ?case by (simp add: lock_ok_def init_msys_def)
qed (rule provider_step_lock)

section \<open>How much work is left\<close>

definition handler_work :: "handler \<Rightarrow> nat" where
  "handler_work h = 4 * length (hd_todo h) +
     (case hd_at h of AtLoop \<Rightarrow> 0 | AtAwait k en b \<Rightarrow> 3 | AtRegister k en b \<Rightarrow> 2 | AtSpawn k en \<Rightarrow> 1)"

definition total_work :: "handler list \<Rightarrow> nat" where
  "total_work hs = (\<Sum>h \<leftarrow> hs. Suc (handler_work h))"

fun handler_event :: "pevent \<Rightarrow> bool" where
  "handler_event (HandlerMoved ok) = True"
| "handler_event MessageHandled = True"
| "handler_event ev = False"

fun arriving_work :: "pevent \<Rightarrow> nat" where
  "arriving_work (MessageArrived p wl) = Suc (4 * length wl)"
| "arriving_work ev = 0"

lemma total_work_simps [simp]:
  "total_work [] = 0" "total_work (h # hs) = Suc (handler_work h) + total_work hs"
  "total_work (hs @ hs') = total_work hs + total_work hs'"
  by (simp_all add: total_work_def)

lemma handler_step_work: "handler_step bs pr h s ok h' t \<Longrightarrow> handler_work h' < handler_work h"
  by (induction rule: handler_step.induct) (auto simp: handler_work_def split: option.splits)

lemma provider_step_work:
  assumes "provider_step bs pr s ev t"
  shows "total_work (ps_handlers t) + of_bool (handler_event ev) \<le> total_work (ps_handlers s) + arriving_work ev"
  using assms
proof (induction rule: provider_step.induct)
  case (handles s hs h hs' ok h' t)
  then show ?case using handler_step_work [OF handles(2)] by simp
qed (simp_all add: new_handler_def handler_work_def)

lemma provider_run_work:
  assumes "provider_run bs pr s evs t"
  shows "total_work (ps_handlers t) + length (filter handler_event evs) \<le>
     total_work (ps_handlers s) + sum_list (map arriving_work evs)"
  using assms
proof (induction rule: provider_run.induct)
  case (goes_on s evs t ev u)
  then show ?case using provider_step_work [OF goes_on(2)] by (auto split: if_splits)
qed simp

text \<open>Whoever holds the lock can release it; when nobody does, every handler can move.\<close>

lemma locks_Cons_D: "locks hs = l # ls \<Longrightarrow> \<exists>hs1 h hs2. hs = hs1 @ h # hs2 \<and> handler_lock h = [l]"
proof (induction hs)
  case (Cons h hs)
  show ?case
  proof (cases "handler_lock h = []")
    case True
    with Cons obtain hs1 h' hs2 where "hs = hs1 @ h' # hs2" "handler_lock h' = [l]" by auto
    then show ?thesis by (intro exI [of _ "h # hs1"] exI [of _ h'] exI [of _ hs2]) simp
  next
    case False
    then have "handler_lock h = [l]" using Cons.prems by (auto simp: handler_lock_def split: handler_at.splits)
    then show ?thesis by blast
  qed
qed simp

lemma handler_unlocked_moves:
  assumes "ms_holder s = None" and "hd_at h \<noteq> AtLoop \<or> hd_todo h \<noteq> []" and "handler_lock h = []"
  shows "\<exists>h' t. handler_step bs pr h s True h' t"
proof (cases "hd_at h")
  case AtLoop
  with assms(2) obtain en ens where "hd_todo h = en # ens" by (cases "hd_todo h") auto
  with looks_up [OF AtLoop this, of bs pr s] AtLoop show ?thesis
    by (cases "entry_lookup bs pr (hd_sender h) en (inner (ms_mgr s)) (ms_world s)") blast
next
  case (AtAwait k en b)
  show ?thesis
  proof (cases "\<exists>e. bs_get_size bs (inner (ms_mgr s)) (en_cid en) = Inl e \<and> is_not_found e")
    case True
    with awaits_missing [OF AtAwait assms(1)] show ?thesis by blast
  next
    case False
    obtain hit m' w' where "await_block bs (provider_env pr) 0 (Derived (hd_ctx h) k) (en_cid en) (handler_cb h k en b)
        (ms_mgr s, ms_world s) = (hit, m', w')" by (metis prod_cases3)
    with awaits_found [OF AtAwait assms(1) _ this] False show ?thesis by blast
  qed
next
  case (AtRegister k en b)
  with assms(3) show ?thesis by (simp add: handler_lock_def)
next
  case (AtSpawn k en)
  from spawns [OF this] show ?thesis by blast
qed

lemma handlers_can_move:
  assumes "lock_ok s" and "ps_handlers s \<noteq> []"
  shows "\<exists>ev \<in> {HandlerMoved True, MessageHandled}. \<exists>t. provider_step bs pr s ev t"
proof (cases "ms_holder (ps_sys s)")
  case None
  obtain h hs where hs: "ps_handlers s = [] @ h # hs" using assms(2) by (cases "ps_handlers s") auto
  show ?thesis
  proof (cases "hd_at h = AtLoop \<and> hd_todo h = []")
    case True
    with returns [OF hs] show ?thesis by blast
  next
    case False
    moreover have "handler_lock h = []" using assms(1) None hs by (simp add: lock_ok_def)
    ultimately show ?thesis using handler_unlocked_moves [OF None] handles [OF hs] by blast
  qed
next
  case (Some l)
  then have "locks (ps_handlers s) = [l]" using assms(1) by (simp add: lock_ok_def)
  then obtain hs1 h hs2 where hs: "ps_handlers s = hs1 @ h # hs2" "handler_lock h = [l]" by (metis locks_Cons_D)
  then obtain k en b where "hd_at h = AtRegister k en b" "l = (en_cid en, Derived (hd_ctx h) k, handler_cb h k en b)"
    by (auto simp: handler_lock_def split: handler_at.splits)
  with registers [of h k en b "ps_sys s"] Some handles [OF hs(1)] show ?thesis by blast
qed

section \<open>A message on its own\<close>

text \<open>The steps of one handler with nothing in between.\<close>

definition handler_moves ::
  "'s blockstore \<Rightarrow> provider \<Rightarrow> handler \<times> ('s, await_cb, pworld) msys \<Rightarrow> handler \<times> ('s, await_cb, pworld) msys \<Rightarrow> bool" where
  "handler_moves bs pr x y \<longleftrightarrow> (\<exists>ok. handler_step bs pr (fst x) (snd x) ok (fst y) (snd y))"

lemma handler_movesI: "handler_step bs pr h s ok h' t \<Longrightarrow> handler_moves bs pr (h, s) (h', t)"
  by (auto simp: handler_moves_def)

lemma retrieval_moves:
  assumes "hd_at h = AtAwait k en b" and "ms_holder s = None"
    and "retrieve_for_peer bs pr now id_err (hd_ctx h) k en (hd_sender h) b (ms_mgr s, ms_world s) = (m', w')"
  shows "(handler_moves bs pr)\<^sup>*\<^sup>* (h, s) (h\<lparr>hd_at := AtLoop\<rparr>, s\<lparr>ms_mgr := m', ms_world := w'\<rparr>)"
proof (cases id_err)
  case (Some e)
  with assms(3) have "m' = ms_mgr s" "w' = ms_world s" by (simp_all add: retrieve_for_peer_def)
  with handler_movesI [OF no_retrieval_id [OF assms(1), of bs pr s]] show ?thesis by simp
next
  case None
  let ?lookup = "bs_get_size bs (inner (ms_mgr s)) (en_cid en)" and ?cb = "handler_cb h k en b"
  have rt: "\<lparr>rt_entry = en, rt_sender = hd_sender h, rt_ctx = hd_ctx h, rt_block_ctx = Derived (hd_ctx h) k\<rparr> =
      retrieval_of (hd_ctx h) (hd_sender h) (k, en)"
    by (simp add: retrieval_of_def)
  show ?thesis
  proof (cases "\<exists>e. ?lookup = Inl e \<and> is_not_found e")
    case True
    then obtain e where miss: "?lookup = Inl e" "is_not_found e" by blast
    let ?h1 = "h\<lparr>hd_at := AtRegister k en b\<rparr>" and ?s1 = "s\<lparr>ms_holder := Some (en_cid en, Derived (hd_ctx h) k, ?cb)\<rparr>"
    let ?m = "register (en_cid en) \<lparr>we_ctx = Derived (hd_ctx h) k, we_cb = ?cb, we_at = now\<rparr> (ms_mgr s)"
    let ?h2 = "h\<lparr>hd_at := AtSpawn k en\<rparr>" and ?s2 = "s\<lparr>ms_mgr := ?m\<rparr>"
    have "handler_moves bs pr (h, s) (?h1, ?s1)"
      using handler_movesI [OF awaits_missing [OF assms(1,2) miss]] by blast
    moreover have "handler_moves bs pr (?h1, ?s1) (?h2, ?s2)"
      using handler_movesI [OF registers [of ?h1 k en b ?s1 bs pr now]] assms(2) by (cases s) (simp add: handler_cb_def)
    moreover have "handler_moves bs pr (?h2, ?s2) (h\<lparr>hd_at := AtLoop\<rparr>, s\<lparr>ms_mgr := m', ms_world := w'\<rparr>)"
      using handler_movesI [OF spawns [of ?h2 k en bs pr ?s2]] assms(3) None miss
      by (simp add: retrieve_for_peer_def await_block_def handler_cb_def Let_def rt)
    ultimately show ?thesis by (meson rtranclp.rtrancl_into_rtrancl rtranclp.rtrancl_refl)
  next
    case False
    then have found: "\<forall>e. ?lookup = Inl e \<longrightarrow> \<not> is_not_found e" by blast
    obtain hit m1 w1 where await: "await_block bs (provider_env pr) now (Derived (hd_ctx h) k) (en_cid en) ?cb
        (ms_mgr s, ms_world s) = (hit, m1, w1)" by (metis prod_cases3)
    let ?h1 = "h\<lparr>hd_at := (if hit then AtLoop else AtSpawn k en)\<rparr>" and ?s1 = "s\<lparr>ms_mgr := m1, ms_world := w1\<rparr>"
    have one: "handler_moves bs pr (h, s) (?h1, ?s1)"
      using handler_movesI [OF awaits_found [OF assms(1,2) found await]] .
    show ?thesis
    proof (cases hit)
      case True
      with await one assms(3) None show ?thesis
        by (auto simp: retrieve_for_peer_def handler_cb_def Let_def)
    next
      case miss: False
      have "handler_moves bs pr (?h1, ?s1) (h\<lparr>hd_at := AtLoop\<rparr>, s\<lparr>ms_mgr := m', ms_world := w'\<rparr>)"
        using handler_movesI [OF spawns [of ?h1 k en bs pr ?s1]] assms(3) None miss await
        by (simp add: retrieve_for_peer_def handler_cb_def Let_def rt)
      with one show ?thesis by (meson rtranclp.rtrancl_into_rtrancl rtranclp.rtrancl_refl)
    qed
  qed
qed

lemma entry_moves:
  assumes "hd_at h = AtLoop" and "hd_todo h = en # ens" and "ms_holder s = None"
    and "receive_entry bs pr now id_err (hd_ctx h) (hd_sender h) (hd_next h) en (ms_mgr s, ms_world s) = (m', w')"
  shows "(handler_moves bs pr)\<^sup>*\<^sup>* (h, s)
     (h\<lparr>hd_next := Suc (hd_next h), hd_todo := ens\<rparr>, s\<lparr>ms_mgr := m', ms_world := w'\<rparr>)"
proof -
  obtain ask w1 where lookup: "entry_lookup bs pr (hd_sender h) en (inner (ms_mgr s)) (ms_world s) = (ask, w1)" by fastforce
  let ?h1 = "h\<lparr>hd_next := Suc (hd_next h), hd_todo := ens,
     hd_at := (case ask of None \<Rightarrow> AtLoop | Some b \<Rightarrow> AtAwait (hd_next h) en b)\<rparr>" and ?s1 = "s\<lparr>ms_world := w1\<rparr>"
  have one: "handler_moves bs pr (h, s) (?h1, ?s1)"
    using handler_movesI [OF looks_up [OF assms(1,2) lookup]] .
  show ?thesis
  proof (cases ask)
    case None
    with lookup assms(4) have "m' = ms_mgr s" "w' = w1" by (simp_all add: receive_entry_def)
    moreover have "h\<lparr>hd_next := Suc (hd_next h), hd_todo := ens, hd_at := AtLoop\<rparr> = h\<lparr>hd_next := Suc (hd_next h), hd_todo := ens\<rparr>"
      using assms(1) by simp
    ultimately show ?thesis using one None by auto
  next
    case (Some b)
    with lookup assms(4) have "retrieve_for_peer bs pr now id_err (hd_ctx ?h1) (hd_next h) en (hd_sender ?h1) b
        (ms_mgr ?s1, ms_world ?s1) = (m', w')"
      by (simp add: receive_entry_def)
    from retrieval_moves [OF _ _ this] Some assms(3)
    have "(handler_moves bs pr)\<^sup>*\<^sup>* (?h1, ?s1) (?h1\<lparr>hd_at := AtLoop\<rparr>, ?s1\<lparr>ms_mgr := m', ms_world := w'\<rparr>)" by simp
    moreover have "?h1\<lparr>hd_at := AtLoop\<rparr> = h\<lparr>hd_next := Suc (hd_next h), hd_todo := ens\<rparr>" using assms(1) by simp
    ultimately show ?thesis using converse_rtranclp_into_rtranclp [of "handler_moves bs pr", OF one] by simp
  qed
qed

lemma entries_moves:
  assumes "hd_at h = AtLoop" and "ms_holder s = None"
    and "receive_entries bs pr now id_err (hd_ctx h) (hd_sender h) (hd_next h) (hd_todo h) (ms_mgr s, ms_world s) = (m', w')"
  shows "\<exists>h'. (handler_moves bs pr)\<^sup>*\<^sup>* (h, s) (h', s\<lparr>ms_mgr := m', ms_world := w'\<rparr>) \<and> hd_at h' = AtLoop \<and> hd_todo h' = []"
  using assms
proof (induction "hd_todo h" arbitrary: h s)
  case Nil
  then have "s\<lparr>ms_mgr := m', ms_world := w'\<rparr> = s" by (cases s) simp
  then show ?case unfolding \<open>s\<lparr>ms_mgr := m', ms_world := w'\<rparr> = s\<close> using Nil(1,2) by (intro exI [of _ h]) simp
next
  case (Cons en ens)
  obtain m1 w1 where one: "receive_entry bs pr now (id_err (hd_next h)) (hd_ctx h) (hd_sender h) (hd_next h) en
      (ms_mgr s, ms_world s) = (m1, w1)" by fastforce
  let ?h1 = "h\<lparr>hd_next := Suc (hd_next h), hd_todo := ens\<rparr>" and ?s1 = "s\<lparr>ms_mgr := m1, ms_world := w1\<rparr>"
  have step: "(handler_moves bs pr)\<^sup>*\<^sup>* (h, s) (?h1, ?s1)"
    using entry_moves [OF Cons.prems(1) Cons.hyps(2) [symmetric] Cons.prems(2) one] .
  have "receive_entries bs pr now id_err (hd_ctx ?h1) (hd_sender ?h1) (hd_next ?h1) (hd_todo ?h1) (ms_mgr ?s1, ms_world ?s1) = (m', w')"
    using Cons.prems(3) Cons.hyps(2) [symmetric] one by simp
  from Cons.hyps(1) [OF _ _ _ this] Cons.prems(1,2) obtain h' where
    "(handler_moves bs pr)\<^sup>*\<^sup>* (?h1, ?s1) (h', ?s1\<lparr>ms_mgr := m', ms_world := w'\<rparr>)" "hd_at h' = AtLoop" "hd_todo h' = []"
    by auto
  with rtranclp_trans [OF step] show ?case by (intro exI [of _ h']) simp
qed

lemma moves_run:
  assumes "(handler_moves bs pr)\<^sup>*\<^sup>* (h, x) (h', y)" and "ps_handlers s = hs @ h # hs'" and "ps_sys s = x"
  shows "\<exists>evs. set evs \<subseteq> range HandlerMoved \<and> provider_run bs pr s evs (s\<lparr>ps_sys := y, ps_handlers := hs @ h' # hs'\<rparr>)"
  using assms(1)
proof (induction rule: rtranclp_induct2)
  case refl
  have "s\<lparr>ps_sys := x, ps_handlers := hs @ h # hs'\<rparr> = s" using assms(2,3) by simp
  then show ?case using stays [of bs pr s] by (intro exI [of _ "[]"]) simp
next
  case (step h1 x1 h2 x2)
  then obtain evs ok where evs: "set evs \<subseteq> range HandlerMoved"
    "provider_run bs pr s evs (s\<lparr>ps_sys := x1, ps_handlers := hs @ h1 # hs'\<rparr>)" "handler_step bs pr h1 x1 ok h2 x2"
    by (auto simp: handler_moves_def)
  then have "provider_step bs pr (s\<lparr>ps_sys := x1, ps_handlers := hs @ h1 # hs'\<rparr>) (HandlerMoved ok)
      (s\<lparr>ps_sys := x2, ps_handlers := hs @ h2 # hs'\<rparr>)"
    using handles [of "s\<lparr>ps_sys := x1, ps_handlers := hs @ h1 # hs'\<rparr>" hs h1 hs' bs pr ok h2 x2] by simp
  with evs show ?case by (intro exI [of _ "evs @ [HandlerMoved ok]"]) (auto intro: goes_on)
qed

lemma message_runs:
  assumes "ms_holder (ps_sys s) = None"
    and "receive_message bs pr now id_err ctx sender wl (ms_mgr (ps_sys s), ms_world (ps_sys s)) = (m', w')"
  shows "\<exists>evs. set evs \<subseteq> range HandlerMoved \<and> provider_run bs pr s (MessageArrived sender wl # evs @ [MessageHandled])
     (s\<lparr>ps_sys := (ps_sys s)\<lparr>ms_mgr := m', ms_world := w'\<rparr>, ps_asked := ps_asked s @ map (Pair sender) wl\<rparr>)"
proof -
  let ?h = "new_handler ctx sender wl"
  let ?s1 = "s\<lparr>ps_handlers := ps_handlers s @ [?h], ps_asked := ps_asked s @ map (Pair sender) wl\<rparr>"
  from assms(2) obtain w1 where entries: "receive_entries bs pr now id_err (hd_ctx ?h) (hd_sender ?h) (hd_next ?h) (hd_todo ?h)
      (ms_mgr (ps_sys s), ms_world (ps_sys s)) = (m', w1)" and w': "w' = signal_work pr w1"
    by (auto simp: receive_message_def new_handler_def split: prod.splits)
  have "hd_at ?h = AtLoop" by (simp add: new_handler_def)
  from entries_moves [OF this assms(1) entries] obtain h' where
    h': "(handler_moves bs pr)\<^sup>*\<^sup>* (?h, ps_sys s) (h', (ps_sys s)\<lparr>ms_mgr := m', ms_world := w1\<rparr>)"
    "hd_at h' = AtLoop" "hd_todo h' = []" by blast
  from moves_run [OF h'(1), of ?s1 "ps_handlers s" "[]"] obtain evs where evs: "set evs \<subseteq> range HandlerMoved"
    "provider_run bs pr ?s1 evs (?s1\<lparr>ps_sys := (ps_sys s)\<lparr>ms_mgr := m', ms_world := w1\<rparr>, ps_handlers := ps_handlers s @ [h']\<rparr>)"
    by auto
  let ?s2 = "?s1\<lparr>ps_sys := (ps_sys s)\<lparr>ms_mgr := m', ms_world := w1\<rparr>, ps_handlers := ps_handlers s @ [h']\<rparr>"
  have "provider_step bs pr ?s2 MessageHandled
      (s\<lparr>ps_sys := (ps_sys s)\<lparr>ms_mgr := m', ms_world := w'\<rparr>, ps_asked := ps_asked s @ map (Pair sender) wl\<rparr>)"
    using returns [of ?s2 "ps_handlers s" h' "[]" bs pr] h'(2,3) w' by (cases s) simp
  from provider_run_trans [OF provider_run_one [OF this] evs(2)]
    provider_run_one [OF arrives [of bs pr s sender wl ctx]] evs(1)
  show ?thesis using provider_run_trans by (intro exI [of _ evs]) fastforce
qed

section \<open>What a handler on its own has done\<close>

context reliable_block_store
begin

lemma entry_lookup_result:
  assumes "entry_lookup bs pr sender en st w = (ask, w')"
  shows "spawned w' = spawned w \<and> work_ready w' = work_ready w \<and>
     (if promised_wait pr (contents st) en
      then ask = Some (en_type en = WantBlock) \<and> pushed w' = pushed w \<and> promised_answer pr (contents st) en = []
      else ask = None \<and> pushed w' = pushed w @ map (Pair sender) (promised_answer pr (contents st) en))"
proof (cases "contents st (en_cid en)")
  case None
  with get_size_not_found obtain e where "bs_get_size bs st (en_cid en) = Inl e" "is_not_found e" by blast
  with assms None show ?thesis
    by (cases "en_type en")
      (auto simp: entry_lookup_def try_retrieval_def has_contents promised_answer_def promised_wait_def Let_def split: if_splits)
next
  case (Some d)
  then have "bs_get_size bs st (en_cid en) = Inr (int (length d))" by (rule get_size_total)
  with assms Some show ?thesis
    by (cases "en_type en")
      (auto simp: entry_lookup_def try_retrieval_def has_contents promised_answer_def promised_wait_def Let_def split: if_splits)
qed

end

text \<open>The part of the wantlist that a handler has not dealt with: what is left to do, with the want it asks \<open>AwaitBlock\<close> for.\<close>

definition undone :: "handler \<Rightarrow> entry list" where
  "undone h = (case hd_at h of AtAwait k en b \<Rightarrow> [en] | AtRegister k en b \<Rightarrow> [en] | _ \<Rightarrow> []) @ hd_todo h"

definition to_spawn :: "handler \<Rightarrow> retrieval list" where
  "to_spawn h = (case hd_at h of AtSpawn k en \<Rightarrow> [retrieval_of (hd_ctx h) (hd_sender h) (k, en)] | _ \<Rightarrow> [])"

text \<open>What is true when the handler, alone since the state \<open>s\<close>, has dealt with the entries \<open>fin\<close>: \<open>ct\<close> are the contents of
  the store, and \<open>at k\<close> is when it registered for the \<open>k\<close>-th entry.\<close>

definition has_served ::
  "provider \<Rightarrow> store_contents \<Rightarrow> ('s, await_cb, pworld) msys \<Rightarrow> entry list \<Rightarrow> (nat \<Rightarrow> go_time) \<Rightarrow> handler \<Rightarrow>
   ('s, await_cb, pworld) msys \<Rightarrow> bool" where
  "has_served pr ct s fin at h u \<longleftrightarrow>
     inner (ms_mgr u) = inner (ms_mgr s) \<and> ready_blocks (ms_mgr u) = ready_blocks (ms_mgr s) \<and>
     pushed (ms_world u) = pushed (ms_world s) @ map (Pair (hd_sender h)) (concat (map (promised_answer pr ct) fin)) \<and>
     (\<forall>c. slice_at (wait_list (ms_mgr u)) c = slice_at (wait_list (ms_mgr s)) c @
        map (\<lambda>(k, en). waiter_of (hd_ctx h) (hd_sender h) (at k) (k, en)) (waiters_for c (waits_of pr ct 0 fin))) \<and>
     spawned (ms_world u) @ to_spawn h =
       spawned (ms_world s) @ map (retrieval_of (hd_ctx h) (hd_sender h)) (waits_of pr ct 0 fin) \<and>
     work_ready (ms_world u) = work_ready (ms_world s) \<and>
     (case hd_at h of
        AtLoop \<Rightarrow> hd_next h = length fin
      | AtAwait k en b \<Rightarrow> hd_next h = Suc k \<and> k = length fin \<and> promised_wait pr ct en \<and> b = (en_type en = WantBlock)
      | AtRegister k en b \<Rightarrow> hd_next h = Suc k \<and> k = length fin \<and> promised_wait pr ct en \<and> b = (en_type en = WantBlock)
      | AtSpawn k en \<Rightarrow> hd_next h = length fin)"

lemma waits_of_snoc:
  "waits_of pr ct 0 (fin @ [en]) = waits_of pr ct 0 fin @ (if promised_wait pr ct en then [(length fin, en)] else [])"
  by (simp add: waits_of_def enumerate_append_eq)

lemma waiters_for_append: "waiters_for c (xs @ ys) = waiters_for c xs @ waiters_for c ys"
  by (simp add: waiters_for_def)

lemma waits_of_bound: "(k, en) \<in> set (waits_of pr ct 0 fin) \<Longrightarrow> k < length fin"
  by (auto simp: waits_of_def in_set_enumerate_eq)

lemma waiters_at_cong:
  "map (\<lambda>(k, en). waiter_of x p ((at(length fin := now)) k) (k, en)) (waiters_for c (waits_of pr ct 0 fin)) =
   map (\<lambda>(k, en). waiter_of x p (at k) (k, en)) (waiters_for c (waits_of pr ct 0 fin))"
  by (rule map_cong) (auto simp: waiters_for_def dest: waits_of_bound)

inductive_cases handler_movedE: "provider_step bs pr s (HandlerMoved ok) t"
inductive_cases message_handledE: "provider_step bs pr s MessageHandled t"
inductive_cases message_arrivedE: "provider_step bs pr s (MessageArrived p wl) t"
inductive_cases provider_run_snocE: "provider_run bs pr s (evs @ [ev]) t"
inductive_cases provider_run_NilE: "provider_run bs pr s [] t"

lemma provider_run_Cons:
  "provider_run bs pr s (ev # evs) t \<Longrightarrow> \<exists>u. provider_step bs pr s ev u \<and> provider_run bs pr u evs t"
proof (induction evs arbitrary: t rule: rev_induct)
  case Nil
  then show ?case using provider_run_snocE [of bs pr s "[]" ev t] by (auto elim: provider_run_NilE intro: stays)
next
  case (snoc ev' evs)
  then have "provider_run bs pr s ((ev # evs) @ [ev']) t" by simp
  then obtain v where "provider_run bs pr s (ev # evs) v" "provider_step bs pr v ev' t" by (rule provider_run_snocE)
  with snoc.IH show ?case using goes_on by blast
qed

context reliable_block_store
begin

lemma handler_step_serves:
  assumes "handler_step bs pr h u True h' u'" and "has_served pr (contents (inner (ms_mgr s))) s fin at h u"
  shows "\<exists>fin' at'. fin' @ undone h' = fin @ undone h \<and> has_served pr (contents (inner (ms_mgr s))) s fin' at' h' u' \<and>
     hd_ctx h' = hd_ctx h \<and> hd_sender h' = hd_sender h"
  using assms
proof (induction h u "True" h' u' rule: handler_step.induct)
  case (looks_up h en ens u ask w')
  have "inner (ms_mgr u) = inner (ms_mgr s)" using looks_up(4) by (simp add: has_served_def)
  with entry_lookup_result [OF looks_up(3)] looks_up(1,2,4) show ?case
  proof (cases "promised_wait pr (contents (inner (ms_mgr s))) en")
    case True
    with entry_lookup_result [OF looks_up(3)] looks_up(1,2,4) show ?thesis
      by (intro exI [of _ fin] exI [of _ at]) (simp add: has_served_def undone_def to_spawn_def)
  next
    case False
    with entry_lookup_result [OF looks_up(3)] looks_up(1,2,4) show ?thesis
      by (intro exI [of _ "fin @ [en]"] exI [of _ at]) (simp add: has_served_def undone_def to_spawn_def waits_of_snoc)
  qed
next
  case (awaits_found h k en b u now hit m' w')
  then have "contents (inner (ms_mgr u)) (en_cid en) = None" by (simp add: has_served_def promised_wait_def)
  with get_size_not_found awaits_found(3) show ?case by blast
next
  case (awaits_missing h k en b u e)
  then show ?case by (intro exI [of _ fin] exI [of _ at]) (simp add: has_served_def undone_def to_spawn_def)
next
  case (registers h k en b u now)
  then have k: "k = length fin" "promised_wait pr (contents (inner (ms_mgr s))) en" "b = (en_type en = WantBlock)"
    by (simp_all add: has_served_def)
  have "promised_answer pr (contents (inner (ms_mgr s))) en = []"
    using k(2) by (auto simp: promised_wait_def promised_answer_def split: want_type.splits)
  moreover have "\<lparr>we_ctx = Derived (hd_ctx h) k, we_cb = handler_cb h k en b, we_at = now\<rparr> =
      waiter_of (hd_ctx h) (hd_sender h) now (k, en)"
    by (simp add: waiter_of_def handler_cb_def k(3))
  ultimately show ?case
    using registers(1,3) k waiters_at_cong [of "hd_ctx h" "hd_sender h" at fin now]
    by (intro exI [of _ "fin @ [en]"] exI [of _ "at(length fin := now)"])
      (auto simp: has_served_def undone_def to_spawn_def waits_of_snoc waiters_for_append)
next
  case (spawns h k en u)
  then show ?case by (intro exI [of _ fin] exI [of _ at]) (simp add: has_served_def undone_def to_spawn_def)
qed simp_all

lemma served_run:
  assumes "provider_run bs pr v evs t" and "set evs \<subseteq> {HandlerMoved True}" and "ps_handlers v = [h]"
    and "has_served pr (contents (inner (ms_mgr s))) s fin at h (ps_sys v)"
  shows "\<exists>h' fin' at'. ps_handlers t = [h'] \<and> fin' @ undone h' = fin @ undone h \<and>
     has_served pr (contents (inner (ms_mgr s))) s fin' at' h' (ps_sys t) \<and> hd_ctx h' = hd_ctx h \<and> hd_sender h' = hd_sender h"
  using assms
proof (induction rule: provider_run.induct)
  case (goes_on v evs t ev u)
  then obtain h1 fin1 at1 where 1: "ps_handlers t = [h1]" "fin1 @ undone h1 = fin @ undone h"
    "has_served pr (contents (inner (ms_mgr s))) s fin1 at1 h1 (ps_sys t)" "hd_ctx h1 = hd_ctx h" "hd_sender h1 = hd_sender h"
    by auto
  from goes_on(2,4) have "provider_step bs pr t (HandlerMoved True) u" by auto
  then obtain h2 where "handler_step bs pr h1 (ps_sys t) True h2 (ps_sys u)" "ps_handlers u = [h2]"
    by (rule handler_movedE) (auto simp: 1(1) Cons_eq_append_conv)
  with handler_step_serves [OF this(1) 1(3)] 1 show ?case by metis
qed blast

end

section \<open>Properties\<close>

text \<open>C6. A message that nothing interrupts is served as promised. Over a store that answers without input or output
  errors, take any run in which a message arrives when no other is being handled, its handler moves, without a failure of
  \<open>NewRetrievalID\<close> and with nobody in between, and it returns. Then each want of the message was answered, in order, from the contents of
  the store: nothing for a cancel, DONT_HAVE for a blacklisted identifier, HAVE or BLOCK for a stored block, DONT_HAVE
  without a retriever; each other HAVE or BLOCK want has one waiter more, that sends what was asked for, registered under a context
  of its own, and one retrieval; and one worker was woken if the channel had room.\<close>

theorem message_served:
  assumes "reliable_block_store bs contents" and "ps_handlers s = []"
    and "provider_run bs pr s (MessageArrived sender wl # evs @ [MessageHandled]) t" and "set evs \<subseteq> {HandlerMoved True}"
  shows "\<exists>ctx at. inner (ms_mgr (ps_sys t)) = inner (ms_mgr (ps_sys s)) \<and>
     ready_blocks (ms_mgr (ps_sys t)) = ready_blocks (ms_mgr (ps_sys s)) \<and>
     pushed (ms_world (ps_sys t)) = pushed (ms_world (ps_sys s)) @
       map (Pair sender) (concat (map (promised_answer pr (contents (inner (ms_mgr (ps_sys s))))) wl)) \<and>
     (\<forall>c. slice_at (wait_list (ms_mgr (ps_sys t))) c = slice_at (wait_list (ms_mgr (ps_sys s))) c @
        map (\<lambda>(k, en). waiter_of ctx sender (at k) (k, en))
          (waiters_for c (waits_of pr (contents (inner (ms_mgr (ps_sys s)))) 0 wl))) \<and>
     spawned (ms_world (ps_sys t)) = spawned (ms_world (ps_sys s)) @
       map (retrieval_of ctx sender) (waits_of pr (contents (inner (ms_mgr (ps_sys s)))) 0 wl) \<and>
     work_ready (ms_world (ps_sys t)) =
       min (max (work_ready (ms_world (ps_sys s))) (max_workers pr)) (Suc (work_ready (ms_world (ps_sys s)))) \<and>
     ps_handlers t = []"
proof -
  obtain u v where run: "provider_step bs pr s (MessageArrived sender wl) u" "provider_run bs pr u evs v"
    "provider_step bs pr v MessageHandled t"
    using provider_run_Cons [OF assms(3)] by (auto elim: provider_run_snocE)
  from run(1) obtain ctx where u: "ps_handlers u = [new_handler ctx sender wl]" "ps_sys u = ps_sys s"
    by (rule message_arrivedE) (simp add: assms(2))
  let ?h = "new_handler ctx sender wl" and ?s = "ps_sys s"
  have "has_served pr (contents (inner (ms_mgr ?s))) ?s [] (\<lambda>k. 0) ?h (ps_sys u)"
    by (simp add: has_served_def new_handler_def to_spawn_def u(2))
  from reliable_block_store.served_run [OF assms(1) run(2) assms(4) u(1) this] obtain h fin at where
    h: "ps_handlers v = [h]" "fin @ undone h = undone ?h" "has_served pr (contents (inner (ms_mgr ?s))) ?s fin at h (ps_sys v)"
    "hd_ctx h = hd_ctx ?h" "hd_sender h = hd_sender ?h" by auto
  from run(3) h(1) have t: "hd_at h = AtLoop" "hd_todo h = []" "ps_handlers t = []"
    "ps_sys t = (ps_sys v)\<lparr>ms_world := signal_work pr (ms_world (ps_sys v))\<rparr>"
    by (auto elim!: message_handledE simp: append_eq_Cons_conv)
  then have "fin = wl" using h(2) by (simp add: undone_def new_handler_def)
  with h(3-5) t show ?thesis
    by (intro exI [of _ ctx] exI [of _ at]) (auto simp: has_served_def to_spawn_def new_handler_def signal_work_def)
qed

text \<open>A message is handled that asks for a blacklisted identifier.\<close>

definition demo_quiet :: "mem_store psys" where
  "demo_quiet = \<lparr>ps_sys = init_msys (fst demo_state) (snd demo_state), ps_handlers = [], ps_asked = []\<rparr>"

lemma demo_quiet_run:
  "\<exists>t. provider_run mem_blockstore demo_provider demo_quiet
     (MessageArrived ''peer'' [demo_entry ''b'' WantHave] # [HandlerMoved True] @ [MessageHandled]) t"
proof -
  let ?h = "new_handler (Root 0) ''peer'' [demo_entry ''b'' WantHave]"
  let ?s1 = "demo_quiet\<lparr>ps_handlers := [?h], ps_asked := [(''peer'', demo_entry ''b'' WantHave)]\<rparr>"
  have 1: "provider_step mem_blockstore demo_provider demo_quiet (MessageArrived ''peer'' [demo_entry ''b'' WantHave]) ?s1"
    using arrives [of mem_blockstore demo_provider demo_quiet "''peer''" "[demo_entry ''b'' WantHave]" "Root 0"]
    by (simp add: demo_quiet_def)
  obtain w where look: "entry_lookup mem_blockstore demo_provider (hd_sender ?h) (demo_entry ''b'' WantHave)
      (inner (ms_mgr (ps_sys ?s1))) (ms_world (ps_sys ?s1)) = (None, w)"
    by (simp add: entry_lookup_def demo_entry_def demo_provider_def blacklisted_def)
  have "ps_handlers ?s1 = [] @ ?h # []" "hd_at ?h = AtLoop" "hd_todo ?h = [demo_entry ''b'' WantHave]"
    by (simp_all add: new_handler_def)
  from handles [OF this(1) looks_up [OF this(2,3) look]] obtain s2 h2 where
    2: "provider_step mem_blockstore demo_provider ?s1 (HandlerMoved True) s2" "ps_handlers s2 = [] @ h2 # []"
    "hd_at h2 = AtLoop" "hd_todo h2 = []" by fastforce
  from returns [OF 2(2-4)] obtain t where "provider_step mem_blockstore demo_provider s2 MessageHandled t" by blast
  from goes_on [OF goes_on [OF provider_run_one [OF 1] 2(1)] this] show ?thesis by auto
qed

lemma message_served_witness:
  "\<exists>t. provider_run mem_blockstore demo_provider demo_quiet
       (MessageArrived ''peer'' [demo_entry ''b'' WantHave] # [HandlerMoved True] @ [MessageHandled]) t \<and>
     pushed (ms_world (ps_sys t)) = [(''peer'', presence_task demo_provider TopicDontHave (demo_entry ''b'' WantHave))]"
proof -
  obtain t where run: "provider_run mem_blockstore demo_provider demo_quiet
     (MessageArrived ''peer'' [demo_entry ''b'' WantHave] # [HandlerMoved True] @ [MessageHandled]) t"
    using demo_quiet_run by blast
  have "ps_handlers demo_quiet = []" by (simp add: demo_quiet_def)
  from message_served [OF mem.reliable_block_store_axioms this run] run show ?thesis
    by (auto simp: demo_quiet_def demo_state_def init_msys_def init_world_def promised_answer_def demo_entry_def
        demo_provider_def blacklisted_def)
qed

text \<open>C5. Every message is handled to its end. Along every run from a reachable state, whatever else happens in between,
  the handlers make at most as many steps as the work at hand and the messages that arrived allow: four for each entry,
  and one to return. As long as there is a handler some handler can move, none of them waiting for
  anything but the lock, and only a handler holds that; and when none is left the lock is free.\<close>

theorem handlers_finish:
  assumes "provider_reach bs pr s"
  shows "(\<forall>evs t. provider_run bs pr s evs t \<longrightarrow>
        length (filter handler_event evs) \<le> total_work (ps_handlers s) + sum_list (map arriving_work evs)) \<and>
     (ps_handlers s \<noteq> [] \<longrightarrow> (\<exists>ev \<in> {HandlerMoved True, MessageHandled}. \<exists>t. provider_step bs pr s ev t)) \<and>
     (ps_handlers s = [] \<longrightarrow> ms_holder (ps_sys s) = None)"
proof (intro conjI allI impI)
  fix evs t
  assume "provider_run bs pr s evs t"
  then show "length (filter handler_event evs) \<le> total_work (ps_handlers s) + sum_list (map arriving_work evs)"
    using provider_run_work by fastforce
next
  assume "ps_handlers s \<noteq> []"
  with provider_reach_lock [OF assms] show "\<exists>ev \<in> {HandlerMoved True, MessageHandled}. \<exists>t. provider_step bs pr s ev t"
    by (rule handlers_can_move)
next
  assume "ps_handlers s = []"
  with provider_reach_lock [OF assms] show "ms_holder (ps_sys s) = None"
    by (simp add: lock_ok_def split: option.splits)
qed

text \<open>A message has arrived and its first want was looked up.\<close>

definition demo_asked :: "mem_store psys" where
  "demo_asked =
     \<lparr>ps_sys = init_msys (fst (new_manager [] second)) (record_stat BitswapRetrieverRequestCount (record_stat BitswapRequestCount init_world)),
      ps_handlers = [\<lparr>hd_ctx = Root 0, hd_sender = ''peer'', hd_next = 1, hd_todo = [],
        hd_at = AtAwait 0 (demo_entry ''c'' WantBlock) True\<rparr>],
      ps_asked = [(''peer'', demo_entry ''c'' WantBlock)]\<rparr>"

lemma demo_asked_reach: "provider_reach mem_blockstore demo_provider demo_asked"
proof -
  let ?en = "demo_entry ''c'' WantBlock"
  let ?s0 = "\<lparr>ps_sys = init_msys (fst (new_manager [] second)) init_world, ps_handlers = [], ps_asked = []\<rparr>"
  let ?h = "new_handler (Root 0) ''peer'' [?en]"
  let ?s1 = "?s0\<lparr>ps_handlers := [?h], ps_asked := [(''peer'', ?en)]\<rparr>"
  have "provider_reach mem_blockstore demo_provider ?s1"
    using continues [OF starts arrives [of mem_blockstore demo_provider ?s0 "''peer''" "[?en]" "Root 0"]] by simp
  moreover have look: "entry_lookup mem_blockstore demo_provider (hd_sender ?h) ?en (inner (ms_mgr (ps_sys ?s1))) (ms_world (ps_sys ?s1)) =
      (Some True, record_stat BitswapRetrieverRequestCount (record_stat BitswapRequestCount init_world))"
    by (simp add: entry_lookup_def try_retrieval_def demo_entry_def demo_provider_def blacklisted_def init_msys_def new_manager_def
        new_handler_def)
  have h: "hd_at ?h = AtLoop" "hd_todo ?h = [?en]" by (simp_all add: new_handler_def)
  have "ps_handlers ?s1 = [] @ ?h # []" by simp
  from handles [OF this looks_up [OF h look]] have "provider_step mem_blockstore demo_provider ?s1 (HandlerMoved True) demo_asked"
    by (simp add: demo_asked_def new_handler_def init_msys_def)
  ultimately show ?thesis by (rule continues)
qed

lemma handlers_finish_witness:
  "\<exists>ev \<in> {HandlerMoved True, MessageHandled}. \<exists>t. provider_step mem_blockstore demo_provider demo_asked ev t"
  using handlers_finish [OF demo_asked_reach] by (simp add: demo_asked_def)

text \<open>C7. A block that comes while a want is being looked up is not missed. Let a handler have found a want's
  block missing, and let a put store the block before the handler calls \<open>AwaitBlock\<close>. Then \<open>AwaitBlock\<close> finds the block
  and answers the want at once, with its size or with HAVE as was asked; nobody is left waiting for it,
  no retrieval is started, and the handler goes on with its next entry.\<close>

theorem raced_put_answers:
  assumes "reliable_block_store bs contents"
    and "ps_handlers s = hs @ h # hs'" and "hd_at h = AtAwait k en b" and "ms_holder (ps_sys s) = None"
    and "bs_put bs (inner (ms_mgr (ps_sys s))) blk = (None, st)" and "blk_cid blk = en_cid en"
  shows "\<exists>t d. provider_run bs pr s [ManagerEvent (Stored {en_cid en}), HandlerMoved True] t \<and> contents st (en_cid en) = Some d \<and>
     pushed (ms_world (ps_sys t)) = pushed (ms_world (ps_sys s)) @
       [(hd_sender h, if b then block_task (int (length d)) en else presence_task pr TopicHave en)] \<and>
     wait_list (ms_mgr (ps_sys t)) = wait_list (ms_mgr (ps_sys s)) \<and>
     spawned (ms_world (ps_sys t)) = spawned (ms_world (ps_sys s)) \<and> ps_handlers t = hs @ h\<lparr>hd_at := AtLoop\<rparr> # hs'"
proof -
  note store = reliable_block_store.axioms(1) [OF assms(1)]
  let ?sys = "(set_inner st (ps_sys s))\<lparr>ms_senders := ms_senders (ps_sys s) @ [(hd_ctx h, [ready_of blk])]\<rparr>"
  let ?s1 = "s\<lparr>ps_sys := ?sys\<rparr>"
  have 1: "provider_step bs pr s (ManagerEvent (Stored {en_cid en})) ?s1"
    using runs [OF mgr_step.put_store [OF assms(5), where x = "hd_ctx h"], of pr] assms(6) by simp
  obtain d where d: "contents st (en_cid en) = Some d"
    using block_store.put_dom [OF store assms(5)] assms(6) by auto
  then have size: "bs_get_size bs st (en_cid en) = Inr (int (length d))"
    using reliable_block_store.get_size_total [OF assms(1)] by blast
  let ?cb = "handler_cb h k en b"
  let ?w = "block_callback pr ?cb \<lparr>rb_cid = en_cid en, rb_size = int (length d)\<rparr> None (ms_world (ps_sys s))"
  let ?t = "?sys\<lparr>ms_mgr := ms_mgr ?sys, ms_world := ?w\<rparr>"
  have "await_block bs (provider_env pr) 0 (Derived (hd_ctx h) k) (en_cid en) ?cb (ms_mgr ?sys, ms_world ?sys) =
      (True, ms_mgr ?sys, ?w)"
    using size by (simp add: await_block_def)
  from awaits_found [OF assms(3) _ _ this] have "handler_step bs pr h ?sys True (h\<lparr>hd_at := AtLoop\<rparr>) ?t"
    using size assms(4) by simp
  with handles [of ?s1 hs h hs' bs pr True "h\<lparr>hd_at := AtLoop\<rparr>" ?t] assms(2)
  have "provider_step bs pr ?s1 (HandlerMoved True) (?s1\<lparr>ps_sys := ?t, ps_handlers := hs @ h\<lparr>hd_at := AtLoop\<rparr> # hs'\<rparr>)"
    by simp
  from goes_on [OF provider_run_one [OF 1] this] d show ?thesis
    by (intro exI [of _ "?s1\<lparr>ps_sys := ?t, ps_handlers := hs @ h\<lparr>hd_at := AtLoop\<rparr> # hs'\<rparr>"] exI [of _ d])
      (simp add: callback_task_def handler_cb_def)
qed

lemma raced_put_answers_witness:
  "\<exists>t. provider_run mem_blockstore demo_provider demo_asked [ManagerEvent (Stored {Cid ''c''}), HandlerMoved True] t \<and>
     pushed (ms_world (ps_sys t)) = [(''peer'', block_task 1 (demo_entry ''c'' WantBlock))]"
proof -
  let ?h = "\<lparr>hd_ctx = Root 0, hd_sender = ''peer'', hd_next = 1, hd_todo = [], hd_at = AtAwait 0 (demo_entry ''c'' WantBlock) True\<rparr>"
  have "ps_handlers demo_asked = [] @ ?h # []" "hd_at ?h = AtAwait 0 (demo_entry ''c'' WantBlock) True"
    "ms_holder (ps_sys demo_asked) = None"
    "bs_put mem_blockstore (inner (ms_mgr (ps_sys demo_asked))) \<lparr>blk_cid = Cid ''c'', raw_data = ''w''\<rparr> = (None, [(Cid ''c'', ''w'')])"
    by (simp_all add: demo_asked_def init_msys_def new_manager_def mem_put_def)
  from raced_put_answers [OF mem.reliable_block_store_axioms this] show ?thesis
    by (force simp: demo_entry_def demo_asked_def init_msys_def init_world_def)
qed

end
