(* ===== verification/Provider_Runs.thy ===== *)
theory Provider_Runs
  imports Message_Handlers
begin

text \<open>
  What every run of the provider keeps, how a want gets its answer, and three ways in which answers go
  missing or come twice.
\<close>

section \<open>Properties\<close>

text \<open>C4. Every answer was asked for, and the blacklist is respected. In every state that the provider
  reaches, whatever the interleaving of messages, puts, notifications, cleanups, retrievals and
  workers, each task ever pushed goes to a peer that sent an entry for that identifier that was not
  a cancel, with its priority; HAVE answers a HAVE want and BLOCK a BLOCK want, and neither is
  about a blacklisted identifier; no retrieval runs and nobody waits for a blacklisted identifier.\<close>

theorem answers_are_requested:
  assumes "provider_reach bs pr s"
  shows "(\<forall>x \<in> set (pushed (ms_world (ps_sys s))). justified pr (ps_asked s) x) \<and>
     (\<forall>rt \<in> set (spawned (ms_world (ps_sys s))). \<not> blacklisted pr (en_cid (rt_entry rt))) \<and>
     (\<forall>c. blacklisted pr c \<longrightarrow> slice_at (wait_list (ms_mgr (ps_sys s))) c = [])"
proof -
  have ok: "provider_ok pr s" using assms by (rule provider_reach_ok)
  have "slice_at (wait_list (ms_mgr (ps_sys s))) c = []" if "blacklisted pr c" for c
  proof -
    have "\<forall>e \<in> set (slice_at (wait_list (ms_mgr (ps_sys s))) c). cb_ok pr (ps_asked s) c (we_cb e)"
      using ok by (simp add: provider_ok_def waiters_ok_def)
    moreover have "cb_ok pr (ps_asked s) c cb \<Longrightarrow> False" for cb
      using that unfolding cb_ok_def active_want_def by blast
    ultimately show ?thesis by (cases "slice_at (wait_list (ms_mgr (ps_sys s))) c") auto
  qed
  with ok show ?thesis by (auto simp: provider_ok_def world_ok_def active_want_def)
qed

text \<open>The metrics and the channel agree with what happened: in every reachable state the topics
  of the response events recorded are, in order, those of the tasks pushed, so there are as many of either,
  and the \<open>workReady\<close> channel holds at most \<open>MaxBitswapWorkers\<close> tokens.\<close>

lemma responses_counted:
  assumes "provider_reach bs pr s"
  shows "responses (stats (ms_world (ps_sys s))) = task_tags (pushed (ms_world (ps_sys s))) \<and>
     length (responses (stats (ms_world (ps_sys s)))) = length (pushed (ms_world (ps_sys s))) \<and>
     work_ready (ms_world (ps_sys s)) \<le> max_workers pr"
  using provider_reach_ok [OF assms] by (simp add: provider_ok_def world_ok_def task_tags_def)

text \<open>A run in which one message asks for a blacklisted identifier and a stored block.\<close>

definition demo_reached :: "mem_store psys" where
  "demo_reached =
     (let m = \<lparr>inner = [(Cid ''a'', ''xyz'')], ready_blocks = [], wait_list = Map.empty, await_timeout = second\<rparr>;
          w1 = queue_dont_have demo_provider ''peer'' (demo_entry ''b'' WantHave) ''blacklisted_cid''
                 (record_stat BitswapRequestCount init_world);
          w2 = queue_block ''peer'' (demo_entry ''a'' WantBlock) 3
                 (record_stat BlockstoreCacheHitCount (record_stat BitswapRequestCount w1))
      in \<lparr>ps_sys = init_msys m (signal_work demo_provider w2), ps_handlers = [],
          ps_asked = [(''peer'', demo_entry ''b'' WantHave), (''peer'', demo_entry ''a'' WantBlock)]\<rparr>)"

lemma demo_reached_reach: "provider_reach mem_blockstore demo_provider demo_reached"
proof -
  let ?m = "\<lparr>inner = [(Cid ''a'', ''xyz'')], ready_blocks = [], wait_list = Map.empty, await_timeout = second\<rparr>"
  let ?s0 = "\<lparr>ps_sys = init_msys ?m init_world, ps_handlers = [], ps_asked = []\<rparr>"
  let ?wl = "[demo_entry ''b'' WantHave, demo_entry ''a'' WantBlock]"
  have "provider_reach mem_blockstore demo_provider ?s0"
    using starts [of mem_blockstore demo_provider "[(Cid ''a'', ''xyz'')]" second] by (simp add: new_manager_def)
  moreover have run: "receive_message mem_blockstore demo_provider 0 (\<lambda>i. None) (Root 0) ''peer'' ?wl
      (ms_mgr (ps_sys ?s0), ms_world (ps_sys ?s0)) = (ms_mgr (ps_sys demo_reached), ms_world (ps_sys demo_reached))"
    by (simp add: receive_message_def receive_entry_def entry_lookup_def demo_entry_def demo_provider_def blacklisted_def
        demo_reached_def init_msys_def Let_def)
  have "ms_holder (ps_sys ?s0) = None" by (simp add: init_msys_def)
  from message_runs [OF this run] obtain evs where
    "provider_run mem_blockstore demo_provider ?s0 (MessageArrived ''peer'' ?wl # evs @ [MessageHandled]) demo_reached"
    by (auto simp: demo_reached_def init_msys_def Let_def)
  ultimately show ?thesis using provider_reach_run by blast
qed

lemma answers_are_requested_witness:
  "pushed (ms_world (ps_sys demo_reached)) =
     [(''peer'', presence_task demo_provider TopicDontHave (demo_entry ''b'' WantHave)),
      (''peer'', block_task 3 (demo_entry ''a'' WantBlock))] \<and>
   justified demo_provider (ps_asked demo_reached) (''peer'', block_task 3 (demo_entry ''a'' WantBlock))"
proof -
  have p: "pushed (ms_world (ps_sys demo_reached)) =
     [(''peer'', presence_task demo_provider TopicDontHave (demo_entry ''b'' WantHave)),
      (''peer'', block_task 3 (demo_entry ''a'' WantBlock))]"
    by (simp add: demo_reached_def init_msys_def init_world_def Let_def)
  with answers_are_requested [OF demo_reached_reach] show ?thesis by simp
qed

section \<open>From a want to its answer\<close>

text \<open>Calling the waiters of a block pushes one task for each, in order, and cancels their contexts.\<close>

lemma fold_callbacks:
  "pushed (fold (\<lambda>e. block_callback pr (we_cb e) b r) es w) =
     pushed w @ map (\<lambda>e. (cb_sender (we_cb e), callback_task pr (we_cb e) b r)) es \<and>
   set (cancelled (fold (\<lambda>e. block_callback pr (we_cb e) b r) es w)) =
     set (cancelled w) \<union> (cb_block_ctx \<circ> we_cb) ` set es"
  by (induction es arbitrary: w) auto

text \<open>C3. A want for a missing block is answered when the block is put. Let a message ask for blocks
  over a reliable store; let then the manager's \<open>Put\<close> store a block whose identifier nobody waited for before
  the message, with room in the channel and a live context, and the notifier run. Then exactly the
  wants of the message that were waiting for that identifier are answered, in the order of the wantlist, a BLOCK
  want with BLOCK and the block's size and a HAVE want with HAVE; nobody waits for it any longer;
  and a worker that pops one of the BLOCK answers then fills in the block put, unless reading it fails.\<close>

theorem awaited_want_is_answered:
  assumes "reliable_block_store bs contents"
    and "receive_message bs pr now (\<lambda>i. None) ctx sender wl (m, w) = (m1, w1)"
    and "wait_list m (blk_cid b) = None" and "ready_blocks m = []" and "\<forall>i. snd (sel i) = None"
    and "bs_put bs (inner m) b = (None, st)" and "contents (inner m) (blk_cid b) = None"
  shows "\<exists>m2 m3 w3. manager_put bs sel b m1 = (Returned None, m2) \<and>
     poll_ready (provider_env pr) (m2, w1) = Some (m3, w3) \<and>
     pushed w3 = pushed w1 @ map (\<lambda>(i, en). (sender,
         if en_type en = WantBlock then block_task (int (length (raw_data b))) en
         else presence_task pr TopicHave en))
       (waiters_for (blk_cid b) (waits_of pr (contents (inner m)) 0 wl)) \<and>
     wait_list m3 (blk_cid b) = None \<and>
     (answer_task bs (inner m3) (TopicBlock (blk_cid b)) = AddBlock b \<or>
        (\<exists>e. bs_get bs (inner m3) (blk_cid b) = Inl e))"
proof -
  note store = reliable_block_store.axioms(1) [OF assms(1)]
  obtain m0 w0 where entries: "receive_entries bs pr now (\<lambda>i. None) ctx sender 0 wl (m, w) = (m0, w0)"
    by (cases "receive_entries bs pr now (\<lambda>i. None) ctx sender 0 wl (m, w)")
  with assms(2) have 1: "m1 = m0" by (simp add: receive_message_def)
  let ?ws = "waiters_for (blk_cid b) (waits_of pr (contents (inner m)) 0 wl)"
  from reliable_block_store.receive_entries_result [OF assms(1) entries] assms(3,4) 1
  have m1: "inner m1 = inner m" "ready_blocks m1 = []"
    "slice_at (wait_list m1) (blk_cid b) = map (waiter_of ctx sender now) ?ws"
    by simp_all
  let ?m2 = "m1\<lparr>inner := st, ready_blocks := [ready_of b]\<rparr>"
  have put: "manager_put bs sel b m1 = (Returned None, ?m2)"
    using send_all_room [of "m1\<lparr>inner := st\<rparr>" "[ready_of b]" sel 0] assms(5,6) m1(1,2)
    by (simp add: manager_put_def ready_cap_def)
  let ?m3 = "m1\<lparr>inner := st, ready_blocks := [], wait_list := (wait_list m1)(blk_cid b := None)\<rparr>"
  let ?w3 = "fold (\<lambda>e. block_callback pr (we_cb e) (ready_of b) None) (map (waiter_of ctx sender now) ?ws) w1"
  have poll: "poll_ready (provider_env pr) (?m2, w1) = Some (?m3, ?w3)"
    using m1(3) by (simp add: poll_ready_def notify_sel)
  have "bs_get bs st (blk_cid b) = Inr blk \<Longrightarrow> blk = b" for blk
    using block_reader.get_found [OF block_store.axioms(1) [OF store], of st "blk_cid b" blk]
      block_store.put_ok [OF store assms(6)] assms(7)
    by (auto simp: add_block_def domIff intro!: block.equality)
  then have "answer_task bs (inner ?m3) (TopicBlock (blk_cid b)) = AddBlock b \<or>
      (\<exists>e. bs_get bs (inner ?m3) (blk_cid b) = Inl e)"
    by (cases "bs_get bs st (blk_cid b)") (auto simp: answer_task_def)
  moreover have "pushed ?w3 = pushed w1 @ map (\<lambda>(i, en). (sender,
         if en_type en = WantBlock then block_task (int (length (raw_data b))) en
         else presence_task pr TopicHave en)) ?ws"
    using fold_callbacks [of pr "ready_of b" None "map (waiter_of ctx sender now) ?ws" w1]
    by (simp add: waiter_of_def callback_task_def ready_of_def split_beta)
  ultimately show ?thesis using put poll by (intro exI [of _ ?m2] exI [of _ ?m3] exI [of _ ?w3]) simp
qed

lemma awaited_want_is_answered_witness:
  "\<exists>m1 w1 m2 m3 w3.
     receive_message mem_blockstore demo_provider 7 (\<lambda>i. None) (Root 0) ''peer'' demo_wants demo_state = (m1, w1) \<and>
     manager_put mem_blockstore (\<lambda>i. (True, None)) \<lparr>blk_cid = Cid ''c'', raw_data = ''w''\<rparr> m1 = (Returned None, m2) \<and>
     poll_ready (provider_env demo_provider) (m2, w1) = Some (m3, w3) \<and>
     pushed w3 = pushed w1 @ [(''peer'', presence_task demo_provider TopicHave (demo_wants ! 2))]"
proof -
  let ?b = "\<lparr>blk_cid = Cid ''c'', raw_data = ''w''\<rparr>"
  obtain m1 w1 where run: "receive_message mem_blockstore demo_provider 7 (\<lambda>i. None) (Root 0) ''peer'' demo_wants
      (fst demo_state, snd demo_state) = (m1, w1)"
    by (cases "receive_message mem_blockstore demo_provider 7 (\<lambda>i. None) (Root 0) ''peer'' demo_wants demo_state") simp
  have h: "wait_list (fst demo_state) (blk_cid ?b) = None" "ready_blocks (fst demo_state) = []"
    "\<forall>i. snd ((\<lambda>i :: nat. (True, None :: go_error option)) i) = None"
    "bs_put mem_blockstore (inner (fst demo_state)) ?b = (None, [(Cid ''c'', ''w''), (Cid ''a'', ''xyz'')])"
    "map_of (inner (fst demo_state)) (blk_cid ?b) = None"
    by (simp_all add: demo_state_def mem_put_def)
  have "waiters_for (Cid ''c'') (waits_of demo_provider (map_of (inner (fst demo_state))) 0 demo_wants) =
      [(2, demo_wants ! 2)]" and "en_type (demo_wants ! 2) \<noteq> WantBlock"
    by (simp_all add: promised_wait_def blacklisted_def demo_provider_defs)
  with awaited_want_is_answered [OF mem.reliable_block_store_axioms run h] run show ?thesis by auto
qed

section \<open>Answers that go missing or come twice\<close>

text \<open>The situation after a message asked for one missing block: one waiter, its retrieval running.\<close>

definition one_waiting ::
  "provider \<Rightarrow> ctx \<Rightarrow> peer_id \<Rightarrow> go_time \<Rightarrow> nat \<Rightarrow> entry \<Rightarrow> ('s, await_cb, pworld) msys \<Rightarrow> bool" where
  "one_waiting pr ctx sender at k en s \<longleftrightarrow>
     wait_list (ms_mgr s) = [en_cid en \<mapsto> [waiter_of ctx sender at (k, en)]] \<and> ms_holder s = None \<and>
     retrieval_of ctx sender (k, en) \<in> set (spawned (ms_world s)) \<and> await_timeout (ms_mgr s) \<noteq> 0"

lemma one_waiting_init:
  assumes "reliable_block_store bs contents" and "timeout \<noteq> 0"
    and "promised_wait pr (contents st) en"
    and "receive_message bs pr now (\<lambda>i. None) ctx sender [en] (fst (new_manager st timeout), init_world) = (m', w')"
  shows "one_waiting pr ctx sender now 0 en (init_msys m' w')"
proof -
  obtain m1 w1 where one: "receive_entry bs pr now None ctx sender 0 en (fst (new_manager st timeout), init_world) = (m1, w1)"
    by (cases "receive_entry bs pr now None ctx sender 0 en (fst (new_manager st timeout), init_world)")
  have "promised_wait pr (contents (inner (fst (new_manager st timeout)))) en"
    using assms(3) by (simp add: new_manager_def)
  from reliable_block_store.receive_entry_waits [OF assms(1) one this] one assms(2,4) show ?thesis
    by (auto simp: receive_message_def one_waiting_def init_msys_def new_manager_def register_def)
qed

lemma cleanup_one:
  assumes "wait_list m = [c \<mapsto> [e]]"
  shows "cleanup_pass env now [c] (m, w) =
     (if ctx_err env w (we_ctx e) \<noteq> None \<or> await_timeout m < time_since now (we_at e)
      then (m\<lparr>wait_list := Map.empty\<rparr>,
        if ctx_err env w (we_ctx e) = None then invoke env (we_cb e) empty_ready (Some WaitTimeout) w else w)
      else (m, w))"
proof -
  have empty: "(wait_list m)(c := None) = Map.empty" using assms by auto
  have same: "m\<lparr>wait_list := (wait_list m)(c \<mapsto> [e])\<rparr> = m" using assms by (simp add: fun_upd_idem)
  show ?thesis
    using assms empty same
    by (simp add: cleanup_pass_def cleanup_cid_def cleanup_slice.simps swap_remove_def Let_def)
qed

text \<open>C20. A retrieved block is not delivered to the peer that asked for it. Let a want wait for a block, with its retrieval
  running. The retrieval stores the block through the provider's link system and returns successfully; then a
  cleanup tick comes, at whatever time. These are three steps of the provider, and after them the block is in the store,
  nothing was announced on the channel, the waiter is gone, and the peer has been sent nothing, neither a block nor a
  DONT_HAVE: the link system writes past the manager, and the goroutine ends the waiter's context, for which the tick then
  drops it silently.\<close>

theorem retrieved_block_not_delivered:
  assumes "block_store bs contents" and "one_waiting pr ctx sender at k en (ps_sys s)"
    and "link_system_put bs b (ms_mgr (ps_sys s)) = (None, m1)" and "blk_cid b = en_cid en"
    and "w2 = finish_retrieval pr (retrieval_of ctx sender (k, en)) None ((ms_world (ps_sys s))
       \<lparr>spawned := remove1 (retrieval_of ctx sender (k, en)) (spawned (ms_world (ps_sys s)))\<rparr>)"
    and "cleanup_pass (provider_env pr) now [en_cid en] (m1, w2) = (m3, w3)"
  shows "provider_run bs pr s [ManagerEvent (WrittenInside {en_cid en}), ManagerEvent Elsewhere, ManagerEvent Cleaned]
       (s\<lparr>ps_sys := (ps_sys s)\<lparr>ms_mgr := m3, ms_world := w3\<rparr>\<rparr>) \<and>
     contents (inner m3) (en_cid en) \<noteq> None \<and> ready_blocks m3 = ready_blocks (ms_mgr (ps_sys s)) \<and>
     wait_list m3 = Map.empty \<and> pushed w3 = pushed (ms_world (ps_sys s))"
proof -
  let ?rt = "retrieval_of ctx sender (k, en)" and ?s = "ps_sys s"
  note one = assms(2) [unfolded one_waiting_def]
  from link_system_put_sel [OF assms(3)] obtain st where put: "bs_put bs (inner (ms_mgr ?s)) b = (None, st)"
    and m1: "m1 = (ms_mgr ?s)\<lparr>inner := st\<rparr>" by blast
  have w: "pushed w2 = pushed (ms_world ?s)" "ctx_done (cancelled w2) (Derived ctx k)"
    by (simp_all add: assms(5) finish_retrieval_def retrieval_of_def cancel_ctx_def)
  have "cleanup_pass (provider_env pr) now [en_cid en] (m1, w2) = (m1\<lparr>wait_list := Map.empty\<rparr>, w2)"
    using cleanup_one [of m1 "en_cid en" "waiter_of ctx sender at (k, en)" "provider_env pr" now w2] one w(2) m1
    by (simp add: waiter_of_def)
  with assms(6) have end_state: "m3 = m1\<lparr>wait_list := Map.empty\<rparr>" "w3 = w2" by simp_all
  let ?s1 = "s\<lparr>ps_sys := ?s\<lparr>ms_mgr := m1\<rparr>\<rparr>"
  let ?s2 = "?s1\<lparr>ps_sys := (ps_sys ?s1)\<lparr>ms_world := w2\<rparr>\<rparr>"
  let ?s3 = "?s2\<lparr>ps_sys := (ps_sys ?s2)\<lparr>ms_mgr := m3, ms_world := w3\<rparr>\<rparr>"
  have "spawned (ms_world ?s) \<noteq> []" using one by auto
  from retrieves [OF this assms(3), of pr]
  have "provider_step bs pr s (ManagerEvent (WrittenInside {en_cid en})) ?s1" by (simp add: assms(4))
  moreover have "world_step pr (ms_world (ps_sys ?s1)) w2"
    using retrieval_ends [of ?rt "ms_world ?s" pr None] one by (simp add: assms(5))
  from runs [OF mgr_step.elsewhere [of "world_step pr" "ps_sys ?s1" w2 bs "provider_env pr", OF this]] have "provider_step bs pr ?s1 (ManagerEvent Elsewhere) ?s2" by simp
  moreover have "mgr_step bs (provider_env pr) (world_step pr) (ps_sys ?s2) Cleaned (ps_sys ?s3)"
    using mgr_step.cleanup [of "ps_sys ?s2" "[en_cid en]" "provider_env pr" now m3 w3 bs "world_step pr"] one assms(6) m1
    by simp
  from runs [OF this] have "provider_step bs pr ?s2 (ManagerEvent Cleaned) ?s3" by simp
  ultimately have "provider_run bs pr s ([ManagerEvent (WrittenInside {en_cid en})] @
      [ManagerEvent Elsewhere] @ [ManagerEvent Cleaned]) ?s3"
    by (blast intro: provider_run_trans provider_run_one)
  moreover have "?s3 = s\<lparr>ps_sys := ?s\<lparr>ms_mgr := m3, ms_world := w3\<rparr>\<rparr>" by (cases "ps_sys s") simp
  moreover have "contents (inner m3) (en_cid en) \<noteq> None"
    using block_store.put_dom [OF assms(1) put] by (auto simp: end_state m1 simp flip: assms(4))
  ultimately show ?thesis using w(1) by (simp add: end_state m1)
qed

definition demo_waiting_sys :: "(mem_store, await_cb, pworld) msys" where
  "demo_waiting_sys =
     (case receive_message mem_blockstore demo_provider 0 (\<lambda>i. None) (Root 0) ''peer'' [demo_entry ''c'' WantBlock]
        (fst (new_manager [] second), init_world) of (m, w) \<Rightarrow> init_msys m w)"

lemma demo_one_waiting:
  "one_waiting demo_provider (Root 0) ''peer'' 0 0 (demo_entry ''c'' WantBlock) demo_waiting_sys"
proof -
  obtain m w where run: "receive_message mem_blockstore demo_provider 0 (\<lambda>i. None) (Root 0) ''peer''
      [demo_entry ''c'' WantBlock] (fst (new_manager [] second), init_world) = (m, w)"
    by (cases "receive_message mem_blockstore demo_provider 0 (\<lambda>i. None) (Root 0) ''peer''
      [demo_entry ''c'' WantBlock] (fst (new_manager [] second), init_world)")
  have "promised_wait demo_provider (map_of []) (demo_entry ''c'' WantBlock)"
    by (simp add: promised_wait_def blacklisted_def demo_provider_def demo_entry_def)
  from one_waiting_init [OF mem.reliable_block_store_axioms _ this run] run show ?thesis
    by (simp add: demo_waiting_sys_def second_def)
qed

lemma demo_waiting_sel:
  "inner (ms_mgr demo_waiting_sys) = []" "await_timeout (ms_mgr demo_waiting_sys) = second"
  "pushed (ms_world demo_waiting_sys) = []" "cancelled (ms_world demo_waiting_sys) = []"
  by (simp_all add: demo_waiting_sys_def receive_message_def receive_entry_def entry_lookup_def try_retrieval_def retrieve_for_peer_def
      await_block_def new_manager_def init_msys_def init_world_def demo_provider_def demo_entry_def blacklisted_def
      signal_work_def record_stat_def register_def Let_def)

lemma retrieved_block_not_delivered_witness:
  "\<exists>evs t. provider_run mem_blockstore demo_provider \<lparr>ps_sys = demo_waiting_sys, ps_handlers = [], ps_asked = []\<rparr> evs t \<and>
     map_of (inner (ms_mgr (ps_sys t))) (Cid ''c'') \<noteq> None \<and> wait_list (ms_mgr (ps_sys t)) = Map.empty \<and>
     pushed (ms_world (ps_sys t)) = []"
proof -
  let ?s = "\<lparr>ps_sys = demo_waiting_sys, ps_handlers = [], ps_asked = []\<rparr> :: mem_store psys"
  let ?en = "demo_entry ''c'' WantBlock" and ?b = "\<lparr>blk_cid = Cid ''c'', raw_data = ''w''\<rparr>"
  obtain m1 where put: "link_system_put mem_blockstore ?b (ms_mgr (ps_sys ?s)) = (None, m1)" and c: "blk_cid ?b = en_cid ?en"
    by (simp add: link_system_put_def demo_waiting_sel mem_put_def demo_entry_def)
  let ?w2 = "finish_retrieval demo_provider (retrieval_of (Root 0) ''peer'' (0, ?en)) None ((ms_world (ps_sys ?s))
       \<lparr>spawned := remove1 (retrieval_of (Root 0) ''peer'' (0, ?en)) (spawned (ms_world (ps_sys ?s)))\<rparr>)"
  obtain m3 w3 where tick: "cleanup_pass (provider_env demo_provider) 5 [en_cid ?en] (m1, ?w2) = (m3, w3)" by (metis surj_pair)
  have "one_waiting demo_provider (Root 0) ''peer'' 0 0 ?en (ps_sys ?s)" using demo_one_waiting by simp
  from retrieved_block_not_delivered [OF mem.block_store_axioms this put c refl tick] show ?thesis
    by (intro exI [of _ "[ManagerEvent (WrittenInside {Cid ''c''}), ManagerEvent Elsewhere, ManagerEvent Cleaned]"]
        exI [of _ "?s\<lparr>ps_sys := (ps_sys ?s)\<lparr>ms_mgr := m3, ms_world := w3\<rparr>\<rparr>"]) (simp add: demo_waiting_sel demo_entry_def)
qed

text \<open>C39. A want can be answered DONT_HAVE twice. When a waiter has waited longer than the timeout, the
  cleanup tick answers its peer DONT_HAVE and cancels the waiter's own context, but not the
  retrieval, which runs under the context of the message; when the retrieval then fails, the
  goroutine answers DONT_HAVE for the same want again.\<close>

theorem timeout_then_failure_answers_twice:
  assumes "one_waiting pr ctx sender at k en s" and "\<not> ctx_done (cancelled (ms_world s)) (Derived ctx k)"
    and "await_timeout (ms_mgr s) < time_since now at" and "\<not> errors_is e RetrievalAlreadyRunning"
  shows "\<exists>t. mgr_run bs (provider_env pr) (world_step pr) s [Cleaned, Elsewhere] t \<and>
     pushed (ms_world t) = pushed (ms_world s) @
       [(sender, presence_task pr TopicDontHave en), (sender, presence_task pr TopicDontHave en)]"
proof -
  let ?rt = "retrieval_of ctx sender (k, en)" and ?e = "waiter_of ctx sender at (k, en)"
  note one = assms(1) [unfolded one_waiting_def]
  let ?w = "block_callback pr (we_cb ?e) empty_ready (Some WaitTimeout) (ms_world s)"
  let ?m = "(ms_mgr s)\<lparr>wait_list := Map.empty\<rparr>"
  let ?s1 = "s\<lparr>ms_mgr := ?m, ms_world := ?w\<rparr>"
  have "cleanup_pass (provider_env pr) now [en_cid en] (ms_mgr s, ms_world s) = (?m, ?w)"
    using cleanup_one [of "ms_mgr s" "en_cid en" ?e "provider_env pr" now "ms_world s"] one assms(2,3)
    by (simp add: waiter_of_def)
  then have 1: "mgr_step bs (provider_env pr) (world_step pr) s Cleaned ?s1"
    by (rule mgr_step.cleanup [rotated 4]) (use one in simp_all)
  let ?w2 = "finish_retrieval pr ?rt (Some e) (?w\<lparr>spawned := remove1 ?rt (spawned ?w)\<rparr>)"
  have "world_step pr (ms_world ?s1) ?w2" using retrieval_ends [of ?rt ?w pr "Some e"] one by simp
  then have "mgr_step bs (provider_env pr) (world_step pr) ?s1 Elsewhere (?s1\<lparr>ms_world := ?w2\<rparr>)"
    by (rule mgr_step.elsewhere)
  with 1 have "mgr_run bs (provider_env pr) (world_step pr) s ([Cleaned] @ [Elsewhere]) (?s1\<lparr>ms_world := ?w2\<rparr>)"
    by (blast intro: run_trans run_one)
  moreover have "pushed ?w2 = pushed (ms_world s) @
      [(sender, presence_task pr TopicDontHave en), (sender, presence_task pr TopicDontHave en)]"
    using assms(4) by (simp add: finish_retrieval_def retrieval_of_def waiter_of_def callback_task_def)
  ultimately show ?thesis by (intro exI [of _ "?s1\<lparr>ms_world := ?w2\<rparr>"]) simp
qed

lemma timeout_then_failure_answers_twice_witness:
  "\<exists>t. mgr_run mem_blockstore (provider_env demo_provider) (world_step demo_provider) demo_waiting_sys [Cleaned, Elsewhere] t \<and>
     length (pushed (ms_world t)) = 2"
proof -
  have "\<not> ctx_done (cancelled (ms_world demo_waiting_sys)) (Derived (Root 0) 0)"
    and "await_timeout (ms_mgr demo_waiting_sys) < time_since minute 0"
    and "\<not> errors_is (Msg ''failed'') RetrievalAlreadyRunning"
    by (simp_all add: demo_waiting_sel time_since_def duration_defs errors_is_def)
  from timeout_then_failure_answers_twice [OF demo_one_waiting this, of mem_blockstore] show ?thesis
    by (auto simp: demo_waiting_sel)
qed

text \<open>A lookup error in \<open>AwaitBlock\<close> does not stop the retrieval. When the HAVE lookup of a want says
  no, and the size lookup in \<open>AwaitBlock\<close> then fails with an error other than not-found, the callback
  answers DONT_HAVE and no waiter is registered; but \<open>AwaitBlock\<close> returns false, as for a
  registered waiter, so the provider starts a retrieval nobody waits for, and if it fails the peer
  is answered DONT_HAVE a second time.\<close>

lemma await_error_still_retrieves:
  assumes "bs_has bs (inner m) (en_cid en) = Inr False" and "bs_get_size bs (inner m) (en_cid en) = Inl e"
    and "\<not> is_not_found e" and "en_type en = WantHave" and "\<not> en_cancel en" and "\<not> blacklisted pr (en_cid en)"
    and "has_retriever pr" and "receive_entry bs pr now None ctx sender k en (m, w) = (m', w')"
  shows "m' = m \<and> spawned w' = spawned w @ [retrieval_of ctx sender (k, en)] \<and>
     pushed w' = pushed w @ [(sender, presence_task pr TopicDontHave en)] \<and>
     pushed (finish_retrieval pr (retrieval_of ctx sender (k, en)) (Some NoCandidates) w') =
       pushed w @ [(sender, presence_task pr TopicDontHave en), (sender, presence_task pr TopicDontHave en)]"
proof -
  from assms have "m' = m" and w': "spawned w' = spawned w @ [retrieval_of ctx sender (k, en)]"
    "pushed w' = pushed w @ [(sender, presence_task pr TopicDontHave en)]"
    by (auto simp: receive_entry_def entry_lookup_def try_retrieval_def retrieve_for_peer_def await_block_def Let_def
        callback_task_def retrieval_of_def)
  then show ?thesis by (simp add: finish_retrieval_def retrieval_of_def errors_is_def)
qed

definition broken_sizes :: "mem_store blockstore" where
  "broken_sizes = mem_blockstore\<lparr>bs_get_size := (\<lambda>s c. Inl (Msg ''input/output error''))\<rparr>"

end
