(* ===== verification/Running_App.thy ===== *)
theory Running_App
  imports Application Provider_Runs
begin

text \<open>
  The program after \<open>New\<close> (src/autoretrieve.go): the provider and the block manager over the blockstore that was
  opened, the plain one or the pruner around it, with the pruner's ticker and prune goroutines at work.
  A state is reached from a successful start by the steps of the provider and of the pruner in any order.
\<close>

section \<open>The blockstore that was opened\<close>

text \<open>The variable \<open>blockstore\<close> of \<open>New\<close> has an interface type: a call goes to the plain store or to the pruner.\<close>

definition app_blockstore :: "'s blockstore \<Rightarrow> 's disk_usage \<Rightarrow> go_time \<Rightarrow> 's app_store blockstore" where
  "app_blockstore bs du now =
     (let pb = pruner_blockstore bs du now in
      \<lparr>bs_has = (\<lambda>s c. case s of Unpruned st \<Rightarrow> bs_has bs st c | Pruned p \<Rightarrow> bs_has pb p c),
       bs_get = (\<lambda>s c. case s of Unpruned st \<Rightarrow> bs_get bs st c | Pruned p \<Rightarrow> bs_get pb p c),
       bs_get_size = (\<lambda>s c. case s of Unpruned st \<Rightarrow> bs_get_size bs st c | Pruned p \<Rightarrow> bs_get_size pb p c),
       bs_put = (\<lambda>s b. case s of Unpruned st \<Rightarrow> apsnd Unpruned (bs_put bs st b) | Pruned p \<Rightarrow> apsnd Pruned (bs_put pb p b)),
       bs_put_many = (\<lambda>s blks. case s of
          Unpruned st \<Rightarrow> apsnd Unpruned (bs_put_many bs st blks) | Pruned p \<Rightarrow> apsnd Pruned (bs_put_many pb p blks)),
       bs_delete = (\<lambda>s c. case s of
          Unpruned st \<Rightarrow> apsnd Unpruned (bs_delete bs st c) | Pruned p \<Rightarrow> apsnd Pruned (bs_delete pb p c)),
       bs_all_keys = (\<lambda>s. case s of Unpruned st \<Rightarrow> bs_all_keys bs st | Pruned p \<Rightarrow> bs_all_keys pb p)\<rparr>)"

definition app_contents :: "('s \<Rightarrow> store_contents) \<Rightarrow> 's app_store \<Rightarrow> store_contents" where
  "app_contents contents s = (case s of Unpruned st \<Rightarrow> contents st | Pruned p \<Rightarrow> contents (pstore p))"

lemma app_contents_simps [simp]:
  "app_contents contents (Unpruned st) = contents st" "app_contents contents (Pruned p) = contents (pstore p)"
  by (simp_all add: app_contents_def)

lemma app_blockstore_simps [simp]:
  "bs_has (app_blockstore bs du now) (Unpruned st) c = bs_has bs st c"
  "bs_has (app_blockstore bs du now) (Pruned p) c = bs_has (pruner_blockstore bs du now) p c"
  "bs_get (app_blockstore bs du now) (Unpruned st) c = bs_get bs st c"
  "bs_get (app_blockstore bs du now) (Pruned p) c = bs_get (pruner_blockstore bs du now) p c"
  "bs_get_size (app_blockstore bs du now) (Unpruned st) c = bs_get_size bs st c"
  "bs_get_size (app_blockstore bs du now) (Pruned p) c = bs_get_size (pruner_blockstore bs du now) p c"
  "bs_put (app_blockstore bs du now) (Unpruned st) b = apsnd Unpruned (bs_put bs st b)"
  "bs_put (app_blockstore bs du now) (Pruned p) b = apsnd Pruned (bs_put (pruner_blockstore bs du now) p b)"
  "bs_put_many (app_blockstore bs du now) (Unpruned st) blks = apsnd Unpruned (bs_put_many bs st blks)"
  "bs_put_many (app_blockstore bs du now) (Pruned p) blks = apsnd Pruned (bs_put_many (pruner_blockstore bs du now) p blks)"
  "bs_delete (app_blockstore bs du now) (Unpruned st) c = apsnd Unpruned (bs_delete bs st c)"
  "bs_delete (app_blockstore bs du now) (Pruned p) c = apsnd Pruned (bs_delete (pruner_blockstore bs du now) p c)"
  "bs_all_keys (app_blockstore bs du now) (Unpruned st) = bs_all_keys bs st"
  "bs_all_keys (app_blockstore bs du now) (Pruned p) = bs_all_keys (pruner_blockstore bs du now) p"
  by (simp_all add: app_blockstore_def Let_def)

lemma apsnd_eq_Pair: "apsnd f x = (r, y) \<longleftrightarrow> (\<exists>z. x = (r, z) \<and> y = f z)"
  by (cases x) auto

text \<open>The contract of the store behind it is the contract of either, so it is the contract of both.\<close>

sublocale pruned_store \<subseteq> app: block_store "app_blockstore bs du now" "app_contents contents"
proof (unfold_locales, goal_cases)
  case (1 s c n)
  then show ?case by (cases s) (simp_all add: get_size_found wrapper.get_size_found)
next
  case (2 s c e)
  then show ?case
    by (cases s) (simp_all add: get_size_missing wrapper.get_size_missing)
next
  case (3 s c r)
  then show ?case using has_found wrapper.has_found by (cases s) auto
next
  case (4 s c b)
  then show ?case using get_found wrapper.get_found by (cases s) auto
next
  case (5 s)
  show ?case using finite_contents wrapper.finite_contents by (cases s) auto
next
  case (6 s b s')
  then show ?case using put_ok wrapper.put_ok by (cases s) (auto simp: apsnd_eq_Pair)
next
  case (7 s b e s')
  then show ?case using put_failed wrapper.put_failed by (cases s) (auto simp: apsnd_eq_Pair)
next
  case (8 s blks s')
  then show ?case using put_many_ok wrapper.put_many_ok by (cases s) (auto simp: apsnd_eq_Pair)
next
  case (9 s blks e s')
  then show ?case using put_many_failed wrapper.put_many_failed by (cases s) (auto simp: apsnd_eq_Pair)
next
  case (10 s c s')
  then show ?case using delete_ok wrapper.delete_ok by (cases s) (auto simp: apsnd_eq_Pair)
next
  case (11 s c e s')
  then show ?case using delete_failed wrapper.delete_failed by (cases s) (auto simp: apsnd_eq_Pair)
next
  case (12 s cs)
  then show ?case using all_keys wrapper.all_keys by (cases s) auto
qed


section \<open>The running program\<close>

record 's running =
  rn_provider :: provider
  rn_ps :: "'s app_store psys"
  rn_jobs :: nat  \<comment> \<open>the prune goroutines that run\<close>

definition ps_store :: "'s psys \<Rightarrow> 's" where
  "ps_store ps = inner (ms_mgr (ps_sys ps))"

abbreviation rn_store :: "'s running \<Rightarrow> 's app_store" where
  "rn_store s \<equiv> ps_store (rn_ps s)"

definition set_store :: "'s \<Rightarrow> 's psys \<Rightarrow> 's psys" where
  "set_store st ps = ps\<lparr>ps_sys := set_inner st (ps_sys ps)\<rparr>"

definition pruning :: "'s app_store \<Rightarrow> bool" where
  "pruning s = (case s of Unpruned st \<Rightarrow> False | Pruned p \<Rightarrow> prune_lk p)"

text \<open>A put through the pruner may start a prune goroutine, which then holds \<open>pruneLk\<close>.\<close>

datatype revent = Served pevent | PrunerWorked

inductive running_step :: "'s blockstore \<Rightarrow> 's disk_usage \<Rightarrow> 's running \<Rightarrow> revent \<Rightarrow> 's running \<Rightarrow> bool"
  for bs :: "'s blockstore" and du :: "'s disk_usage" where
  serves: "provider_step (app_blockstore bs du now) (rn_provider s) (rn_ps s) ev t \<Longrightarrow>
     running_step bs du s (Served ev) (s\<lparr>rn_ps := t,
       rn_jobs := started_job (pruning (ps_store t) \<and> \<not> pruning (rn_store s)) (rn_jobs s)\<rparr>)"
| prunes: "rn_store s = Pruned p \<Longrightarrow> prune_work bs du \<lparr>pr = p, jobs = rn_jobs s\<rparr> t \<Longrightarrow>
     running_step bs du s PrunerWorked (s\<lparr>rn_ps := set_store (Pruned (pr t)) (rn_ps s), rn_jobs := jobs t\<rparr>)"

definition started_app :: "('h, 's, 'r) app \<Rightarrow> opened list \<Rightarrow> 's running" where
  "started_app app ops =
     \<lparr>rn_provider = ap_provider app,
      rn_ps = \<lparr>ps_sys = init_msys (ap_manager app) (ap_world app), ps_handlers = [], ps_asked = []\<rparr>,
      rn_jobs = prune_runs ops\<rparr>"

inductive running_reach ::
  "('k, 'h, 's, 'ma, 'r) app_env \<Rightarrow> 's blockstore \<Rightarrow> config \<Rightarrow> revent list \<Rightarrow> 's running \<Rightarrow> bool"
  for ae :: "('k, 'h, 's, 'ma, 'r) app_env" and bs :: "'s blockstore" and cfg :: config where
  app_starts: "new_autoretrieve ae cl dir cfg (fs, []) = (Returns (Inr app), fs', ops) \<Longrightarrow>
     running_reach ae bs cfg [] (started_app app ops)"
| app_goes_on: "running_reach ae bs cfg evs s \<Longrightarrow> running_step bs (ae_disk_usage ae) s ev t \<Longrightarrow>
     running_reach ae bs cfg (evs @ [ev]) t"

section \<open>What every step keeps\<close>

text \<open>How one operation changes the store that was opened: the plain store stays one, and the pruner makes
  one of its own steps.\<close>

definition store_evolves :: "'s blockstore \<Rightarrow> 's disk_usage \<Rightarrow> 's app_store \<Rightarrow> 's app_store \<Rightarrow> bool" where
  "store_evolves bs du a b \<longleftrightarrow>
     (case a of
        Unpruned st \<Rightarrow> \<exists>st'. b = Unpruned st'
      | Pruned p \<Rightarrow> \<exists>p'. b = Pruned p' \<and> (p' = p \<or> (\<forall>n. pruner_step bs du \<lparr>pr = p, jobs = n\<rparr>
          \<lparr>pr = p', jobs = started_job (prune_lk p' \<and> \<not> prune_lk p) n\<rparr>)))"

lemma app_store_ops: "store_ops_in (app_blockstore bs du now) (store_evolves bs du)"
  unfolding store_ops_in_def
proof (intro conjI allI impI)
  fix a show "store_evolves bs du a a" by (cases a) (simp_all add: store_evolves_def)
next
  fix a b r a' assume "bs_put (app_blockstore bs du now) a b = (r, a')"
  then show "store_evolves bs du a a'"
    by (cases a) (auto simp: store_evolves_def apsnd_eq_Pair pruner_blockstore_def pruner_ops_are_steps(1) split: prod.splits)
next
  fix a blks r a' assume "bs_put_many (app_blockstore bs du now) a blks = (r, a')"
  then show "store_evolves bs du a a'"
    by (cases a) (auto simp: store_evolves_def apsnd_eq_Pair pruner_blockstore_def pruner_ops_are_steps(2) split: prod.splits)
next
  fix a c r a' assume "bs_delete (app_blockstore bs du now) a c = (r, a')"
  then show "store_evolves bs du a a'"
    by (cases a) (auto simp: store_evolves_def apsnd_eq_Pair pruner_blockstore_def pruner_ops_are_steps(3))
qed

lemma serves_store:
  assumes "provider_step (app_blockstore bs du now) pv ps ev ps'"
  shows "store_evolves bs du (ps_store ps) (ps_store ps')"
    and "await_timeout (ms_mgr (ps_sys ps')) = await_timeout (ms_mgr (ps_sys ps))"
  using provider_step_store [OF assms app_store_ops] by (simp_all add: ps_store_def)

lemma set_store_sel [simp]:
  "ps_store (set_store st ps) = st" "ps_handlers (set_store st ps) = ps_handlers ps" "ps_asked (set_store st ps) = ps_asked ps"
  "await_timeout (ms_mgr (ps_sys (set_store st ps))) = await_timeout (ms_mgr (ps_sys ps))"
  "wait_list (ms_mgr (ps_sys (set_store st ps))) = wait_list (ms_mgr (ps_sys ps))"
  "ms_world (ps_sys (set_store st ps)) = ms_world (ps_sys ps)" "ms_holder (ps_sys (set_store st ps)) = ms_holder (ps_sys ps)"
  by (simp_all add: set_store_def ps_store_def)

lemma set_store_keeps [simp]:
  "provider_ok pv (set_store st ps) = provider_ok pv ps" "idle (set_store st ps) = idle ps"
  by (simp_all add: provider_ok_def idle_def waiters_ok_def)

text \<open>A pruner that is one of the opened ones is reached by its own steps, and keeps its settings.\<close>

definition store_reached :: "'s blockstore \<Rightarrow> 's disk_usage \<Rightarrow> config \<Rightarrow> 's app_store \<Rightarrow> nat \<Rightarrow> bool" where
  "store_reached bs du cfg store n \<longleftrightarrow> configured_store cfg store \<and>
     (case store of Unpruned st \<Rightarrow> n = 0 | Pruned p \<Rightarrow> pruner_reach bs du \<lparr>pr = p, jobs = n\<rparr>)"

lemma opened_reached: "opened_store ae cfg store n \<Longrightarrow> store_reached bs (ae_disk_usage ae) cfg store n"
  using opened_configured [of ae cfg store n]
  by (auto simp: store_reached_def opened_store_def intro: pruner_reach.reach_new split: app_store.splits)

lemma pruner_step_settings: "pruner_step bs du s t \<Longrightarrow> same_settings (pr s) (pr t)"
proof (induction rule: pruner_step.induct)
  case (step_work s t)
  then show ?case
  proof (induction rule: prune_work.induct)
    case (step_poll now s p' st)
    then show ?case using poll_lock [OF step_poll(1)] by simp
  next
    case (step_list s pe k cs doc n r p')
    then show ?case using write_candidates_lock [OF step_list(2)] by simp
  next
    case (step_iter s pe doc n k pruned nf b nf' p')
    then show ?case using prune_iter_lock(1) [OF step_iter(2)] by simp
  next
    case (step_stop s pe doc n k pruned nf r b p')
    then show ?case using prune_iter_lock(2) [OF step_stop(2)] by (simp add: same_settings_def)
  qed (simp add: same_settings_def)
next
  case (step_put now b s r p' st)
  then show ?case using pruner_put_lock [OF step_put(1)] by simp
next
  case (step_put_many now blks s r p' st)
  then show ?case using pruner_put_many_lock [OF step_put_many(1)] by simp
next
  case (step_delete c s r p')
  then show ?case using pruner_delete_lock [OF step_delete(1)] by simp
qed

lemma configured_settings:
  "same_settings p p' \<Longrightarrow> configured_store cfg (Pruned p) \<Longrightarrow> configured_store cfg (Pruned p')"
  by (simp add: configured_store_def same_settings_def)

lemma store_reached_step:
  assumes "pruner_step bs du \<lparr>pr = p, jobs = n\<rparr> t" and "store_reached bs du cfg (Pruned p) n"
  shows "store_reached bs du cfg (Pruned (pr t)) (jobs t)"
  using assms pruner_step_settings [OF assms(1)] configured_settings [of p "pr t"] pruner_reach.reach_step [OF _ assms(1)]
  by (cases t) (simp add: store_reached_def)

lemma store_reached_evolves:
  assumes "store_evolves bs du a b" and "store_reached bs du cfg a n"
  shows "store_reached bs du cfg b (started_job (pruning b \<and> \<not> pruning a) n)"
proof (cases a)
  case (Unpruned st)
  with assms show ?thesis
    by (auto simp: store_evolves_def store_reached_def configured_store_def pruning_def started_job_def)
next
  case (Pruned p)
  with assms(1) obtain p' where b: "b = Pruned p'" and "p' = p \<or> pruner_step bs du \<lparr>pr = p, jobs = n\<rparr>
      \<lparr>pr = p', jobs = started_job (prune_lk p' \<and> \<not> prune_lk p) n\<rparr>"
    by (auto simp: store_evolves_def)
  then show ?thesis
  proof (elim disjE)
    assume "p' = p"
    with assms(2) Pruned b show ?thesis by (simp add: pruning_def started_job_def)
  next
    assume step: "pruner_step bs du \<lparr>pr = p, jobs = n\<rparr> \<lparr>pr = p', jobs = started_job (prune_lk p' \<and> \<not> prune_lk p) n\<rparr>"
    with store_reached_step [OF step] assms(2) Pruned b show ?thesis by (simp add: pruning_def)
  qed
qed

definition running_ok ::
  "('k, 'h, 's, 'ma, 'r) app_env \<Rightarrow> 's blockstore \<Rightarrow> config \<Rightarrow> 's running \<Rightarrow> bool" where
  "running_ok ae bs cfg s \<longleftrightarrow>
     rn_provider s = extract_provider cfg (\<not> disable_retrieval cfg) (ae_presence_size ae) \<and>
     provider_ok (rn_provider s) (rn_ps s) \<and> (disable_retrieval cfg \<longrightarrow> idle (rn_ps s)) \<and>
     store_reached bs (ae_disk_usage ae) cfg (rn_store s) (rn_jobs s) \<and>
     await_timeout (ms_mgr (ps_sys (rn_ps s))) = 10 * minute"

lemma running_step_ok: "running_step bs (ae_disk_usage ae) s ev t \<Longrightarrow> running_ok ae bs cfg s \<Longrightarrow> running_ok ae bs cfg t"
proof (induction rule: running_step.induct)
  case (serves now s ev t)
  have "provider_ok (rn_provider s) t"
    using provider_step_ok [OF serves(1)] serves(2) unfolding running_ok_def by blast
  moreover have "disable_retrieval cfg \<longrightarrow> idle t"
    using provider_step_idle [OF serves(1)] serves(2) by (simp add: running_ok_def extract_provider_def)
  moreover note serves_store [OF serves(1)]
  ultimately show ?case
    using serves(2) store_reached_evolves [OF serves_store(1) [OF serves(1)], of cfg "rn_jobs s"]
    by (simp add: running_ok_def)
next
  case (prunes s p t)
  then have "store_reached bs (ae_disk_usage ae) cfg (Pruned (pr t)) (jobs t)"
    using store_reached_step [OF step_work [OF prunes(2)], of cfg] by (simp add: running_ok_def)
  with prunes(3) show ?case unfolding running_ok_def by auto
qed

lemma started_app_ok:
  assumes "new_autoretrieve ae cl dir cfg (fs, []) = (Returns (Inr app), fs', ops)"
  shows "running_ok ae bs cfg (started_app app ops)"
proof -
  from assms obtain host gw mgr fs1 ops1 where
    "start_services ae cl cfg host gw mgr (fs1, ops1) = (Returns (Inr app), fs', ops)"
    by (auto simp: new_autoretrieve_def boot_ok split: if_splits)
  from start_services_ok [OF this]
  have prov: "ap_provider app = extract_provider cfg (\<not> disable_retrieval cfg) (ae_presence_size ae)" by simp
  from started_store [OF assms] obtain store where store: "ap_manager app = fst (new_manager store (10 * minute))"
    "opened_store ae cfg store (prune_runs ops)" "ap_world app = init_world" by blast
  have "provider_ok pv \<lparr>ps_sys = init_msys (ap_manager app) (ap_world app), ps_handlers = [], ps_asked = []\<rparr>"
    "idle \<lparr>ps_sys = init_msys (ap_manager app) (ap_world app), ps_handlers = [], ps_asked = []\<rparr>" for pv
    using provider_reach_ok [OF provider_reach.starts [of "app_blockstore bs (ae_disk_usage ae) 0" pv store "10 * minute"]]
    by (simp_all add: store idle_def waiters_ok_def init_msys_def new_manager_def init_world_def)
  with prov store opened_reached [OF store(2), of bs] show ?thesis
    by (simp add: running_ok_def started_app_def ps_store_def init_msys_def new_manager_def)
qed

lemma running_reach_ok: "running_reach ae bs cfg evs s \<Longrightarrow> running_ok ae bs cfg s"
  by (induction rule: running_reach.induct) (auto intro: started_app_ok running_step_ok)


lemma idle_unwaited: "idle ps \<Longrightarrow> slice_at (wait_list (ms_mgr (ps_sys ps))) c = []"
  by (cases "slice_at (wait_list (ms_mgr (ps_sys ps))) c") (auto simp: idle_def waiters_ok_def)

lemma provider_ok_blacklist:
  assumes "provider_ok pv ps" and "blacklisted pv c"
  shows "(p, t) \<in> set (pushed (ms_world (ps_sys ps))) \<Longrightarrow> topic_cid (tk_topic t) = c \<Longrightarrow> tk_topic t = TopicDontHave c"
    and "rt \<in> set (spawned (ms_world (ps_sys ps))) \<Longrightarrow> en_cid (rt_entry rt) \<noteq> c"
    and "slice_at (wait_list (ms_mgr (ps_sys ps))) c = []"
proof -
  assume "(p, t) \<in> set (pushed (ms_world (ps_sys ps)))" and "topic_cid (tk_topic t) = c"
  with assms show "tk_topic t = TopicDontHave c"
    by (cases "tk_topic t") (auto simp: provider_ok_def world_ok_def justified_def)
next
  assume "rt \<in> set (spawned (ms_world (ps_sys ps)))"
  with assms show "en_cid (rt_entry rt) \<noteq> c" by (auto simp: provider_ok_def world_ok_def active_want_def)
next
  have "cb_ok pv (ps_asked ps) c cb \<Longrightarrow> False" for cb
    using assms(2) unfolding cb_ok_def active_want_def by blast
  moreover have "\<forall>e \<in> set (slice_at (wait_list (ms_mgr (ps_sys ps))) c). cb_ok pv (ps_asked ps) c (we_cb e)"
    using assms(1) by (simp add: provider_ok_def waiters_ok_def)
  ultimately show "slice_at (wait_list (ms_mgr (ps_sys ps))) c = []"
    by (cases "slice_at (wait_list (ms_mgr (ps_sys ps))) c") auto
qed

lemma configured_blacklist: "blacklisted (extract_provider cfg r n) c \<longleftrightarrow> c \<in> set (cfg_cid_blacklist cfg)"
  by (simp add: blacklisted_def extract_provider_def cid_list_to_map_def cid_list_to_map_at)

context pruned_store
begin

lemma app_contract: "block_store (app_blockstore bs du now) (app_contents contents)"
  by (rule app.block_store_axioms)

end

text \<open>What an event of the program brings into the store past the manager.\<close>

fun past :: "revent \<Rightarrow> cid set" where
  "past (Served ev) = past_manager ev"
| "past PrunerWorked = {}"

lemma running_step_stranded:
  assumes "block_store bs contents" and "running_step bs du s ev t" and "ev \<noteq> Served (ManagerEvent PutManyFailed)"
  shows "stranded (app_contents contents) (ps_sys (rn_ps t)) \<subseteq>
     stranded (app_contents contents) (ps_sys (rn_ps s)) \<union> past ev"
  using assms(2-)
proof (induction rule: running_step.induct)
  case (serves at s ev t)
  have "block_store (app_blockstore bs du at) (app_contents contents)"
    using assms(1) by (intro pruned_store.app_contract pruned_store.intro)
  from block_store.provider_step_stranded [OF this serves(1)] serves(2) show ?case by simp
next
  case (prunes s p t)
  let ?old = "ps_sys (rn_ps s)" and ?new = "ps_sys (set_store (Pruned (pr t)) (rn_ps s))"
  have "dom (contents (pstore (pr t))) \<subseteq> dom (contents (pstore p))"
    using block_store.prune_work_shrinks [OF assms(1) prunes(2)] map_le_implies_dom_le by fastforce
  then have "stored (app_contents contents) ?new \<subseteq> stored (app_contents contents) ?old"
    using prunes(1) by (simp add: stored_def ps_store_def set_store_def)
  moreover have "awaited ?new = awaited ?old" "announced ?new = announced ?old"
    by (simp_all add: awaited_def announced_def set_store_def)
  ultimately show ?case unfolding stranded_def by auto
qed

lemma running_reach_stranded:
  assumes "block_store bs contents" and "running_reach ae bs cfg evs s"
    and "Served (ManagerEvent PutManyFailed) \<notin> set evs"
  shows "stranded (app_contents contents) (ps_sys (rn_ps s)) \<subseteq> \<Union> (past ` set evs)"
  using assms(2,3)
proof (induction rule: running_reach.induct)
  case (app_starts cl dir fs app fs' ops)
  from started_store [OF this(1)] show ?case by (auto simp: started_app_def)
next
  case (app_goes_on evs s ev t)
  then show ?case using running_step_stranded [OF assms(1) app_goes_on(2)] by auto
qed

lemma running_step_unused:
  assumes "running_step bs du s ev t" and "unused_channel (ps_sys (rn_ps s))" and "\<forall>cs. ev \<noteq> Served (ManagerEvent (Stored cs))"
  shows "unused_channel (ps_sys (rn_ps t)) \<and> (\<forall>b. ev \<noteq> Served (ManagerEvent (Notified b)))"
  using assms
proof (induction rule: running_step.induct)
  case (serves at s ev t)
  then show ?case using provider_step_unused [OF serves(1)] by simp
next
  case (prunes s p t)
  then show ?case by (simp add: unused_channel_def set_store_def)
qed

lemma running_reach_unused:
  assumes "running_reach ae bs cfg evs s" and "\<forall>cs. Served (ManagerEvent (Stored cs)) \<notin> set evs"
  shows "unused_channel (ps_sys (rn_ps s)) \<and> (\<forall>b. Served (ManagerEvent (Notified b)) \<notin> set evs)"
  using assms
proof (induction rule: running_reach.induct)
  case (app_starts cl dir fs app fs' ops)
  from started_store [OF this(1)] show ?case
    by (auto simp: started_app_def unused_channel_def init_msys_def new_manager_def)
next
  case (app_goes_on evs s ev t)
  then show ?case using running_step_unused [OF app_goes_on(2)] by auto
qed

text \<open>Concrete runs: with a threshold the start leaves a prune goroutine running; without one, a peer asks for a
  missing block, which is then put.\<close>

definition demo_running :: "u64 \<Rightarrow> nat \<Rightarrow> mem_store running" where
  "demo_running n k =
     \<lparr>rn_provider = extract_provider (demo_threshold n) True (\<lambda>c. 4),
      rn_ps = \<lparr>ps_sys = init_msys (fst (new_manager (demo_store n) (10 * minute))) init_world, ps_handlers = [], ps_asked = []\<rparr>,
      rn_jobs = k\<rparr>"

lemma demo_running_reach:
  assumes "n = 0 \<or> n = 5"
  shows "\<exists>k. running_reach demo_app mem_blockstore (demo_threshold n) [] (demo_running n k)"
proof -
  obtain app ops where run: "new_autoretrieve demo_app register_cli ''/data'' (demo_threshold n)
      ([(True, []) \<mapsto> Directory 0x1ED], []) = (Returns (Inr app), started_fs, ops)"
    "ap_manager app = fst (new_manager (demo_store n) (10 * minute))"
    using demo_starts [OF assms] by blast
  have reach: "running_reach demo_app mem_blockstore (demo_threshold n) [] (started_app app ops)"
    by (rule app_starts [OF run(1)])
  have "\<not> disable_retrieval (demo_threshold n)" by (simp add: demo_threshold_def default_config_def)
  then have "ap_provider app = extract_provider (demo_threshold n) True (\<lambda>c. 4)"
    using running_reach_ok [OF reach] by (simp add: running_ok_def started_app_def demo_app_def)
  moreover have "ap_world app = init_world" using started_store [OF run(1)] by blast
  ultimately have "started_app app ops = demo_running n (prune_runs ops)"
    using run(2) by (simp add: started_app_def demo_running_def)
  with reach show ?thesis by auto
qed

lemma demo_running_sel [simp]:
  "rn_store (demo_running n k) = demo_store n" "rn_jobs (demo_running n k) = k"
  by (simp_all add: demo_running_def ps_store_def init_msys_def new_manager_def)

text \<open>A run of the provider is a run of the program.\<close>

lemma serves_run:
  assumes "provider_run (app_blockstore bs (ae_disk_usage ae) now) pv ps pevs t"
    and "running_reach ae bs cfg evs s" and "rn_provider s = pv" and "rn_ps s = ps"
  shows "\<exists>u. running_reach ae bs cfg (evs @ map Served pevs) u \<and> rn_provider u = pv \<and> rn_ps u = t"
  using assms
proof (induction rule: provider_run.induct)
  case (stays ps)
  then show ?case by (intro exI [of _ s]) simp
next
  case (goes_on ps pevs t ev v)
  then obtain u where u: "running_reach ae bs cfg (evs @ map Served pevs) u" "rn_provider u = pv" "rn_ps u = t" by blast
  with goes_on(2) have "provider_step (app_blockstore bs (ae_disk_usage ae) now) (rn_provider u) (rn_ps u) ev v" by simp
  from serves [OF this] obtain u' where u': "running_step bs (ae_disk_usage ae) u (Served ev) u'" "rn_ps u' = v"
    "rn_provider u' = rn_provider u" by fastforce
  from app_goes_on [OF u(1) u'(1)] u(2) u'(2,3) show ?case by (intro exI [of _ u']) simp
qed

definition demo_message :: pevent where
  "demo_message = MessageArrived ''peer'' [demo_entry ''c'' WantBlock]"

lemma demo_unpruned_run:
  "\<exists>evs s. running_reach demo_app mem_blockstore (demo_threshold 0)
       (map Served (demo_message # evs @ [MessageHandled, ManagerEvent (Stored {Cid ''c''})])) s \<and>
     set evs \<subseteq> range HandlerMoved \<and>
     Cid ''c'' \<in> awaited (ps_sys (rn_ps s)) \<and> Cid ''c'' \<in> stored (app_contents map_of) (ps_sys (rn_ps s))"
proof -
  obtain k where reach: "running_reach demo_app mem_blockstore (demo_threshold 0) [] (demo_running 0 k)"
    using demo_running_reach by blast
  let ?bs = "app_blockstore mem_blockstore mem_usage 0" and ?s = "demo_running 0 k"
  let ?pv = "rn_provider ?s" and ?ps = "rn_ps ?s" and ?wl = "[demo_entry ''c'' WantBlock]"
  obtain m w where msg: "receive_message ?bs ?pv 0 (\<lambda>i. None) (Root 0) ''peer'' ?wl (ms_mgr (ps_sys ?ps), ms_world (ps_sys ?ps)) = (m, w)"
    by fastforce
  then have m: "inner m = demo_store 0" "wait_list m (Cid ''c'') \<noteq> None"
    by (auto simp: demo_running_def init_msys_def new_manager_def demo_store_def demo_entry_def receive_message_def
        receive_entry_def entry_lookup_def
        blacklisted_def extract_provider_def cid_list_to_map_def demo_threshold_def default_config_def try_retrieval_def
        retrieve_for_peer_def await_block_def register_def Let_def)
  have "ms_holder (ps_sys ?ps) = None" by (simp add: demo_running_def init_msys_def)
  from message_runs [OF this msg] obtain evs ps1 where 1: "set evs \<subseteq> range HandlerMoved"
    "provider_run ?bs ?pv ?ps (demo_message # evs @ [MessageHandled]) ps1" "ms_mgr (ps_sys ps1) = m"
    by (fastforce simp: demo_message_def)
  let ?b = "\<lparr>blk_cid = Cid ''c'', raw_data = ''w''\<rparr>"
  obtain st where put: "bs_put ?bs (inner (ms_mgr (ps_sys ps1))) ?b = (None, st)" "Cid ''c'' \<in> dom (app_contents map_of st)"
    by (simp add: 1(3) m demo_store_def map_of_mem_put)
  from runs [OF mgr_step.put_store [OF put(1), where x = "Root 0"], of ?pv] obtain ps2 where
    2: "provider_step ?bs ?pv ps1 (ManagerEvent (Stored {Cid ''c''})) ps2"
    "ps_sys ps2 = (set_inner st (ps_sys ps1))\<lparr>ms_senders := ms_senders (ps_sys ps1) @ [(Root 0, [ready_of ?b])]\<rparr>"
    by fastforce
  have "ae_disk_usage demo_app = mem_usage" by (simp add: demo_app_def)
  with serves_run [OF _ reach refl refl] goes_on [OF 1(2) 2(1)] obtain s where
    s: "running_reach demo_app mem_blockstore (demo_threshold 0)
       (map Served (demo_message # evs @ [MessageHandled, ManagerEvent (Stored {Cid ''c''})])) s" "rn_ps s = ps2"
    by fastforce
  have "Cid ''c'' \<in> awaited (ps_sys ps2)" "Cid ''c'' \<in> stored (app_contents map_of) (ps_sys ps2)"
    using m put(2) by (auto simp: 2(2) 1(3) awaited_def stored_def)
  with s 1(1) show ?thesis by auto
qed

section \<open>Properties\<close>

text \<open>C8. The running program serves what was configured. In every state reached from a start that succeeded, by
  messages, puts, deletes, notifications, cleanups, retrievals, workers, polls and prune operations in any
  order, every answer was asked for. About an identifier of the configured blacklist no peer is sent
  anything but DONT_HAVE, nobody waits for it and it is not retrieved. When retrieval is disabled, nobody waits and nothing
  is retrieved. At most the configured number of workers is woken, and the store and the timeout are
  still those of the configuration.\<close>

theorem running_as_configured:
  assumes "running_reach ae bs cfg evs s"
  shows "(\<forall>x \<in> set (pushed (ms_world (ps_sys (rn_ps s)))). justified (rn_provider s) (ps_asked (rn_ps s)) x) \<and>
     (\<forall>c \<in> set (cfg_cid_blacklist cfg).
        (\<forall>(p, t) \<in> set (pushed (ms_world (ps_sys (rn_ps s)))). topic_cid (tk_topic t) = c \<longrightarrow> tk_topic t = TopicDontHave c) \<and>
        (\<forall>rt \<in> set (spawned (ms_world (ps_sys (rn_ps s)))). en_cid (rt_entry rt) \<noteq> c) \<and>
        slice_at (wait_list (ms_mgr (ps_sys (rn_ps s)))) c = []) \<and>
     (disable_retrieval cfg \<longrightarrow> spawned (ms_world (ps_sys (rn_ps s))) = [] \<and>
        (\<forall>c. slice_at (wait_list (ms_mgr (ps_sys (rn_ps s)))) c = [])) \<and>
     work_ready (ms_world (ps_sys (rn_ps s))) \<le> max_bitswap_workers cfg \<and>
     configured_store cfg (rn_store s) \<and> await_timeout (ms_mgr (ps_sys (rn_ps s))) = 10 * minute"
    (is "?asked \<and> ?blacklist \<and> ?disabled \<and> ?workers \<and> ?store \<and> ?timeout")
proof -
  have ok: "running_ok ae bs cfg s" using assms by (rule running_reach_ok)
  then have prov: "provider_ok (rn_provider s) (rn_ps s)"
    "rn_provider s = extract_provider cfg (\<not> disable_retrieval cfg) (ae_presence_size ae)"
    unfolding running_ok_def by blast+
  have ?asked using prov(1) by (simp add: provider_ok_def world_ok_def)
  moreover have ?blacklist
    using provider_ok_blacklist [OF prov(1)] configured_blacklist prov(2) by auto
  moreover have ?disabled using ok idle_unwaited by (auto simp: running_ok_def idle_def)
  moreover have ?workers
    using prov(1) unfolding provider_ok_def world_ok_def by (simp add: prov(2) extract_provider_def)
  moreover have ?store ?timeout using ok by (simp_all add: running_ok_def store_reached_def)
  ultimately show ?thesis by blast
qed

lemma running_as_configured_witness:
  "\<exists>evs s. running_reach demo_app mem_blockstore (demo_threshold 0)
       (map Served (demo_message # evs @ [MessageHandled, ManagerEvent (Stored {Cid ''c''})])) s \<and>
     configured_store (demo_threshold 0) (rn_store s) \<and> work_ready (ms_world (ps_sys (rn_ps s))) \<le> 1"
proof -
  have "max_bitswap_workers (demo_threshold 0) = 1" by (simp add: demo_threshold_def default_config_def)
  moreover obtain evs s where s: "running_reach demo_app mem_blockstore (demo_threshold 0)
       (map Served (demo_message # evs @ [MessageHandled, ManagerEvent (Stored {Cid ''c''})])) s"
    using demo_unpruned_run by blast
  ultimately show ?thesis using running_as_configured [OF s] s
    by (intro exI [of _ evs] exI [of _ s]) simp
qed

text \<open>C10. The pruner of the running program is a pruner. Without a configured threshold there is none, and no
  prune goroutine runs; with one, every state of the program shows the pruner in a state that it reaches by its own
  steps, so that all that holds of the pruner alone holds in the program: at most one prune operation
  runs, and it runs exactly while \<open>pruneLk\<close> is held.\<close>

theorem running_refines_pruner:
  assumes "running_reach ae bs cfg evs s"
  shows "case rn_store s of
      Unpruned st \<Rightarrow> prune_threshold cfg = 0 \<and> rn_jobs s = 0
    | Pruned p \<Rightarrow> prune_threshold cfg \<noteq> 0 \<and> pruner_reach bs (ae_disk_usage ae) \<lparr>pr = p, jobs = rn_jobs s\<rparr> \<and>
        rn_jobs s \<le> 1 \<and> (prune_lk p \<longleftrightarrow> rn_jobs s = 1)"
proof -
  have reached: "store_reached bs (ae_disk_usage ae) cfg (rn_store s) (rn_jobs s)"
    using running_reach_ok [OF assms] by (simp add: running_ok_def)
  show ?thesis
  proof (cases "rn_store s")
    case (Unpruned st)
    with reached show ?thesis by (simp add: store_reached_def configured_store_def)
  next
    case (Pruned p)
    with reached have pruner: "pruner_reach bs (ae_disk_usage ae) \<lparr>pr = p, jobs = rn_jobs s\<rparr>"
      by (simp add: store_reached_def)
    from pruner_reach_inv [OF this] reached Pruned pruner show ?thesis
      by (simp add: store_reached_def configured_store_def pruner_inv_def)
  qed
qed

lemma running_refines_pruner_witness:
  "\<exists>k. running_reach demo_app mem_blockstore (demo_threshold 5) [] (demo_running 5 k) \<and> k = 1 \<and>
     pruner_reach mem_blockstore mem_usage \<lparr>pr = pr demo_sys, jobs = k\<rparr>"
proof -
  obtain k where reach: "running_reach demo_app mem_blockstore (demo_threshold 5) [] (demo_running 5 k)"
    using demo_running_reach by blast
  have "rn_store (demo_running 5 k) = Pruned (pr demo_sys)" "prune_lk (pr demo_sys)"
    by (simp_all add: demo_store_def demo_sys_def)
  with running_refines_pruner [OF reach] reach show ?thesis by auto
qed

text \<open>C9. Which wake-ups the running program loses, pruned or not. In every state, reached without a failing \<open>PutMany\<close>, an identifier that
  some peer waits for and whose block is in the store has its announcement under way, or its block came past the
  announcements: written by the link system of a retrieval, or by a put that gave up; no prune operation adds to these. And
  as long as nobody puts through the manager, as nobody in the program does, nothing is ever announced and the
  notifier never runs, so those that came by a retrieval are all there are.\<close>

theorem running_no_lost_wakeup:
  assumes "block_store bs contents" and "running_reach ae bs cfg evs s"
    and "Served (ManagerEvent PutManyFailed) \<notin> set evs"
  shows "awaited (ps_sys (rn_ps s)) \<inter> stored (app_contents contents) (ps_sys (rn_ps s)) \<subseteq>
       announced (ps_sys (rn_ps s)) \<union> \<Union> (past ` set evs) \<and>
     ((\<forall>cs. Served (ManagerEvent (Stored cs)) \<notin> set evs) \<longrightarrow>
        announced (ps_sys (rn_ps s)) = {} \<and> (\<forall>b. Served (ManagerEvent (Notified b)) \<notin> set evs))"
  using running_reach_stranded [OF assms] running_reach_unused [OF assms(2)] unused_channel_announced
  unfolding stranded_def by blast

lemma running_no_lost_wakeup_witness:
  "\<exists>evs s. running_reach demo_app mem_blockstore (demo_threshold 0)
       (map Served (demo_message # evs @ [MessageHandled, ManagerEvent (Stored {Cid ''c''})])) s \<and>
     Cid ''c'' \<in> announced (ps_sys (rn_ps s))"
proof -
  obtain evs s where s: "running_reach demo_app mem_blockstore (demo_threshold 0)
       (map Served (demo_message # evs @ [MessageHandled, ManagerEvent (Stored {Cid ''c''})])) s" "set evs \<subseteq> range HandlerMoved"
    "Cid ''c'' \<in> awaited (ps_sys (rn_ps s))" "Cid ''c'' \<in> stored (app_contents map_of) (ps_sys (rn_ps s))"
    using demo_unpruned_run by blast
  have none: "Served (ManagerEvent PutManyFailed) \<notin> set (map Served (demo_message # evs @ [MessageHandled, ManagerEvent (Stored {Cid ''c''})]))"
    and past: "\<Union> (past ` set (map Served (demo_message # evs @ [MessageHandled, ManagerEvent (Stored {Cid ''c''})]))) = {}"
    using s(2) by (auto simp: demo_message_def)
  from running_no_lost_wakeup [OF mem.block_store_axioms s(1) none] s(1,3,4) past show ?thesis by blast
qed

end
