(* ===== verification/Command_Process.thy ===== *)
theory Command_Process
  imports Application
begin

text \<open>
  The process around the main command (src/main.go): \<open>init\<close>, the goroutine of \<open>contextWithInterruptCancel\<close>, the main
  goroutine from \<open>New\<close> to its exit, and the handler that serves stack traces. The two goroutines and the operating
  system take turns; what a turn does is a function on the state of the process, and a turn of a goroutine that is
  blocked does nothing.
\<close>

section \<open>The environment\<close>

text \<open>\<open>os.Getenv\<close> gives the empty string for a variable that is not set.\<close>

definition init_env :: "(string \<Rightarrow> string) \<Rightarrow> string \<Rightarrow> string" where
  "init_env env =
     (if env ''FULLNODE_API_INFO'' = [] then env(''FULLNODE_API_INFO'' := ''wss://api.chain.love'') else env)"

lemma init_env_gateway:
  "init_env env ''FULLNODE_API_INFO'' \<noteq> []" "init_env (init_env env) = init_env env"
  "v \<noteq> ''FULLNODE_API_INFO'' \<Longrightarrow> init_env env v = env v"
  by (auto simp: init_env_def)

section \<open>Interrupts\<close>

text \<open>Where the watching goroutine is: before \<open>signal.Notify\<close>, at the receive, before \<open>signal.Ignore\<close>, before the notice
  is printed, before \<open>cancel\<close>, and done.\<close>

datatype watch_at = Registering | Waiting | Caught | Ignoring | Noticed | Finished

text \<open>What an interrupt does to the process, and where the main goroutine is.\<close>

datatype disposition = DefaultAction | ToChannel | Ignored

datatype main_at = Starting | Serving | Closing | Returned "go_error option"

datatype ended = KilledByInterrupt | Crashed string | ExitedZero

record process =
  px_watch :: watch_at
  px_disposition :: disposition
  px_pending :: bool  \<comment> \<open>a signal in the channel, which holds one\<close>
  px_cancelled :: bool
  px_main :: main_at
  px_opened :: "opened list"
  px_notices :: "string list"
  px_errors :: "go_error list"
  px_ended :: "ended option"

definition new_process :: process where
  "new_process = \<lparr>px_watch = Registering, px_disposition = DefaultAction, px_pending = False, px_cancelled = False,
     px_main = Starting, px_opened = [], px_notices = [], px_errors = [], px_ended = None\<rparr>"

definition interrupt :: "process \<Rightarrow> process" where
  "interrupt s =
     (case px_disposition s of
        DefaultAction \<Rightarrow> s\<lparr>px_ended := Some KilledByInterrupt\<rparr>
      | ToChannel \<Rightarrow> s\<lparr>px_pending := True\<rparr>
      | Ignored \<Rightarrow> s)"

definition interrupt_notice :: string where
  "interrupt_notice = ''Interrupt detected, gracefully exiting... (interrupt again to force termination)''"

definition watch_step :: "process \<Rightarrow> process" where
  "watch_step s =
     (case px_watch s of
        Registering \<Rightarrow> s\<lparr>px_disposition := ToChannel, px_watch := Waiting\<rparr>
      | Waiting \<Rightarrow> if px_pending s then s\<lparr>px_pending := False, px_watch := Caught\<rparr> else s
      | Caught \<Rightarrow> s\<lparr>px_disposition := Ignored, px_watch := Ignoring\<rparr>
      | Ignoring \<Rightarrow> s\<lparr>px_notices := px_notices s @ [interrupt_notice], px_watch := Noticed\<rparr>
      | Noticed \<Rightarrow> s\<lparr>px_cancelled := True, px_watch := Finished\<rparr>
      | Finished \<Rightarrow> s)"

text \<open>The main goroutine: what \<open>New\<close> comes to is given; then it waits for the context, closes, and returns. \<open>main\<close>
  prints the error, if there is one, and returns, which is exit status zero.\<close>

type_synonym 'a start = "(go_error + 'a) outcome \<times> opened list"

definition cmd_step :: "'a start \<Rightarrow> process \<Rightarrow> process" where
  "cmd_step st s =
     (case px_main s of
        Starting \<Rightarrow>
          (case fst st of
             Panics m \<Rightarrow> s\<lparr>px_opened := snd st, px_ended := Some (Crashed m)\<rparr>
           | Returns (Inl e) \<Rightarrow> s\<lparr>px_opened := snd st, px_main := Returned (Some e)\<rparr>
           | Returns (Inr a) \<Rightarrow> s\<lparr>px_opened := snd st, px_main := Serving\<rparr>)
      | Serving \<Rightarrow> if px_cancelled s then s\<lparr>px_main := Closing\<rparr> else s
      | Closing \<Rightarrow> s\<lparr>px_opened := close_autoretrieve (px_opened s), px_main := Returned None\<rparr>
      | Returned r \<Rightarrow> s)"

definition main_step :: "'a start \<Rightarrow> process \<Rightarrow> process" where
  "main_step st s =
     (case px_main s of
        Returned r \<Rightarrow>
          s\<lparr>px_errors := px_errors s @ (case r of None \<Rightarrow> [] | Some e \<Rightarrow> [e]), px_ended := Some ExitedZero\<rparr>
      | m \<Rightarrow> cmd_step st s)"

datatype actor = Keyboard | Watcher | Main

definition turn :: "'a start \<Rightarrow> actor \<Rightarrow> process \<Rightarrow> process" where
  "turn st a s =
     (if px_ended s \<noteq> None then s
      else case a of Keyboard \<Rightarrow> interrupt s | Watcher \<Rightarrow> watch_step s | Main \<Rightarrow> main_step st s)"

definition turns :: "'a start \<Rightarrow> actor list \<Rightarrow> process \<Rightarrow> process" where
  "turns st as s = fold (turn st) as s"

section \<open>Stack traces\<close>

text \<open>\<open>runtime.Stack\<close> writes as much of the dump of all goroutines as fits. The dump may differ from call to call. The loop
  doubles the buffer while it is filled, up to a gigabyte; what is served is the buffer it ends with. It is
  not bounded in its text, so it is a partial function.\<close>

partial_function (option) stack_loop :: "(nat \<Rightarrow> string) \<Rightarrow> nat \<Rightarrow> nat \<Rightarrow> string option" where
  "stack_loop dump i n =
     (let buf = take n (dump i)
      in if length buf < n then Some buf
         else if 2 ^ 30 \<le> n then Some buf
         else stack_loop dump (Suc i) (2 * n))"

definition serve_stacktrace :: "(nat \<Rightarrow> string) \<Rightarrow> string option" where
  "serve_stacktrace dump = stack_loop dump 0 (2 ^ 26)"


section \<open>Where the goroutines can be\<close>

lemma turns_simps [simp]:
  "turns st [] s = s" "turns st (a # as) s = turns st as (turn st a s)"
  "turns st (as @ bs) s = turns st bs (turns st as s)"
  by (simp_all add: turns_def)

lemma turn_ended [simp]: "px_ended s \<noteq> None \<Longrightarrow> turn st a s = s"
  by (simp add: turn_def)

lemma turns_inv: "(\<And>a s. I s \<Longrightarrow> I (turn st a s)) \<Longrightarrow> I s \<Longrightarrow> I (turns st as s)"
  by (induction as arbitrary: s) simp_all

lemmas turn_defs = turn_def interrupt_def watch_step_def main_step_def cmd_step_def

definition process_ok :: "process \<Rightarrow> bool" where
  "process_ok s \<longleftrightarrow>
     px_disposition s = (case px_watch s of Registering \<Rightarrow> DefaultAction | Waiting \<Rightarrow> ToChannel | Caught \<Rightarrow> ToChannel | _ \<Rightarrow> Ignored) \<and>
     (px_cancelled s \<longleftrightarrow> px_watch s = Finished) \<and>
     px_notices s = (if px_watch s = Noticed \<or> px_watch s = Finished then [interrupt_notice] else []) \<and>
     (px_ended s = Some KilledByInterrupt \<longrightarrow> px_watch s = Registering) \<and> (px_ended s = None \<longrightarrow> px_errors s = [])"

lemma process_ok_turn:
  assumes "process_ok s"
  shows "process_ok (turn st a s)"
proof (cases a)
  case Keyboard
  with assms show ?thesis
    by (auto simp: process_ok_def turn_def interrupt_def split: watch_at.splits disposition.splits)
next
  case Watcher
  with assms show ?thesis
    by (auto simp: process_ok_def turn_def watch_step_def split: watch_at.splits)
next
  case Main
  with assms show ?thesis
    by (auto simp: process_ok_def turn_def main_step_def cmd_step_def split: main_at.splits outcome.splits sum.splits)
qed

lemma process_ok_new: "process_ok new_process"
  by (simp add: process_ok_def new_process_def)

lemma process_ok_turns: "process_ok (turns st as new_process)"
  by (rule turns_inv [of process_ok st new_process as]) (simp_all add: process_ok_turn process_ok_new)

text \<open>Once the notice is printed, interrupts are ignored.\<close>

definition deaf :: "process \<Rightarrow> bool" where
  "deaf s \<longleftrightarrow> px_disposition s = Ignored \<and> px_watch s \<notin> {Registering, Waiting, Caught} \<and> px_ended s \<noteq> Some KilledByInterrupt"

lemma deaf_turn:
  assumes "deaf s"
  shows "deaf (turn st a s)"
proof (cases a)
  case Keyboard
  with assms show ?thesis by (simp add: deaf_def turn_def interrupt_def)
next
  case Watcher
  with assms show ?thesis by (auto simp: deaf_def turn_def watch_step_def split: watch_at.splits)
next
  case Main
  with assms show ?thesis
    by (auto simp: deaf_def turn_def main_step_def cmd_step_def split: main_at.splits outcome.splits sum.splits)
qed

lemma deaf_turns: "deaf s \<Longrightarrow> deaf (turns st as s)"
  by (rule turns_inv [of deaf st s as]) (simp_all add: deaf_turn)

lemma deaf_keyboard: "deaf s \<Longrightarrow> turn st Keyboard s = s"
  by (simp add: deaf_def turn_def interrupt_def)

lemma deaf_filter: "deaf s \<Longrightarrow> turns st (filter (\<lambda>a. a \<noteq> Keyboard) as) s = turns st as s"
  by (induction as arbitrary: s) (auto simp: deaf_keyboard deaf_turn)

section \<open>From an interrupt to the exit\<close>

definition watch_rank :: "watch_at \<Rightarrow> nat" where
  "watch_rank w = (case w of Registering \<Rightarrow> 0 | Waiting \<Rightarrow> 1 | Caught \<Rightarrow> 2 | Ignoring \<Rightarrow> 3 | Noticed \<Rightarrow> 4 | Finished \<Rightarrow> 5)"

text \<open>An interrupt has arrived while the program serves; nothing is closed before the context is cancelled.\<close>

definition interrupted :: "opened list \<Rightarrow> process \<Rightarrow> bool" where
  "interrupted ops s \<longleftrightarrow> process_ok s \<and> px_watch s \<noteq> Registering \<and> (px_watch s = Waiting \<longrightarrow> px_pending s) \<and>
     px_errors s = [] \<and>
     (case px_main s of
        Starting \<Rightarrow> False
      | Serving \<Rightarrow> px_opened s = ops \<and> px_ended s = None
      | Closing \<Rightarrow> px_watch s = Finished \<and> px_opened s = ops \<and> px_ended s = None
      | Returned r \<Rightarrow> px_watch s = Finished \<and> r = None \<and> px_opened s = close_autoretrieve ops \<and>
          px_ended s \<in> {None, Some ExitedZero})"

lemma interrupted_turn:
  assumes "interrupted ops s"
  shows "interrupted ops (turn st a s)"
proof -
  have ok: "process_ok (turn st a s)" using assms process_ok_turn [of s st a] by (simp add: interrupted_def)
  show ?thesis
  proof (cases a)
    case Keyboard
    with assms ok show ?thesis
      by (auto simp: interrupted_def process_ok_def turn_def interrupt_def split: main_at.splits watch_at.splits)
  next
    case Watcher
    with assms ok show ?thesis
      by (auto simp: interrupted_def turn_def watch_step_def split: main_at.splits watch_at.splits)
  next
    case Main
    with assms ok show ?thesis
      by (auto simp: interrupted_def process_ok_def turn_def main_step_def cmd_step_def split: main_at.splits)
  qed
qed

lemma watch_rank_turn:
  assumes "interrupted ops s"
  shows "min 5 (watch_rank (px_watch s) + (if a = Watcher then 1 else 0)) \<le> watch_rank (px_watch (turn st a s))"
  using assms
  by (cases a)
    (auto simp: interrupted_def turn_defs watch_rank_def split: watch_at.splits main_at.splits disposition.splits)

lemma watch_finishes:
  assumes "interrupted ops s"
  shows "min 5 (watch_rank (px_watch s) + count_list as Watcher) \<le> watch_rank (px_watch (turns st as s))"
  using assms
proof (induction as arbitrary: s)
  case (Cons a as)
  from Cons.IH [OF interrupted_turn [OF Cons.prems, of st a]] watch_rank_turn [OF Cons.prems, of a st]
  show ?case by (auto split: if_splits)
qed simp

definition main_rank :: "process \<Rightarrow> nat" where
  "main_rank s =
     (if px_ended s \<noteq> None then 3
      else case px_main s of Starting \<Rightarrow> 0 | Serving \<Rightarrow> 0 | Closing \<Rightarrow> 1 | Returned r \<Rightarrow> 2)"

lemma main_rank_turn:
  assumes "interrupted ops s" and "px_watch s = Finished"
  shows "px_watch (turn st a s) = Finished"
    and "min 3 (main_rank s + (if a = Main then 1 else 0)) \<le> main_rank (turn st a s)"
  using assms
  by (cases a; auto simp: interrupted_def process_ok_def turn_defs main_rank_def split: main_at.splits)+

lemma main_ends:
  assumes "interrupted ops s" and "px_watch s = Finished"
  shows "min 3 (main_rank s + count_list as Main) \<le> main_rank (turns st as s)"
  using assms
proof (induction as arbitrary: s)
  case (Cons a as)
  from Cons.IH [OF interrupted_turn [OF Cons.prems(1), of st a] main_rank_turn(1) [OF Cons.prems, of st a]]
    main_rank_turn(2) [OF Cons.prems, of a st]
  show ?case by (auto split: if_splits)
qed simp


lemma stack_loop_returns:
  "i \<le> 4 \<Longrightarrow> \<exists>k. i \<le> k \<and> k \<le> 4 \<and> stack_loop dump i (2 ^ (26 + i)) = Some (take (2 ^ (26 + k)) (dump k)) \<and>
     (\<forall>j. i \<le> j \<and> j < k \<longrightarrow> 2 ^ (26 + j) \<le> length (dump j)) \<and> (k < 4 \<longrightarrow> length (dump k) < 2 ^ (26 + k))"
proof (induction "4 - i" arbitrary: i)
  case 0
  then have i: "i = 4" by simp
  have "stack_loop dump 4 (2 ^ (26 + 4)) = Some (take (2 ^ (26 + 4)) (dump 4))"
    by (subst stack_loop.simps) (simp add: Let_def)
  with i show ?case by (intro exI [of _ 4]) auto
next
  case (Suc d)
  let ?n = "2 ^ (26 + i) :: nat"
  show ?case
  proof (cases "length (dump i) < ?n")
    case True
    then have "stack_loop dump i ?n = Some (take ?n (dump i))"
      by (subst stack_loop.simps) (simp add: Let_def)
    with True Suc(2,3) show ?thesis by (intro exI [of _ i]) auto
  next
    case False
    have "?n < 2 ^ 30" using Suc(2) by (intro power_strict_increasing) auto
    with False have "stack_loop dump i ?n = stack_loop dump (Suc i) (2 * ?n)"
      by (subst stack_loop.simps) (simp add: Let_def)
    moreover have "2 * ?n = 2 ^ (26 + Suc i)" by (simp only: add_Suc_right power_Suc)
    moreover obtain k where k: "Suc i \<le> k" "k \<le> 4"
      "stack_loop dump (Suc i) (2 ^ (26 + Suc i)) = Some (take (2 ^ (26 + k)) (dump k))"
      "\<forall>j. Suc i \<le> j \<and> j < k \<longrightarrow> 2 ^ (26 + j) \<le> length (dump j)" "k < 4 \<longrightarrow> length (dump k) < 2 ^ (26 + k)"
      using Suc(1) [of "Suc i"] Suc(2) by fastforce
    moreover have "2 ^ (26 + j) \<le> length (dump j)" if "i \<le> j" "j < k" for j
      using that k(4) False by (cases "j = i") simp_all
    ultimately show ?thesis using Suc_leD [OF k(1)] by metis
  qed
qed

section \<open>Properties\<close>

text \<open>C25. One interrupt ends the program, and ends it in order. When an interrupt arrives while the program serves and
  waits for one, then whatever the goroutines do in which order, after four more turns of the watching goroutine
  and then three of the main one the process has exited with status zero; the notice was printed once, no
  error was printed, and of what was opened the gateway and the host are closed, which is all that
  \<open>Close\<close> closes. Further interrupts at any point change nothing of this.\<close>

theorem interrupt_exits:
  fixes st :: "'a start"
  assumes "s = turns st as new_process" and "px_main s = Serving" and "px_watch s = Waiting" and "px_ended s = None"
    and "4 \<le> count_list bs Watcher" and "3 \<le> count_list cs Main"
  defines "t \<equiv> turns st (Keyboard # bs @ cs) s"
  shows "px_ended t = Some ExitedZero \<and> px_notices t = [interrupt_notice] \<and> px_errors t = px_errors s \<and>
     px_opened t = filter (\<lambda>x. x \<noteq> OpenedGateway \<and> x \<noteq> OpenedHost) (px_opened s)"
proof -
  have ok: "process_ok s" unfolding assms(1) by (rule process_ok_turns)
  let ?s1 = "turn st Keyboard s" and ?ops = "px_opened s"
  have "process_ok ?s1" using process_ok_turn [OF ok] .
  then have s1: "interrupted ?ops ?s1" "watch_rank (px_watch ?s1) = 1"
    using ok assms(2-4) by (simp_all add: interrupted_def process_ok_def turn_def interrupt_def watch_rank_def)
  let ?s2 = "turns st bs ?s1"
  have s2: "interrupted ?ops ?s2" by (rule turns_inv) (simp_all add: interrupted_turn s1)
  have "5 \<le> watch_rank (px_watch ?s2)" using watch_finishes [OF s1(1), of bs st] s1(2) assms(5) by simp
  then have fin: "px_watch ?s2 = Finished" by (simp add: watch_rank_def split: watch_at.splits)
  have t: "t = turns st cs ?s2" by (simp add: t_def)
  have int: "interrupted ?ops t" unfolding t by (rule turns_inv) (simp_all add: interrupted_turn s2)
  have "3 \<le> main_rank t" using main_ends [OF s2 fin, of cs st] assms(6) unfolding t by simp
  then have "px_ended t \<noteq> None" by (auto simp: main_rank_def split: if_splits main_at.splits)
  with int have "px_ended t = Some ExitedZero \<and> px_watch t = Finished \<and> px_opened t = close_autoretrieve ?ops"
    by (auto simp: interrupted_def split: main_at.splits)
  with int ok assms(4) show ?thesis
    by (simp add: interrupted_def process_ok_def close_autoretrieve_def)
qed

definition demo_serving :: "actor list" where
  "demo_serving = [Watcher, Main]"

lemma interrupt_exits_witness:
  "px_opened (turns (Returns (Inr ()), [OpenedHost, OpenedGateway, PruneTicker])
     (Keyboard # [Watcher, Keyboard, Watcher, Watcher, Watcher] @ [Main, Main, Keyboard, Main])
     (turns (Returns (Inr ()), [OpenedHost, OpenedGateway, PruneTicker]) demo_serving new_process)) = [PruneTicker]"
  by (subst conjunct2 [OF conjunct2 [OF conjunct2 [OF interrupt_exits [OF refl]]]])
    (simp_all add: demo_serving_def new_process_def turn_defs)

text \<open>C26. A second interrupt does not force termination, although the notice says so. Before the notice is printed the
  goroutine has told the runtime to ignore interrupts, so from then on the process is not ended by one, and a run with any number
  of further interrupts is the same as the run without them: if \<open>New\<close> hangs, or \<open>Close\<close> does, the
  keyboard cannot end the process.\<close>

theorem second_interrupt_ignored:
  assumes "s = turns st as new_process" and "px_notices s \<noteq> []"
  shows "turns st bs s = turns st (filter (\<lambda>a. a \<noteq> Keyboard) bs) s \<and> px_ended (turns st bs s) \<noteq> Some KilledByInterrupt"
proof -
  have "process_ok s" unfolding assms(1) by (rule process_ok_turns)
  with assms(2) have "deaf s" by (auto simp: process_ok_def deaf_def split: if_splits)
  then show ?thesis using deaf_filter [of s st bs] deaf_turns [of s st bs] by (simp add: deaf_def)
qed

lemma second_interrupt_ignored_witness:
  "px_ended (turns (Returns (Inr ()), []) [Keyboard, Keyboard, Keyboard]
     (turns (Returns (Inr ()), []) (demo_serving @ [Keyboard, Watcher, Watcher, Watcher]) new_process)) = None"
proof -
  let ?st = "(Returns (Inr ()), []) :: unit start"
  let ?s = "turns ?st (demo_serving @ [Keyboard, Watcher, Watcher, Watcher]) new_process"
  have s: "px_notices ?s \<noteq> []" "px_ended ?s = None"
    by (simp_all add: demo_serving_def new_process_def turn_defs)
  from second_interrupt_ignored [OF refl s(1), of "[Keyboard, Keyboard, Keyboard]"] s(2) show ?thesis by simp
qed

text \<open>C29. The stack trace handler returns. Whatever the goroutines' dumps are, the loop ends after at most five calls of
  \<open>runtime.Stack\<close>, and what is served is the dump of its last call, cut at the size of the buffer, at most a gigabyte; the
  dumps before it were longer than their buffers, and it is complete unless the buffer is the largest.\<close>

theorem stacktrace_bounded:
  "\<exists>i \<le> 4. serve_stacktrace dump = Some (take (2 ^ (26 + i)) (dump i)) \<and>
     length (take (2 ^ (26 + i)) (dump i)) \<le> 2 ^ 30 \<and> (\<forall>j < i. 2 ^ (26 + j) \<le> length (dump j)) \<and>
     (i < 4 \<longrightarrow> take (2 ^ (26 + i)) (dump i) = dump i)"
proof -
  obtain k where k: "k \<le> 4" "stack_loop dump 0 (2 ^ 26) = Some (take (2 ^ (26 + k)) (dump k))"
    "\<forall>j < k. 2 ^ (26 + j) \<le> length (dump j)" "k < 4 \<longrightarrow> length (dump k) < 2 ^ (26 + k)"
    using stack_loop_returns [of 0 dump] by auto
  have "length (take (2 ^ (26 + k)) (dump k)) \<le> 2 ^ (26 + k)" by simp
  also have "(2 :: nat) ^ (26 + k) \<le> 2 ^ 30" using k(1) by (intro power_increasing) auto
  finally show ?thesis using k by (intro exI [of _ k]) (auto simp: serve_stacktrace_def)
qed


lemma stacktrace_bounded_witness: "serve_stacktrace (\<lambda>i. ''goroutine 1 [running]'') = Some ''goroutine 1 [running]''"
proof -
  let ?s = "''goroutine 1 [running]''"
  obtain i :: nat where i: "serve_stacktrace (\<lambda>i. ?s) = Some (take (2 ^ (26 + i)) ?s)"
    using stacktrace_bounded [of "\<lambda>i. ?s"] by blast
  have "(2 :: nat) ^ 5 \<le> 2 ^ (26 + i)" by (intro power_increasing) auto
  then have "length ?s \<le> 2 ^ (26 + i)" by simp
  with i show ?thesis by (simp only: take_all)
qed

end
