(* ===== verification/Command_Line.thy ===== *)
theory Command_Line
  imports Estuary_Registration
begin

text \<open>
  The command line of src/main.go: the flags and the commands that \<open>main\<close> declares, how the code reads its
  flags through the library's lookups, and the commands that write and read the configuration, one run after the
  other.
\<close>

section \<open>Flags and commands\<close>

datatype flag_kind = StringFlag | BoolFlag

record cli_flag =
  fl_kind :: flag_kind
  fl_name :: string
  fl_env :: "string list"

definition app_flags :: "cli_flag list" where
  "app_flags =
     [\<lparr>fl_kind = StringFlag, fl_name = ''data-dir'', fl_env = [''AUTORETRIEVE_DATA_DIR'']\<rparr>,
      \<lparr>fl_kind = StringFlag, fl_name = ''lookup-endpoint-url'', fl_env = [''AUTORETRIEVE_LOOKUP_ENDPOINT_URL'']\<rparr>,
      \<lparr>fl_kind = StringFlag, fl_name = ''lookup-endpoint-type'', fl_env = [''AUTORETRIEVE_LOOKUP_ENDPOINT_TYPE'']\<rparr>,
      \<lparr>fl_kind = BoolFlag, fl_name = ''disable-retrieval'', fl_env = [''AUTORETRIEVE_DISABLE_RETRIEVAL'']\<rparr>,
      \<lparr>fl_kind = StringFlag, fl_name = ''routing-table-type'', fl_env = [''AUTORETRIEVE_ROUTING_TABLE_TYPE'']\<rparr>,
      \<lparr>fl_kind = BoolFlag, fl_name = ''log-resource-manager'', fl_env = [''AUTORETRIEVE_LOG_RESOURCE_MANAGER'']\<rparr>]"

datatype command = Cmd | CmdGenConfig | CmdPrintConfig | CmdTestBlockstore | CmdRegisterEstuary

definition app_commands :: "(string \<times> command) list" where
  "app_commands = [(''gen-config'', CmdGenConfig), (''print-config'', CmdPrintConfig),
     (''check-cid'', CmdTestBlockstore), (''register-estuary'', CmdRegisterEstuary)]"

text \<open>The library's \<open>cli.Context\<close> after parsing: \<open>String\<close>, \<open>Bool\<close> and \<open>IsSet\<close> by name.\<close>

record cli_context =
  cc_string :: "string \<Rightarrow> string"
  cc_bool :: "string \<Rightarrow> bool"
  cc_is_set :: "string \<Rightarrow> bool"

definition cli_string :: "cli_context \<Rightarrow> string \<Rightarrow> string option" where
  "cli_string cc n = (if cc_is_set cc n then Some (cc_string cc n) else None)"

definition cli_bool :: "cli_context \<Rightarrow> string \<Rightarrow> bool option" where
  "cli_bool cc n = (if cc_is_set cc n then Some (cc_bool cc n) else None)"

definition cli_of :: "cli_context \<Rightarrow> go_error + string \<Rightarrow> cli" where
  "cli_of cc home =
     \<lparr>cl_data_dir = cc_string cc ''data-dir'',
      cl_lookup_type = cli_string cc ''lookup-endpoint-type'',
      cl_lookup_url = cli_string cc ''lookup-endpoint-url'',
      cl_routing_type = cli_string cc ''routing-table-type'',
      cl_disable_retrieval = cli_bool cc ''disable-retrieval'',
      cl_log_resources = cli_bool cc ''log-resource-manager'',
      cl_home = home\<rparr>"

text \<open>Two contexts agree on a flag when its lookups of the declared kind do.\<close>

definition agree_on :: "cli_context \<Rightarrow> cli_context \<Rightarrow> cli_flag \<Rightarrow> bool" where
  "agree_on a b f \<longleftrightarrow> cc_is_set a (fl_name f) = cc_is_set b (fl_name f) \<and>
     (case fl_kind f of
        StringFlag \<Rightarrow> cc_string a (fl_name f) = cc_string b (fl_name f)
      | BoolFlag \<Rightarrow> cc_bool a (fl_name f) = cc_bool b (fl_name f))"

section \<open>Flags that are already in the configuration\<close>

text \<open>The flags of one command line are among those of another, with the same values.\<close>

definition fewer_flags :: "cli \<Rightarrow> cli \<Rightarrow> bool" where
  "fewer_flags a b \<longleftrightarrow> cl_lookup_type a \<in> {None, cl_lookup_type b} \<and> cl_lookup_url a \<in> {None, cl_lookup_url b} \<and>
     cl_routing_type a \<in> {None, cl_routing_type b} \<and> cl_disable_retrieval a \<in> {None, cl_disable_retrieval b} \<and>
     cl_log_resources a \<in> {None, cl_log_resources b}"

lemma override_absorbs:
  assumes "cl_lookup_type a \<in> {None, cl_lookup_type b}" and "cl_routing_type a \<in> {None, cl_routing_type b}"
    and "case cl_lookup_type b of None \<Rightarrow> True | Some s \<Rightarrow> parse_endpoint_type s = Inr (lookup_endpoint_type cfg)"
    and "case cl_routing_type b of None \<Rightarrow> True | Some s \<Rightarrow> parse_routing_table_type s = Inr (routing_table_type cfg)"
  shows "override_lookup_type a cfg = Inr cfg" "override_routing_type a cfg = Inr cfg"
  using assms by (auto simp: override_lookup_type_def override_routing_type_def split: option.splits)

lemma overrides_absorb:
  assumes "apply_cli_overrides b base = Inr cfg" and "fewer_flags a b"
  shows "apply_cli_overrides a cfg = Inr cfg"
  using assms(1)
proof (rule apply_cli_overrides_ok, goal_cases)
  case (1 lt rt)
  have sel: "lookup_endpoint_type cfg = lt" "routing_table_type cfg = rt"
    "cl_lookup_url b = Some u \<Longrightarrow> lookup_endpoint_url cfg = u" "cl_disable_retrieval b = Some v \<Longrightarrow> disable_retrieval cfg = v"
    "cl_log_resources b = Some v \<Longrightarrow> log_resource_manager cfg = v" for u v
    by (simp_all add: 1(3))
  have "override_lookup_type a cfg = Inr cfg" "override_routing_type a cfg = Inr cfg"
    using override_absorbs [of a b cfg] assms(2) 1(1,2) by (simp_all add: sel fewer_flags_def split: option.splits)
  moreover have "(case cl_lookup_url a of None \<Rightarrow> cfg | Some u \<Rightarrow> cfg\<lparr>lookup_endpoint_url := u\<rparr>) = cfg"
    using assms(2) sel(3) by (auto simp: fewer_flags_def split: option.split)
  moreover have "(case cl_disable_retrieval a of None \<Rightarrow> cfg | Some v \<Rightarrow> cfg\<lparr>disable_retrieval := v\<rparr>) = cfg"
    using assms(2) sel(4) by (auto simp: fewer_flags_def split: option.split)
  moreover have "(case cl_log_resources a of None \<Rightarrow> cfg | Some v \<Rightarrow> cfg\<lparr>log_resource_manager := v\<rparr>) = cfg"
    using assms(2) sel(5) by (auto simp: fewer_flags_def split: option.split)
  ultimately show ?case by (simp add: apply_cli_overrides_def Let_def)
qed

section \<open>Properties\<close>

text \<open>The code looks up only flags that are declared, with the kind they are declared with: two command lines on which the
  lookups of all declared flags agree give the same settings, whatever the library returns for any other
  name. No two flags share a name or an environment variable, and no two commands share a name.\<close>

lemma flags_are_declared:
  assumes "\<forall>f \<in> set app_flags. agree_on a b f"
  shows "cli_of a home = cli_of b home \<and> distinct (map fl_name app_flags) \<and> distinct (concat (map fl_env app_flags)) \<and>
     distinct (map fst app_commands) \<and> Cmd \<notin> snd ` set app_commands"
  using assms by (simp add: app_flags_def agree_on_def cli_of_def cli_string_def cli_bool_def app_commands_def)

text \<open>C27. A generated configuration is the one that is used. After \<open>gen-config\<close> succeeded, a later run on the same
  data directory, with the same flags or with any of them left out, works with the defaults overridden by the flags that were
  given to \<open>gen-config\<close>, and \<open>print-config\<close> prints that; no other file was changed. The YAML codec is
  required to decode what it encoded for this configuration.\<close>

theorem generated_config_is_used:
  assumes "cmd_gen_config ym (\<lambda>p bs f. os_write_file oe p bs 0x1A4 f) cl fs = (None, fs')"
    and "\<forall>cfg bs. apply_cli_overrides cl default_config = Inr cfg \<and> ym cfg = Inr bs \<longrightarrow> ya bs default_config = (None, cfg)"
    and "fewer_flags later cl" and "data_dir_path later = data_dir_path cl"
    and "os_fault oe' OpRead (full_config_path cl) = None"
  shows "\<exists>cfg. apply_cli_overrides cl default_config = Inr cfg \<and> get_full_config (os_read_file oe' fs') ya later = Inr cfg \<and>
     cmd_print_config ym' (os_read_file oe' fs') ya later = ym' cfg \<and>
     (\<forall>pl. pl \<noteq> resolve (full_config_path cl) \<longrightarrow> fs' pl = fs pl)"
proof -
  from assms(1) obtain cfg where cfg: "apply_cli_overrides cl default_config = Inr cfg"
    "write_config ym (\<lambda>p bs f. os_write_file oe p bs 0x1A4 f) cfg (full_config_path cl) fs = (None, fs')"
    by (auto simp: cmd_gen_config_def split: sum.splits)
  with write_config_cases [OF cfg(2)] obtain bs where
    bs: "ym cfg = Inr bs" "os_write_file oe (full_config_path cl) bs 0x1A4 fs = (None, fs')" by auto
  have path: "full_config_path later = full_config_path cl" using assms(4) by (simp add: full_config_path_def)
  have "os_read_file oe' fs' (full_config_path cl) = Inr bs" using write_then_read [OF bs(2) assms(5)] .
  then have "get_full_config (os_read_file oe' fs') ya later = Inr cfg"
    using assms(2) cfg(1) bs(1) overrides_absorb [OF cfg(1) assms(3)] path
    by (simp add: get_full_config_def load_config_def)
  with cfg(1) write_other [OF bs(2)] show ?thesis by (auto simp: cmd_print_config_def)
qed


text \<open>A codec that keeps one field, and a file system with an empty data directory.\<close>

definition demo_marshal :: "config \<Rightarrow> go_error + bytes" where
  "demo_marshal cfg = Inr (if disable_retrieval cfg then ''yes'' else ''no'')"

definition demo_apply :: "bytes \<Rightarrow> config \<Rightarrow> go_error option \<times> config" where
  "demo_apply bs cfg = (None, cfg\<lparr>disable_retrieval := (bs = ''yes'')\<rparr>)"

lemma generated_config_is_used_witness:
  "\<exists>fs' cfg. cmd_gen_config demo_marshal (\<lambda>p bs f. os_write_file quiet_os p bs 0x1A4 f)
       (register_cli\<lparr>cl_disable_retrieval := Some True\<rparr>) (register_fs None) = (None, fs') \<and>
     get_full_config (os_read_file quiet_os fs') demo_apply register_cli = Inr cfg \<and> disable_retrieval cfg"
proof -
  let ?cl = "register_cli\<lparr>cl_disable_retrieval := Some True\<rparr>"
  have over: "apply_cli_overrides ?cl default_config = Inr (default_config\<lparr>disable_retrieval := True\<rparr>)"
    by (simp add: apply_cli_overrides_def override_lookup_type_def override_routing_type_def register_cli_def)
  have same: "data_dir_path register_cli = data_dir_path ?cl" by (simp add: data_dir_path_def)
  then have "resolve (full_config_path ?cl) = (True, [''data'', ''config.yaml''])"
    using register_paths by (simp add: full_config_path_def)
  then obtain fs' where run: "cmd_gen_config demo_marshal (\<lambda>p bs f. os_write_file quiet_os p bs 0x1A4 f) ?cl (register_fs None) = (None, fs')"
    by (simp add: cmd_gen_config_def over write_config_def demo_marshal_def register_run)
  have fewer: "fewer_flags register_cli ?cl" by (simp add: fewer_flags_def register_cli_def)
  have codec: "\<forall>cfg bs. apply_cli_overrides ?cl default_config = Inr cfg \<and> demo_marshal cfg = Inr bs \<longrightarrow>
      demo_apply bs default_config = (None, cfg)"
    using over by (auto simp: demo_marshal_def demo_apply_def)
  have "os_fault quiet_os OpRead (full_config_path ?cl) = None" by (simp add: quiet_os_def)
  from generated_config_is_used [of demo_marshal quiet_os ?cl "register_fs None" fs' demo_apply register_cli quiet_os demo_marshal,
    OF run codec fewer same this] over
  have "get_full_config (os_read_file quiet_os fs') demo_apply register_cli = Inr (default_config\<lparr>disable_retrieval := True\<rparr>)"
    by auto
  with run show ?thesis by auto
qed

end
