(* ===== verification/Metrics.thy ===== *)
theory Metrics
  imports Go_Prelude
begin

text \<open>
  The metrics (src/metrics/opentelemetry.go, src/metrics/server.go): the measures, the views that are
  exported of them, the tables that map error messages to measures, and the HTTP handler that
  registers the views. The view registry and the Prometheus exporter are parameters.
\<close>

section \<open>Measures\<close>

text \<open>A measure has the name of its Go variable with a final \<open>M\<close>.\<close>

datatype unit_of_measure = UnitDimensionless | UnitBytes | UnitSeconds

datatype measure =
    BitswapRequestCountM
  | BitswapResponseCountM
  | BitswapRetrieverRequestCountM
  | BlockstoreCacheHitCountM
  | BytesTransferredTotalM
  | RetrievalDealCostM
  | RetrievalDealActiveCountM
  | RetrievalDealDurationM
  | RetrievalDealFailCountM
  | RetrievalDealSizeM
  | RetrievalDealSuccessCountM
  | RetrievalRequestCountM
  | RetrievalErrorPaychCountM
  | RetrievalErrorRejectedCountM
  | RetrievalErrorTooManyCountM
  | RetrievalErrorACLCountM
  | RetrievalErrorMaintenanceCountM
  | RetrievalErrorNoOnlineCountM
  | RetrievalErrorUnconfirmedCountM
  | RetrievalErrorTimeoutCountM
  | RetrievalErrorOtherCountM
  | QueryErrorFailedToDialCountM
  | QueryErrorFailedToOpenStreamCountM
  | QueryErrorResponseEOFCountM
  | QueryErrorResponseStreamResetCountM
  | QueryErrorDAGStoreCountM
  | QueryErrorDealNotFoundCountM
  | QueryErrorOtherCountM
  | IndexerCandidatesPerRequestCountM
  | RequestWithIndexerCandidatesCountM
  | RequestWithIndexerCandidatesFilteredCountM
  | RequestWithSuccessfulQueriesCountM
  | RequestWithSuccessfulQueriesFilteredCountM
  | SuccessfulQueriesPerRequestCountM
  | SuccessfulQueriesPerRequestFilteredCountM
  | FailedRetrievalsPerRequestCountM

fun measure_name :: "measure \<Rightarrow> string" where
  "measure_name BitswapRequestCountM = ''bitswap_request_total''"
| "measure_name BitswapResponseCountM = ''bitswap_response_total''"
| "measure_name BitswapRetrieverRequestCountM = ''bitswap_retriever_request_total''"
| "measure_name BlockstoreCacheHitCountM = ''blockstore_cache_hit_total''"
| "measure_name BytesTransferredTotalM = ''data_transferred_bytes_total''"
| "measure_name RetrievalDealCostM = ''retrieval_deal_cost_fil''"
| "measure_name RetrievalDealActiveCountM = ''retrieval_deal_active_total''"
| "measure_name RetrievalDealDurationM = ''retrieval_deal_duration_seconds''"
| "measure_name RetrievalDealFailCountM = ''retrieval_deal_fail_total''"
| "measure_name RetrievalDealSizeM = ''retrieval_deal_size_bytes''"
| "measure_name RetrievalDealSuccessCountM = ''retrieval_deal_success_total''"
| "measure_name RetrievalRequestCountM = ''retrieval_request_total''"
| "measure_name RetrievalErrorPaychCountM = ''retrieval_error_paych_total''"
| "measure_name RetrievalErrorRejectedCountM = ''retrieval_error_rejected_total''"
| "measure_name RetrievalErrorTooManyCountM = ''retrieval_error_toomany_total''"
| "measure_name RetrievalErrorACLCountM = ''retrieval_error_acl_total''"
| "measure_name RetrievalErrorMaintenanceCountM = ''retrieval_error_maintenance_total''"
| "measure_name RetrievalErrorNoOnlineCountM = ''retrieval_error_noonline_total''"
| "measure_name RetrievalErrorUnconfirmedCountM = ''retrieval_error_unconfirmed_total''"
| "measure_name RetrievalErrorTimeoutCountM = ''retrieval_error_timeout_total''"
| "measure_name RetrievalErrorOtherCountM = ''retrieval_error_other_total''"
| "measure_name QueryErrorFailedToDialCountM = ''query_error_failed_to_dial''"
| "measure_name QueryErrorFailedToOpenStreamCountM = ''query_error_failed_to_open_stream''"
| "measure_name QueryErrorResponseEOFCountM = ''query_error_response_eof''"
| "measure_name QueryErrorResponseStreamResetCountM = ''query_error_response_stream_reset''"
| "measure_name QueryErrorDAGStoreCountM = ''query_error_dagstore''"
| "measure_name QueryErrorDealNotFoundCountM = ''query_error_dealstate''"
| "measure_name QueryErrorOtherCountM = ''query_error_error_other_total''"
| "measure_name IndexerCandidatesPerRequestCountM = ''indexer_candidates_per_request_total''"
| "measure_name RequestWithIndexerCandidatesCountM = ''request_with_indexer_candidates_total''"
| "measure_name RequestWithIndexerCandidatesFilteredCountM = ''request_with_indexer_candidates_filtered_total''"
| "measure_name RequestWithSuccessfulQueriesCountM = ''request_with_successful_queries_total''"
| "measure_name RequestWithSuccessfulQueriesFilteredCountM = ''request_with_successful_queries_filtered_total''"
| "measure_name SuccessfulQueriesPerRequestCountM = ''successful_queries_per_request_total''"
| "measure_name SuccessfulQueriesPerRequestFilteredCountM = ''successful_queries_per_request_filtered_total''"
| "measure_name FailedRetrievalsPerRequestCountM = ''failed_retrievals_per_request_total''"

definition measure_unit :: "measure \<Rightarrow> unit_of_measure" where
  "measure_unit m = (if m = BytesTransferredTotalM then UnitBytes else if m = RetrievalDealDurationM then UnitSeconds else UnitDimensionless)"

section \<open>Error messages\<close>

definition query_error_metric_matches :: "string \<rightharpoonup> measure" where
  "query_error_metric_matches = map_of
     [(''failed to dial'', QueryErrorFailedToDialCountM),
      (''failed to open stream to peer'', QueryErrorFailedToOpenStreamCountM),
      (''failed to read response: EOF'', QueryErrorResponseEOFCountM),
      (''failed to read response: stream reset'', QueryErrorResponseStreamResetCountM)]"

definition query_response_metric_matches :: "string \<rightharpoonup> measure" where
  "query_response_metric_matches = map_of
     [(''getting pieces for cid'', QueryErrorDAGStoreCountM),
      (''failed to fetch storage deal state'', QueryErrorDealNotFoundCountM)]"

definition error_metric_matches :: "string \<rightharpoonup> measure" where
  "error_metric_matches = map_of
     [(''failed to get payment channel'', RetrievalErrorPaychCountM),
      (''response rejected'', RetrievalErrorRejectedCountM),
      (''Too many retrieval deals received'', RetrievalErrorTooManyCountM),
      (''Access Control'', RetrievalErrorACLCountM),
      (''Under maintenance, retry later'', RetrievalErrorMaintenanceCountM),
      (''miner is not accepting online retrieval deals'', RetrievalErrorNoOnlineCountM),
      (''unconfirmed block transfer'', RetrievalErrorUnconfirmedCountM),
      (''timeout after '', RetrievalErrorTimeoutCountM)]"

section \<open>Tags and views\<close>

datatype tag_key = BitswapDontHaveReasonTag | BitswapTopicTag | EndpointURLTag | ErrorTag | MethodTag | StatusTag

fun tag_name :: "tag_key \<Rightarrow> string" where
  "tag_name BitswapDontHaveReasonTag = ''bitswap_dont_have_reason''"
| "tag_name BitswapTopicTag = ''bitswap_topic''"
| "tag_name EndpointURLTag = ''endpoint_url''"
| "tag_name ErrorTag = ''error''"
| "tag_name MethodTag = ''method''"
| "tag_name StatusTag = ''status''"

datatype aggregation = Count | Sum | Distribution "nat list"

record view =
  vw_measure :: measure
  vw_aggregation :: aggregation
  vw_tag_keys :: "tag_key list"

abbreviation count_view :: "measure \<Rightarrow> view" where
  "count_view m \<equiv> \<lparr>vw_measure = m, vw_aggregation = Count, vw_tag_keys = []\<rparr>"

abbreviation dist_view :: "measure \<Rightarrow> nat list \<Rightarrow> view" where
  "dist_view m bounds \<equiv> \<lparr>vw_measure = m, vw_aggregation = Distribution bounds, vw_tag_keys = []\<rparr>"

text \<open>The variables that hold the views, and the view of each.\<close>

datatype view_var =
    bitswapRequestView
  | bitswapResponseView
  | bitswapRetreiverRequestView
  | blockstoreCacheHitView
  | bytesTransferredView
  | failedRetrievalsPerRequestView
  | requestWithIndexerCandidatesFilteredView
  | requestWithIndexerCandidatesView
  | requestWithSuccessfulQueriesFilteredView
  | requestWithSuccessfulQueriesView
  | indexerCandidatesPerRequestView
  | retrievalDealActiveView
  | retrievalDealCostView
  | retrievalDealDurationView
  | retrievalDealFailView
  | retrievalDealSuccessView
  | retrievalDealSizeView
  | retrievalRequestCountView
  | retrievalErrorPaychView
  | retrievalErrorRejectedView
  | retrievalErrorTooManyView
  | retrievalErrorACLView
  | retrievalErrorMaintenanceView
  | retrievalErrorNoOnlineView
  | retrievalErrorUnconfirmedView
  | retrievalErrorTimeoutView
  | retrievalErrorOtherView
  | successfulQueriesPerRequestFilteredView
  | successfulQueriesPerRequestView
  | queryErrorFailedToDialView
  | queryErrorFailedToOpenStreamView
  | queryErrorResponseEOFView
  | queryErrorResponseStreamResetView
  | queryErrorDAGStoreView
  | queryErrorDealNotFoundView
  | queryErrorOtherView

fun view_of :: "view_var \<Rightarrow> view" where
  "view_of bitswapRequestView = count_view BitswapRequestCountM"
| "view_of bitswapResponseView = \<lparr>vw_measure = BitswapResponseCountM, vw_aggregation = Count, vw_tag_keys = [BitswapTopicTag, BitswapDontHaveReasonTag]\<rparr>"
| "view_of bitswapRetreiverRequestView = count_view BitswapRetrieverRequestCountM"
| "view_of blockstoreCacheHitView = count_view BlockstoreCacheHitCountM"
| "view_of bytesTransferredView = \<lparr>vw_measure = BytesTransferredTotalM, vw_aggregation = Sum, vw_tag_keys = []\<rparr>"
| "view_of failedRetrievalsPerRequestView = dist_view FailedRetrievalsPerRequestCountM [0, 1, 2, 3, 4, 5, 10, 20, 40]"
| "view_of requestWithIndexerCandidatesFilteredView = count_view RequestWithIndexerCandidatesFilteredCountM"
| "view_of requestWithIndexerCandidatesView = count_view RequestWithIndexerCandidatesCountM"
| "view_of requestWithSuccessfulQueriesFilteredView = count_view RequestWithSuccessfulQueriesFilteredCountM"
| "view_of requestWithSuccessfulQueriesView = count_view RequestWithSuccessfulQueriesCountM"
| "view_of indexerCandidatesPerRequestView = dist_view IndexerCandidatesPerRequestCountM [0, 1, 2, 3, 4, 5, 10, 20, 40]"
| "view_of retrievalDealActiveView = count_view RetrievalDealActiveCountM"
| "view_of retrievalDealCostView = dist_view RetrievalDealCostM []"
| "view_of retrievalDealDurationView = dist_view RetrievalDealDurationM [0, 10, 20, 30, 40, 50, 60, 120, 240, 480, 540, 600]"
| "view_of retrievalDealFailView = count_view RetrievalDealFailCountM"
| "view_of retrievalDealSuccessView = count_view RetrievalDealSuccessCountM"
| "view_of retrievalDealSizeView = dist_view RetrievalDealSizeM []"
| "view_of retrievalRequestCountView = count_view RetrievalRequestCountM"
| "view_of retrievalErrorPaychView = count_view RetrievalErrorPaychCountM"
| "view_of retrievalErrorRejectedView = count_view RetrievalErrorRejectedCountM"
| "view_of retrievalErrorTooManyView = count_view RetrievalErrorTooManyCountM"
| "view_of retrievalErrorACLView = count_view RetrievalErrorACLCountM"
| "view_of retrievalErrorMaintenanceView = count_view RetrievalErrorMaintenanceCountM"
| "view_of retrievalErrorNoOnlineView = count_view RetrievalErrorNoOnlineCountM"
| "view_of retrievalErrorUnconfirmedView = count_view RetrievalErrorUnconfirmedCountM"
| "view_of retrievalErrorTimeoutView = count_view RetrievalErrorTimeoutCountM"
| "view_of retrievalErrorOtherView = count_view RetrievalErrorOtherCountM"
| "view_of successfulQueriesPerRequestFilteredView = dist_view SuccessfulQueriesPerRequestFilteredCountM [0, 1, 2, 3, 4, 5, 10, 20, 40]"
| "view_of successfulQueriesPerRequestView = dist_view SuccessfulQueriesPerRequestCountM [0, 1, 2, 3, 4, 5, 10, 20, 40]"
| "view_of queryErrorFailedToDialView = count_view QueryErrorFailedToDialCountM"
| "view_of queryErrorFailedToOpenStreamView = count_view QueryErrorFailedToOpenStreamCountM"
| "view_of queryErrorResponseEOFView = count_view QueryErrorResponseEOFCountM"
| "view_of queryErrorResponseStreamResetView = count_view QueryErrorResponseStreamResetCountM"
| "view_of queryErrorDAGStoreView = count_view QueryErrorDAGStoreCountM"
| "view_of queryErrorDealNotFoundView = count_view QueryErrorDealNotFoundCountM"
| "view_of queryErrorOtherView = count_view QueryErrorOtherCountM"

definition default_views :: "view list" where
  "default_views = map view_of
     [bitswapRequestView,
      bitswapResponseView,
      bitswapRetreiverRequestView,
      blockstoreCacheHitView,
      bytesTransferredView,
      failedRetrievalsPerRequestView,
      requestWithIndexerCandidatesFilteredView,
      requestWithIndexerCandidatesView,
      requestWithSuccessfulQueriesFilteredView,
      requestWithSuccessfulQueriesView,
      indexerCandidatesPerRequestView,
      retrievalDealActiveView,
      retrievalDealCostView,
      retrievalDealDurationView,
      retrievalDealFailView,
      retrievalDealSuccessView,
      retrievalDealSizeView,
      retrievalRequestCountView,
      retrievalErrorPaychView,
      retrievalErrorRejectedView,
      retrievalErrorTooManyView,
      retrievalErrorACLView,
      retrievalErrorMaintenanceView,
      retrievalErrorNoOnlineView,
      retrievalErrorUnconfirmedView,
      retrievalErrorTimeoutView,
      retrievalErrorOtherView,
      successfulQueriesPerRequestFilteredView,
      successfulQueriesPerRequestView,
      queryErrorFailedToDialView,
      queryErrorFailedToOpenStreamView,
      queryErrorResponseEOFView,
      queryErrorResponseStreamResetView,
      queryErrorDAGStoreView,
      queryErrorDealNotFoundView,
      queryErrorOtherView]"

section \<open>The handler\<close>

text \<open>
  \<open>PrometheusHandler\<close>: what it logs, the exporter it returns, which is \<open>nil\<close> after an error, and the
  registry. \<open>reg\<close> is \<open>view.Register\<close>; the exporter gets the default registry when that has the type expected.
\<close>

datatype metrics_log = DefaultViewsFailed go_error | ViewsFailed go_error | RegistryMissing | ExporterFailed go_error

definition prometheus_handler ::
  "('r \<Rightarrow> view list \<Rightarrow> go_error option \<times> 'r) \<Rightarrow> 'p option \<Rightarrow> ('p option \<Rightarrow> string \<Rightarrow> go_error + 'x) \<Rightarrow> view list \<Rightarrow> 'r \<Rightarrow>
   metrics_log list \<times> 'x option \<times> 'r" where
  "prometheus_handler reg default_registry new_exporter views r =
     (let (e1, r1) = reg r default_views;
          (e2, r2) = reg r1 views;
          log1 = (case e1 of None \<Rightarrow> [] | Some e \<Rightarrow> [DefaultViewsFailed e]);
          log2 = (case e2 of None \<Rightarrow> [] | Some e \<Rightarrow> [ViewsFailed e]);
          log3 = (case default_registry of None \<Rightarrow> [RegistryMissing] | Some p \<Rightarrow> [])
      in case new_exporter default_registry ''autoretrieve'' of
           Inl e \<Rightarrow> (log1 @ log2 @ log3 @ [ExporterFailed e], None, r2)
         | Inr x \<Rightarrow> (log1 @ log2 @ log3, Some x, r2))"

section \<open>Registering the views\<close>

text \<open>
  A view without a name of its own is registered under the name of its measure, and an error is
  given only for two different views of one name. \<open>registered\<close> is the set of views of a registry.
\<close>

locale view_registry =
  fixes reg :: "'r \<Rightarrow> view list \<Rightarrow> go_error option \<times> 'r"
    and registered :: "'r \<Rightarrow> view set"
  assumes reg_ok: "\<forall>v \<in> registered r \<union> set vs. \<forall>v' \<in> registered r \<union> set vs.
      measure_name (vw_measure v) = measure_name (vw_measure v') \<longrightarrow> v = v' \<Longrightarrow>
      fst (reg r vs) = None \<and> registered (snd (reg r vs)) = registered r \<union> set vs"
begin

text \<open>Views of pairwise different names can be registered again and again.\<close>

lemma registers_twice:
  assumes "registered r \<subseteq> set vs" and "inj_on (measure_name \<circ> vw_measure) (set vs)"
  shows "fst (reg r vs) = None \<and> registered (snd (reg r vs)) = set vs \<and>
     fst (reg (snd (reg r vs)) vs) = None \<and> registered (snd (reg (snd (reg r vs)) vs)) = set vs"
proof -
  have one: "fst (reg q vs) = None \<and> registered (snd (reg q vs)) = set vs" if "registered q \<subseteq> set vs" for q
    using reg_ok [of q vs] that assms(2) by (auto simp: inj_on_def Un_absorb1)
  with assms(1) show ?thesis by blast
qed

end

text \<open>A registry as a list of views.\<close>

fun register_views :: "view list \<Rightarrow> view list \<Rightarrow> go_error option \<times> view list" where
  "register_views r [] = (None, r)"
| "register_views r (v # vs) =
     (case find (\<lambda>w. measure_name (vw_measure w) = measure_name (vw_measure v)) r of
        None \<Rightarrow> register_views (v # r) vs
      | Some w \<Rightarrow>
          if w = v then register_views r vs
          else (case register_views r vs of (e, r') \<Rightarrow> (Some (Msg ''a different view with the same name is already registered''), r')))"

interpretation view_list: view_registry register_views set
proof
  fix r vs :: "view list"
  assume "\<forall>v \<in> set r \<union> set vs. \<forall>v' \<in> set r \<union> set vs.
      measure_name (vw_measure v) = measure_name (vw_measure v') \<longrightarrow> v = v'"
  then show "fst (register_views r vs) = None \<and> set (snd (register_views r vs)) = set r \<union> set vs"
  proof (induction r vs rule: register_views.induct)
    case (2 r v vs)
    show ?case
    proof (cases "find (\<lambda>w. measure_name (vw_measure w) = measure_name (vw_measure v)) r")
      case None
      with "2.IH"(1) [OF None] "2.prems" show ?thesis by simp
    next
      case (Some w)
      then have "w \<in> set r" "measure_name (vw_measure w) = measure_name (vw_measure v)"
        by (auto simp: find_Some_iff)
      with "2.prems" have "w = v" by auto
      with "2.IH"(2) [OF Some] "2.prems" Some \<open>w \<in> set r\<close> show ?thesis by auto
    qed
  qed simp
qed

section \<open>The default views\<close>

lemma default_names: "inj_on (measure_name \<circ> vw_measure) (set default_views)"
proof -
  have "distinct (map (measure_name \<circ> vw_measure) default_views)" by (simp add: default_views_def)
  then show ?thesis by (simp add: distinct_map)
qed

text \<open>Each measure has one default view.\<close>

lemma one_view_each: "\<exists>!v. v \<in> set default_views \<and> vw_measure v = m"
proof (rule ex_ex1I)
  have "m \<in> vw_measure ` set default_views" by (cases m) (simp_all add: default_views_def)
  then show "\<exists>v. v \<in> set default_views \<and> vw_measure v = m" by auto
  show "\<And>v w. v \<in> set default_views \<and> vw_measure v = m \<Longrightarrow> w \<in> set default_views \<and> vw_measure w = m \<Longrightarrow> v = w"
    using default_names by (auto simp: inj_on_def)
qed

declare view_of.simps [simp del]

section \<open>Properties\<close>

text \<open>C31. The handler exports one view for each measure. With a registry that holds nothing but default views, in any number, the
  handler registers all of them without an error, also when it is called again: no two default views share
  a name, which is that of the measure for each. Afterwards every measure has exactly one registered view. What is
  logged and returned is otherwise decided by the default registry and the exporter: a registry of an unexpected type is only
  logged, and after an error of the exporter the handler is nil.\<close>

theorem metrics_exported:
  assumes "view_registry reg registered" and "registered r \<subseteq> set default_views"
    and "prometheus_handler reg default_registry new_exporter [] r = (log, x, r')"
  shows "registered r' = set default_views \<and> length default_views = 36 \<and>
     (\<forall>m. \<exists>!v. v \<in> registered r' \<and> vw_measure v = m) \<and>
     log = (if default_registry = None then [RegistryMissing] else []) @
       (case new_exporter default_registry ''autoretrieve'' of Inl e \<Rightarrow> [ExporterFailed e] | Inr h \<Rightarrow> []) \<and>
     x = (case new_exporter default_registry ''autoretrieve'' of Inl e \<Rightarrow> None | Inr h \<Rightarrow> Some h)"
proof -
  let ?r1 = "snd (reg r default_views)"
  have one: "fst (reg r default_views) = None" "registered ?r1 = set default_views"
    using view_registry.registers_twice [OF assms(1,2) default_names] by auto
  have "fst (reg ?r1 []) = None \<and> registered (snd (reg ?r1 [])) = set default_views"
    using view_registry.reg_ok [OF assms(1), of ?r1 "[]"] one(2) default_names by (simp add: inj_on_def)
  with one assms(3) one_view_each show ?thesis
    by (cases "new_exporter default_registry ''autoretrieve''"; cases default_registry)
      (simp_all add: prometheus_handler_def split_def Let_def default_views_def)
qed

lemma metrics_exported_witness:
  "\<exists>r'. prometheus_handler register_views (Some ()) (\<lambda>p ns. Inr ns) [] [] = ([], Some ''autoretrieve'', r') \<and>
     set r' = set default_views \<and> (\<exists>!v. v \<in> set r' \<and> vw_measure v = BitswapResponseCountM)"
proof -
  obtain log x r' where run: "prometheus_handler register_views (Some ()) (\<lambda>p ns. Inr ns) [] [] = (log, x, r')" by (metis prod_cases3)
  have "set ([] :: view list) \<subseteq> set default_views" by simp
  note exported = metrics_exported [OF view_list.view_registry_axioms this run]
  then have "\<exists>!v. v \<in> set r' \<and> vw_measure v = BitswapResponseCountM" by blast
  with exported run show ?thesis by (intro exI [of _ r'] conjI) simp_all
qed

end
