(* ===== verification/Message_Pusher.thy ===== *)
theory Message_Pusher
  imports Candidate_Finder
begin

text \<open>
  \<open>MsgPusher\<close> (src/messagepusher/msgpusher.go) signs and pushes messages to the chain and keeps, per key
  address, the nonce of the next message. The gateway and the wallet are parameters, which may
  answer differently at each call.
\<close>

section \<open>Data\<close>

type_synonym nonce = "64 word"

record 'x message =
  m_from :: address
  m_nonce :: nonce
  m_fee_cap :: int
  m_premium :: int
  m_rest :: 'x

record ('x, 'sig) signed_message =
  s_message :: "'x message"
  s_signature :: 'sig

record ('x, 'sig) chain_api =
  state_account_key :: "address \<Rightarrow> go_error + address"
  actor_nonce :: "address \<Rightarrow> go_error + nonce"
  estimate_gas :: "'x message \<Rightarrow> go_error + 'x message"
  wallet_sign :: "address \<Rightarrow> 'x message \<Rightarrow> go_error + 'sig"
  mpool_push :: "('x, 'sig) signed_message \<Rightarrow> go_error option"

type_synonym nonce_map = "address \<rightharpoonup> nonce"

record ('x, 'sig) msg_pusher =
  mp_api :: "('x, 'sig) chain_api"
  mp_nonces :: nonce_map

definition new_msg_pusher :: "('x, 'sig) chain_api \<Rightarrow> ('x, 'sig) msg_pusher" where
  "new_msg_pusher api = \<lparr>mp_api = api, mp_nonces = Map.empty\<rparr>"

definition fee_cap :: int where "fee_cap = 4000000000"

section \<open>Pushing a message\<close>

text \<open>The tracked nonce of a key, read from the chain the first time.\<close>

definition next_nonce :: "('x, 'sig) chain_api \<Rightarrow> address \<Rightarrow> nonce_map \<Rightarrow> (go_error + nonce) \<times> nonce_map" where
  "next_nonce api kaddr nm =
     (case nm kaddr of
        Some n \<Rightarrow> (Inr n, nm)
      | None \<Rightarrow>
          (case actor_nonce api kaddr of
             Inl e \<Rightarrow> (Inl e, nm)
           | Inr n \<Rightarrow> (Inr n, nm(kaddr \<mapsto> n))))"

text \<open>\<open>MpoolPushMessage\<close>: the result, the caller's message, whose nonce is overwritten, and the nonces.\<close>

definition mpool_push_message ::
  "('x, 'sig) chain_api \<Rightarrow> 'x message \<Rightarrow> nonce_map \<Rightarrow>
   (go_error + ('x, 'sig) signed_message) \<times> 'x message \<times> nonce_map" where
  "mpool_push_message api msg nm =
     (case state_account_key api (m_from msg) of
        Inl e \<Rightarrow> (Inl e, msg, nm)
      | Inr kaddr \<Rightarrow>
     (case next_nonce api kaddr nm of
        (Inl e, nm1) \<Rightarrow> (Inl e, msg, nm1)
      | (Inr n, nm1) \<Rightarrow>
     (let msg1 = msg\<lparr>m_nonce := n\<rparr>
      in case estimate_gas api msg1 of
           Inl e \<Rightarrow> (Inl (Wrapped ''failed to estimate gas'' e), msg1, nm1)
         | Inr estim \<Rightarrow>
     (let estim1 = estim\<lparr>m_fee_cap := fee_cap, m_premium := m_premium estim * 2\<rparr>
      in case wallet_sign api kaddr estim1 of
           Inl e \<Rightarrow> (Inl e, msg1, nm1)
         | Inr sig \<Rightarrow>
     (let smsg = \<lparr>s_message = estim1, s_signature = sig\<rparr>
      in case mpool_push api smsg of
           Some e \<Rightarrow> (Inl e, msg1, nm1)
         | None \<Rightarrow> (Inr smsg, msg1, nm1(kaddr \<mapsto> the (nm1 kaddr) + 1)))))))"

text \<open>A sequence of pushes, each with the gateway as it answers at that call: the nonces of the messages
  pushed for one key, in order, and the final state. The lock of the code makes calls sequential.\<close>

fun push_all ::
  "address \<Rightarrow> (('x, 'sig) chain_api \<times> 'x message) list \<Rightarrow> nonce_map \<Rightarrow> nonce list \<times> nonce_map" where
  "push_all k [] nm = ([], nm)"
| "push_all k ((api, msg) # calls) nm =
     (case mpool_push_message api msg nm of
        (r, msg1, nm1) \<Rightarrow>
          (let (ns, nm2) = push_all k calls nm1
           in ((case r of
                  Inl e \<Rightarrow> []
                | Inr smsg \<Rightarrow> if state_account_key api (m_from msg) = Inr k then [m_nonce (s_message smsg)] else []) @ ns,
               nm2)))"

section \<open>What one push does\<close>

lemma next_nonce_result:
  assumes "next_nonce api kaddr nm = (r, nm1)"
  shows "(\<forall>k. k \<noteq> kaddr \<longrightarrow> nm1 k = nm k) \<and> (\<forall>n. nm kaddr = Some n \<longrightarrow> nm1 = nm) \<and>
     (\<forall>n. r = Inr n \<longrightarrow> nm1 kaddr = Some n)"
  using assms by (auto simp: next_nonce_def split: option.splits sum.splits)

definition keeps_nonce :: "('x, 'sig) chain_api \<Rightarrow> bool" where
  "keeps_nonce api \<longleftrightarrow> (\<forall>m m'. estimate_gas api m = Inr m' \<longrightarrow> m_nonce m' = m_nonce m)"

lemma push_ok:
  assumes "mpool_push_message api msg nm = (Inr smsg, msg1, nm')" and "keeps_nonce api"
  shows "\<exists>kaddr n. state_account_key api (m_from msg) = Inr kaddr \<and> m_nonce (s_message smsg) = n \<and>
     (\<forall>k. k \<noteq> kaddr \<longrightarrow> nm' k = nm k) \<and> (\<forall>n'. nm kaddr = Some n' \<longrightarrow> n' = n) \<and> nm' kaddr = Some (n + 1)"
proof -
  obtain kaddr n nm1 estim where parts: "state_account_key api (m_from msg) = Inr kaddr"
    "next_nonce api kaddr nm = (Inr n, nm1)" "estimate_gas api (msg\<lparr>m_nonce := n\<rparr>) = Inr estim"
    "s_message smsg = estim\<lparr>m_fee_cap := fee_cap, m_premium := m_premium estim * 2\<rparr>"
    "nm' = nm1(kaddr \<mapsto> the (nm1 kaddr) + 1)"
    using assms(1) by (auto simp: mpool_push_message_def Let_def split: sum.splits prod.splits option.splits)
  have "m_nonce estim = n" using assms(2) parts(3) by (fastforce simp: keeps_nonce_def)
  with parts next_nonce_result [OF parts(2)] show ?thesis by auto
qed

lemma push_failed:
  assumes "mpool_push_message api msg nm = (Inl e, msg1, nm')"
  shows "\<forall>k n. nm k = Some n \<longrightarrow> nm' k = Some n"
proof -
  have "nm' = nm \<or> (\<exists>kaddr r. next_nonce api kaddr nm = (r, nm'))"
    using assms by (auto simp: mpool_push_message_def Let_def split: sum.splits prod.splits option.splits)
  then show ?thesis
  proof
    assume "\<exists>kaddr r. next_nonce api kaddr nm = (r, nm')"
    then obtain kaddr r where r: "next_nonce api kaddr nm = (r, nm')" by blast
    show ?thesis
    proof (intro allI impI)
      fix k n assume "nm k = Some n"
      with next_nonce_result [OF r] show "nm' k = Some n" by (cases "k = kaddr") auto
    qed
  qed simp
qed

lemma push_all_nonces:
  assumes "\<forall>(api, msg) \<in> set calls. keeps_nonce api" and "push_all k calls nm = (ns, nm')"
  shows "\<exists>start. (\<forall>n. nm k = Some n \<longrightarrow> start = n) \<and> ns = map (\<lambda>i. start + word_of_nat i) [0..<length ns] \<and>
     (ns \<noteq> [] \<or> nm k \<noteq> None \<longrightarrow> nm' k = Some (start + word_of_nat (length ns)))"
  using assms
proof (induction k calls nm arbitrary: ns nm' rule: push_all.induct)
  case (1 k nm)
  then show ?case by (cases "nm k") auto
next
  case (2 k api msg calls nm)
  obtain r msg1 nm1 where one: "mpool_push_message api msg nm = (r, msg1, nm1)"
    by (cases "mpool_push_message api msg nm")
  obtain ns2 nm2 where rest: "push_all k calls nm1 = (ns2, nm2)" by (cases "push_all k calls nm1")
  from "2.prems"(1) have later: "\<forall>(api, msg) \<in> set calls. keeps_nonce api" and kn: "keeps_nonce api" by simp_all
  from "2.IH" [OF one [symmetric] refl later rest] obtain start where start:
    "\<forall>n. nm1 k = Some n \<longrightarrow> start = n" "ns2 = map (\<lambda>i. start + word_of_nat i) [0..<length ns2]"
    "ns2 \<noteq> [] \<or> nm1 k \<noteq> None \<longrightarrow> nm2 k = Some (start + word_of_nat (length ns2))" by blast
  have nm': "nm' = nm2" using "2.prems"(2) one rest by simp
  show ?case
  proof (cases "\<exists>smsg. r = Inr smsg \<and> state_account_key api (m_from msg) = Inr k")
    case False
    then have ns: "ns = ns2" using "2.prems"(2) one rest by (auto split: sum.splits)
    have keep: "nm k = Some n \<Longrightarrow> nm1 k = Some n" for n
    proof (cases r)
      case (Inl e)
      with push_failed [of api msg nm e msg1 nm1] one show "nm k = Some n \<Longrightarrow> nm1 k = Some n" by simp
    next
      case (Inr smsg)
      with push_ok [OF one [unfolded Inr] kn] False show "nm k = Some n \<Longrightarrow> nm1 k = Some n" by auto
    qed
    with start ns nm' show ?thesis by (intro exI [of _ start]) auto
  next
    case True
    then obtain smsg where smsg: "r = Inr smsg" "state_account_key api (m_from msg) = Inr k" by blast
    let ?n = "m_nonce (s_message smsg)"
    have ns: "ns = ?n # ns2" using "2.prems"(2) one rest smsg by simp
    from push_ok [OF one [unfolded smsg(1)] kn] smsg(2)
    have now: "\<forall>n. nm k = Some n \<longrightarrow> n = ?n" "nm1 k = Some (?n + 1)" by auto
    with start(1) have "start = ?n + 1" by blast
    then have "map (\<lambda>i. ?n + word_of_nat i) [0..<length ns] =
        ?n # map (\<lambda>i. start + word_of_nat i) [0..<length ns2]"
      unfolding ns by (simp add: map_upt_Suc algebra_simps del: upt_Suc)
    also have "\<dots> = ns" unfolding ns start(2) [symmetric] by (rule refl)
    finally have "ns = map (\<lambda>i. ?n + word_of_nat i) [0..<length ns]" by (rule sym)
    moreover have "nm' k = Some (?n + word_of_nat (length ns))"
      using start(3) now(2) \<open>start = ?n + 1\<close> nm' ns by (simp add: algebra_simps)
    ultimately show ?thesis using now(1) by (intro exI [of _ ?n]) auto
  qed
qed

section \<open>Properties\<close>

text \<open>C34. Nonces are consecutive. Whatever the order of calls, the keys they are for and the failures
  between them, the messages pushed successfully for one key carry consecutive nonces (modulo
  \<open>2 ^ 64\<close>), starting at the tracked nonce of the key, or when there is none at some nonce read from
  the chain; a failed push uses up no nonce. The one thing asked of the gateway is that
  estimating the gas of a message does not change its nonce.\<close>

theorem nonces_consecutive:
  assumes "\<forall>(api, msg) \<in> set calls. keeps_nonce api" and "push_all k calls nm = (ns, nm')"
  shows "\<exists>start. (\<forall>n. nm k = Some n \<longrightarrow> start = n) \<and> ns = map (\<lambda>i. start + word_of_nat i) [0..<length ns] \<and>
     (ns \<noteq> [] \<or> nm k \<noteq> None \<longrightarrow> nm' k = Some (start + word_of_nat (length ns)))"
  using assms by (rule push_all_nonces)

definition demo_chain :: "bool \<Rightarrow> (unit, unit) chain_api" where
  "demo_chain works = \<lparr>state_account_key = (\<lambda>a. Inr a), actor_nonce = (\<lambda>a. Inr 41),
     estimate_gas = (\<lambda>m. Inr (m\<lparr>m_premium := 3000000000\<rparr>)), wallet_sign = (\<lambda>a m. Inr ()),
     mpool_push = (\<lambda>m. if works then None else Some (Msg ''mpool full''))\<rparr>"

definition demo_message :: "unit message" where
  "demo_message = \<lparr>m_from = ''f1'', m_nonce = 0, m_fee_cap = 0, m_premium = 0, m_rest = ()\<rparr>"

definition demo_calls :: "((unit, unit) chain_api \<times> unit message) list" where
  "demo_calls = [(demo_chain True, demo_message), (demo_chain False, demo_message), (demo_chain True, demo_message)]"

lemma demo_push:
  "push_all ''f1'' demo_calls Map.empty = ([41, 42], [''f1'' \<mapsto> 43])"
  by (simp add: demo_calls_def demo_chain_def demo_message_def mpool_push_message_def next_nonce_def)

lemma nonces_consecutive_witness:
  "\<exists>start. [41, 42 :: nonce] = map (\<lambda>i. start + word_of_nat i) [0..<2] \<and>
     snd (push_all ''f1'' demo_calls Map.empty) ''f1'' = Some (start + 2)"
proof -
  have "\<forall>(api, msg) \<in> set demo_calls. keeps_nonce api"
    by (auto simp: demo_calls_def demo_chain_def keeps_nonce_def)
  from nonces_consecutive [OF this demo_push] show ?thesis
    by (auto simp: demo_push upt_conv_Cons)
qed

text \<open>A pushed message can offer a premium above its own fee cap. The pusher fixes the fee cap at
  4 nanoFIL and doubles the premium the gateway estimated; when the estimate is above 2 nanoFIL,
  the message it signs and pushes has \<open>GasPremium > GasFeeCap\<close>, which the network's message
  rules do not allow.\<close>

lemma premium_above_fee_cap:
  assumes "state_account_key api (m_from msg) = Inr kaddr" and "nm kaddr = Some n"
    and "estimate_gas api (msg\<lparr>m_nonce := n\<rparr>) = Inr estim" and "2000000000 < m_premium estim"
    and "mpool_push_message api msg nm = (Inr smsg, msg1, nm')"
  shows "m_fee_cap (s_message smsg) < m_premium (s_message smsg)"
  using assms
  by (auto simp: mpool_push_message_def next_nonce_def Let_def fee_cap_def split: sum.splits option.splits)

end
