(* ===== verification/Pay_Channels.thy ===== *)
theory Pay_Channels
  imports Message_Pusher
begin

text \<open>
  Payment channels: \<open>LassiePayChannelManager\<close> (src/paychannelmanager/lassiepaychannelmanager.go), which
  finds or makes the channel a retrieval is paid from, and \<open>payChannelApiProvider\<close>
  (src/paychannelapi.go), which hands the chain and wallet operations on. Lotus' \<open>paychmgr.Manager\<close>
  is a parameter, a record of its operations on a state of its own; amounts are attoFIL.
\<close>

section \<open>The manager\<close>

record available_funds =
  af_channel :: "address option"
  af_confirmed :: int

record 'v voucher_result =
  vr_voucher :: "'v option"
  vr_shortfall :: int

text \<open>Pointers that the Lotus manager returns are options; the second result of \<open>GetPaych\<close> is the message
  identifier, \<open>None\<close> when it is undefined.\<close>

record ('s, 'v) paych_manager =
  pm_available_funds :: "address \<Rightarrow> address \<Rightarrow> 's \<Rightarrow> available_funds option \<times> go_error option"
  pm_create_voucher :: "address \<Rightarrow> 'v \<Rightarrow> 's \<Rightarrow> ('v voucher_result option \<times> go_error option) \<times> 's"
  pm_get_paych :: "address \<Rightarrow> address \<Rightarrow> int \<Rightarrow> bool \<Rightarrow> bool \<Rightarrow> 's \<Rightarrow> (go_error + address \<times> cid option) \<times> 's"
  pm_wait_ready :: "cid \<Rightarrow> 's \<Rightarrow> (go_error + address) \<times> 's"

record ('s, 'v) lassie_manager =
  lm_manager :: "('s, 'v) paych_manager"
  lm_client_address :: address

definition new_lassie_manager :: "('s, 'v) paych_manager \<Rightarrow> ('s, 'v) lassie_manager" where
  "new_lassie_manager pm = \<lparr>lm_manager = pm, lm_client_address = undef_address\<rparr>"

definition create_voucher ::
  "('s, 'v) lassie_manager \<Rightarrow> address \<Rightarrow> 'v \<Rightarrow> 's \<Rightarrow> ('v option \<times> int \<times> go_error option) outcome \<times> 's" where
  "create_voucher lm ch v s =
     (case pm_create_voucher (lm_manager lm) ch v s of
        ((result, err), s') \<Rightarrow>
          (case deref result of
             Panics m \<Rightarrow> (Panics m, s')
           | Returns r \<Rightarrow> (Returns (vr_voucher r, vr_shortfall r, err), s')))"

definition pay_channel_with_min_funds ::
  "(string \<Rightarrow> go_error + int) \<Rightarrow> ('s, 'v) lassie_manager \<Rightarrow> address \<Rightarrow> 's \<Rightarrow> (go_error + address) outcome \<times> 's" where
  "pay_channel_with_min_funds parse_fil lm dest s =
     (let pm = lm_manager lm; from_addr = lm_client_address lm
      in case pm_available_funds pm from_addr dest s of
           (avail, Some e) \<Rightarrow> (Returns (Inl e), s)
         | (avail, None) \<Rightarrow>
        (case parse_fil ''0.01'' of
           Inl e \<Rightarrow> (Returns (Inl e), s)
         | Inr req \<Rightarrow>
        (case deref avail of
           Panics m \<Rightarrow> (Panics m, s)
         | Returns av \<Rightarrow>
             if req \<le> af_confirmed av
             then (case deref (af_channel av) of Panics m \<Rightarrow> (Panics m, s) | Returns ch \<Rightarrow> (Returns (Inr ch), s))
             else
        (case pm_get_paych pm from_addr dest (req * 2) False False s of
           (Inl e, s') \<Rightarrow> (Returns (Inl (Wrapped ''failed to get payment channel'' e)), s')
         | (Inr (pchaddr, None), s') \<Rightarrow>
             (if pchaddr = undef_address then (Returns (Inl (Msg ''GetPaych returned nothing'')), s')
              else (Returns (Inr pchaddr), s'))
         | (Inr (pchaddr, Some mcid), s') \<Rightarrow>
             (case pm_wait_ready pm mcid s' of (r, s'') \<Rightarrow> (Returns r, s''))))))"

section \<open>The API provider\<close>

text \<open>The maximal fee is passed on and not used; a wallet signs with the type of message unknown.\<close>

datatype msg_type = MTUnknown | MTChainMsg | MTBlock | MTDealProposal

record 'sig local_wallet =
  lw_has :: "address \<Rightarrow> go_error + bool"
  lw_sign :: "address \<Rightarrow> bytes \<Rightarrow> msg_type \<Rightarrow> go_error + 'sig"

record ('x, 'sig) api_provider =
  ap_wallet :: "'sig local_wallet"
  ap_chain :: "('x, 'sig) chain_api"

definition provider_push ::
  "('x, 'sig) api_provider \<Rightarrow> 'x message \<Rightarrow> 'fee \<Rightarrow> nonce_map \<Rightarrow>
   (go_error + ('x, 'sig) signed_message) \<times> 'x message \<times> nonce_map" where
  "provider_push ap msg max_fee nm = mpool_push_message (ap_chain ap) msg nm"

definition provider_wallet_has :: "('x, 'sig) api_provider \<Rightarrow> address \<Rightarrow> go_error + bool" where
  "provider_wallet_has ap a = lw_has (ap_wallet ap) a"

definition provider_wallet_sign :: "('x, 'sig) api_provider \<Rightarrow> address \<Rightarrow> bytes \<Rightarrow> go_error + 'sig" where
  "provider_wallet_sign ap a d = lw_sign (ap_wallet ap) a d MTUnknown"

section \<open>Properties\<close>

text \<open>What the manager must be asked, and answer, for an address to be given out.\<close>

definition channel_grounds ::
  "('s, 'v) lassie_manager \<Rightarrow> int \<Rightarrow> address \<Rightarrow> 's \<Rightarrow> address \<Rightarrow> 's \<Rightarrow> bool" where
  "channel_grounds lm req dest s ch s' \<longleftrightarrow>
     (\<exists>av. pm_available_funds (lm_manager lm) (lm_client_address lm) dest s = (Some av, None) \<and>
        (if req \<le> af_confirmed av then af_channel av = Some ch \<and> s' = s
         else \<exists>s1 addr mc. pm_get_paych (lm_manager lm) (lm_client_address lm) dest (2 * req) False False s = (Inr (addr, mc), s1) \<and>
                (case mc of None \<Rightarrow> addr = ch \<and> ch \<noteq> undef_address \<and> s' = s1
                 | Some c \<Rightarrow> pm_wait_ready (lm_manager lm) c s1 = (Inr ch, s'))))"

text \<open>C32. The channel to pay from. Let the required balance parse as \<open>req\<close>. An address is given out exactly when the
  manager reports the channel's funds and either at least \<open>req\<close> is confirmed and the address is
  that channel, with no further call, or less is confirmed and one \<open>GetPaych\<close> for twice \<open>req\<close>, on chain and
  not reserved, gave the address, or gave a message whose channel became ready. The call panics exactly
  when the manager reports no error and no funds, or enough funds in no channel.\<close>

theorem pay_channel_correct:
  assumes "parse_fil ''0.01'' = Inr req"
  shows "(pay_channel_with_min_funds parse_fil lm dest s = (Returns (Inr ch), s') \<longleftrightarrow> channel_grounds lm req dest s ch s') \<and>
     ((\<exists>m. fst (pay_channel_with_min_funds parse_fil lm dest s) = Panics m) \<longleftrightarrow>
        (\<exists>avail. pm_available_funds (lm_manager lm) (lm_client_address lm) dest s = (avail, None) \<and>
           (avail = None \<or> (\<exists>av. avail = Some av \<and> req \<le> af_confirmed av \<and> af_channel av = None))))"
proof -
  let ?pm = "lm_manager lm" and ?from = "lm_client_address lm"
  obtain avail err where av: "pm_available_funds ?pm ?from dest s = (avail, err)"
    by (cases "pm_available_funds ?pm ?from dest s")
  obtain r s1 where paid: "pm_get_paych ?pm ?from dest (req * 2) False False s = (r, s1)"
    by (cases "pm_get_paych ?pm ?from dest (req * 2) False False s")
  note parts = pay_channel_with_min_funds_def channel_grounds_def deref_def Let_def assms av paid mult.commute [of 2]
  show ?thesis
  proof (cases err)
    case (Some e)
    then show ?thesis by (simp add: parts)
  next
    case ok: None
    show ?thesis
    proof (cases avail)
      case None
      with ok show ?thesis by (simp add: parts)
    next
      case funds: (Some f)
      show ?thesis
      proof (cases "req \<le> af_confirmed f")
        case True
        with ok funds show ?thesis by (cases "af_channel f") (auto simp: parts)
      next
        case False
        show ?thesis
        proof (cases r)
          case (Inl e)
          with ok funds False show ?thesis by (simp add: parts)
        next
          case (Inr x)
          with ok funds False show ?thesis
            by (cases x; cases "snd x"; cases "fst x = undef_address") (auto simp: parts split: prod.splits)
        qed
      qed
    qed
  qed
qed

text \<open>A voucher that cannot be created crashes the caller. \<open>CreateVoucher\<close> reads the fields of the manager's
  result before anyone looks at its error: when the manager follows the Go convention of a \<open>nil\<close> result
  with an error, every failure of it is a panic here and the error never reaches the caller; a success is
  passed on.\<close>

lemma create_voucher_panics_on_error:
  assumes "\<forall>v s. snd (fst (pm_create_voucher (lm_manager lm) ch v s)) = None \<longleftrightarrow>
     fst (fst (pm_create_voucher (lm_manager lm) ch v s)) \<noteq> None"
  shows "((\<exists>m. fst (create_voucher lm ch v s) = Panics m) \<longleftrightarrow>
       snd (fst (pm_create_voucher (lm_manager lm) ch v s)) \<noteq> None) \<and>
     (\<forall>v' short err. fst (create_voucher lm ch v s) = Returns (v', short, err) \<longrightarrow>
       err = None \<and> (\<exists>r. fst (fst (pm_create_voucher (lm_manager lm) ch v s)) = Some r \<and>
         v' = vr_voucher r \<and> short = vr_shortfall r))"
  using assms [rule_format, of v s]
  by (auto simp: create_voucher_def deref_def split: prod.splits option.splits)

definition demo_manager :: "int \<Rightarrow> (nat, nat) paych_manager" where
  "demo_manager confirmed =
     \<lparr>pm_available_funds = (\<lambda>f t s. (Some \<lparr>af_channel = Some ''t0100'', af_confirmed = confirmed\<rparr>, None)),
      pm_create_voucher = (\<lambda>ch v s. if v = 0 then ((None, Some (Msg ''no channel'')), s)
         else ((Some \<lparr>vr_voucher = Some v, vr_shortfall = 0\<rparr>, None), Suc s)),
      pm_get_paych = (\<lambda>f t n r off s. (Inr ([], Some (Cid ''msg'')), Suc s)),
      pm_wait_ready = (\<lambda>c s. (Inr ''t0200'', s))\<rparr>"

definition demo_fil :: "string \<Rightarrow> go_error + int" where
  "demo_fil t = (if t = ''0.01'' then Inr (10 ^ 16) else Inl (Msg ''not a FIL amount''))"

lemma pay_channel_correct_witness:
  "pay_channel_with_min_funds demo_fil (new_lassie_manager (demo_manager 5)) ''f0'' 7 = (Returns (Inr ''t0200''), 8) \<and>
   pay_channel_with_min_funds demo_fil (new_lassie_manager (demo_manager (10 ^ 17))) ''f0'' 7 = (Returns (Inr ''t0100''), 7)"
proof -
  have "demo_fil ''0.01'' = Inr (10 ^ 16)" by (simp add: demo_fil_def)
  note correct = pay_channel_correct [of demo_fil, OF this, THEN conjunct1]
  have "channel_grounds (new_lassie_manager (demo_manager 5)) (10 ^ 16) ''f0'' 7 ''t0200'' 8"
    "channel_grounds (new_lassie_manager (demo_manager (10 ^ 17))) (10 ^ 16) ''f0'' 7 ''t0100'' 7"
    by (simp_all add: channel_grounds_def new_lassie_manager_def demo_manager_def)
  then show ?thesis by (simp add: correct)
qed

text \<open>A manager made by the constructor only ever asks about the undefined address.\<close>

lemma constructed_manager_pays_from_undefined:
  assumes "\<forall>d s. pm_available_funds pm undef_address d s = pm_available_funds pm2 undef_address d s"
    and "\<forall>d n r off s. pm_get_paych pm undef_address d n r off s = pm_get_paych pm2 undef_address d n r off s"
    and "pm_wait_ready pm = pm_wait_ready pm2"
  shows "pay_channel_with_min_funds parse_fil (new_lassie_manager pm) dest s =
     pay_channel_with_min_funds parse_fil (new_lassie_manager pm2) dest s"
proof -
  have funds: "pm_available_funds pm undef_address = pm_available_funds pm2 undef_address"
    and paych: "pm_get_paych pm undef_address = pm_get_paych pm2 undef_address"
    by (intro ext; use assms in simp)+
  show ?thesis
    unfolding pay_channel_with_min_funds_def new_lassie_manager_def Let_def lassie_manager.select_convs funds paych assms(3)
    by (rule refl)
qed

end
