(* ===== verification/Check_Cid.thy ===== *)
theory Check_Cid
  imports Config
begin

text \<open>
  The command \<open>check-cid\<close> (\<open>cmdTestBlockstore\<close> in src/main.go), which walks the graph below an
  identifier through the local blockstore and prints its size and whether it is complete. The
  blockstore, the DAG service and the walk of the package \<open>merkledag\<close> are parameters; the walk gets the
  two closures of the command, as functions on the variables they capture.
\<close>

section \<open>The closures\<close>

text \<open>What the closures share: the size, the count, the completeness flag, the visited set, and the errors
  printed so far.\<close>

record walk_vars =
  wv_size :: "64 word"
  wv_count :: "64 word"
  wv_complete :: bool
  wv_visited :: "cid list"
  wv_errors :: "go_error list"

definition start_vars :: walk_vars where
  "start_vars = \<lparr>wv_size = 0, wv_count = 0, wv_complete = True, wv_visited = [], wv_errors = []\<rparr>"

definition get_links :: "(cid \<Rightarrow> go_error + cid list) \<Rightarrow> (cid \<Rightarrow> bool) \<Rightarrow> cid \<Rightarrow> go_error + cid list" where
  "get_links dag_get is_raw c =
     (case dag_get c of Inl e \<Rightarrow> Inl e | Inr links \<Rightarrow> if is_raw c then Inr [] else Inr links)"

definition visit :: "'s blockstore \<Rightarrow> 's \<Rightarrow> cid \<Rightarrow> walk_vars \<Rightarrow> bool \<times> walk_vars" where
  "visit bs s c v =
     (case bs_get_size bs s c of
        Inl e \<Rightarrow> (False, v\<lparr>wv_complete := False, wv_errors := wv_errors v @ [e]\<rparr>)
      | Inr n \<Rightarrow>
          (let v1 = v\<lparr>wv_size := wv_size v + word_of_int n, wv_count := wv_count v + 1\<rparr>
           in if c \<in> set (wv_visited v1) then (False, v1)
              else (True, v1\<lparr>wv_visited := wv_visited v1 @ [c]\<rparr>)))"

section \<open>The command\<close>

record check_report =
  cr_failed :: "go_error option"
  cr_size :: "64 word"
  cr_count :: "64 word"
  cr_complete :: bool
  cr_errors :: "go_error list"

text \<open>A walk may not return, which is \<open>None\<close>.\<close>

type_synonym 'v dag_walk =
  "(cid \<Rightarrow> go_error + cid list) \<Rightarrow> (cid \<Rightarrow> 'v \<Rightarrow> bool \<times> 'v) \<Rightarrow> cid \<Rightarrow> 'v \<Rightarrow> (go_error option \<times> 'v) option"

record 's check_env =
  ce_open :: "string \<Rightarrow> go_error + 's"
  ce_parse :: "string \<Rightarrow> go_error + cid"
  ce_dag_get :: "'s \<Rightarrow> cid \<Rightarrow> go_error + cid list"
  ce_is_raw :: "cid \<Rightarrow> bool"
  ce_walk :: "walk_vars dag_walk"

definition cmd_test_blockstore ::
  "'s check_env \<Rightarrow> 's blockstore \<Rightarrow> cli \<Rightarrow> string \<Rightarrow> (go_error + check_report) option" where
  "cmd_test_blockstore ce bs cl arg =
     (case ce_open ce (path_join [data_dir_path cl, ''blockstore'']) of
        Inl e \<Rightarrow> Some (Inl e)
      | Inr s \<Rightarrow>
     (case ce_parse ce arg of
        Inl e \<Rightarrow> Some (Inl e)
      | Inr c \<Rightarrow>
          (let mgr = (fst (new_manager s 0) :: ('s, unit) manager)
           in case ce_walk ce (get_links (ce_dag_get ce (inner mgr)) (ce_is_raw ce)) (visit bs (inner mgr)) c start_vars of
                None \<Rightarrow> None
              | Some (err, v) \<Rightarrow>
                  Some (Inr \<lparr>cr_failed = err, cr_size = wv_size v, cr_count = wv_count v,
                             cr_complete = wv_complete v, cr_errors = wv_errors v\<rparr>))))"

section \<open>The walk in depth-first order\<close>

text \<open>
  What the documentation of the walk promises: it goes depth first from the root, asks \<open>visit\<close> at every
  node it comes to, does not go below a node that is refused, and stops at the first error of
  \<open>get_links\<close>. The stack holds the nodes to come.
\<close>

partial_function (option) depth_first ::
  "(cid \<Rightarrow> go_error + cid list) \<Rightarrow> (cid \<Rightarrow> 'v \<Rightarrow> bool \<times> 'v) \<Rightarrow> cid list \<Rightarrow> 'v \<Rightarrow> (go_error option \<times> 'v) option" where
  "depth_first links vis stack v =
     (case stack of
        [] \<Rightarrow> Some (None, v)
      | c # cs \<Rightarrow>
          (let (deeper, v') = vis c v
           in if deeper
              then (case links c of
                      Inl e \<Rightarrow> Some (Some e, v')
                    | Inr ls \<Rightarrow> depth_first links vis (ls @ cs) v')
              else depth_first links vis cs v'))"

definition walks_depth_first :: "'v dag_walk \<Rightarrow> bool" where
  "walks_depth_first walk \<longleftrightarrow> (\<forall>links vis c v. walk links vis c v = depth_first links vis [c] v)"

text \<open>The identifiers below a root, through the nodes that can be read.\<close>

inductive below :: "(cid \<Rightarrow> go_error + cid list) \<Rightarrow> cid \<Rightarrow> cid \<Rightarrow> bool" for links root where
  root: "below links root root"
| link: "below links root c \<Longrightarrow> links c = Inr ls \<Longrightarrow> d \<in> set ls \<Longrightarrow> below links root d"

section \<open>What a walk does\<close>

lemma visit_refused:
  "visit bs s c v = (False, v') \<Longrightarrow> wv_visited v' = wv_visited v \<and>
     (wv_complete v' \<longrightarrow> wv_complete v \<and> c \<in> set (wv_visited v) \<and> wv_count v' = wv_count v + 1)"
  by (auto simp: visit_def Let_def split: sum.splits if_splits)

lemma visit_entered:
  "visit bs s c v = (True, v') \<Longrightarrow> \<exists>n. bs_get_size bs s c = Inr n \<and> c \<notin> set (wv_visited v) \<and>
     wv_visited v' = wv_visited v @ [c] \<and> wv_complete v' = wv_complete v \<and> wv_count v' = wv_count v + 1"
  by (auto simp: visit_def Let_def split: sum.splits if_splits)

context block_store
begin

text \<open>The walk returns: each node that is entered is held by the store and was not entered before.\<close>

lemma walk_returns: "\<exists>r v'. depth_first links (visit bs s) stack v = Some (r, v')"
proof (induction "card (dom (contents s) - set (wv_visited v))" arbitrary: stack v rule: less_induct)
  case (less v stack)
  note smaller = less
  show ?case
    using smaller
  proof (induction stack arbitrary: v)
    case Nil
    then show ?case by (simp add: depth_first.simps)
  next
    case (Cons c cs)
    obtain deeper v1 where vis: "visit bs s c v = (deeper, v1)" by (cases "visit bs s c v")
    show ?case
    proof (cases deeper)
      case False
      with vis have "wv_visited v1 = wv_visited v" using visit_refused [of bs s c v v1] by simp
      with Cons.IH [of v1] Cons.prems vis False show ?thesis by (simp add: depth_first.simps [of _ _ "c # cs"])
    next
      case True
      with vis visit_entered [of bs s c v v1] obtain n where
        n: "bs_get_size bs s c = Inr n" "c \<notin> set (wv_visited v)" "wv_visited v1 = wv_visited v @ [c]" by auto
      have "c \<in> dom (contents s) - set (wv_visited v)" using n get_size_dom by auto
      then have "card (dom (contents s) - set (wv_visited v1)) < card (dom (contents s) - set (wv_visited v))"
        unfolding n(3) by (intro psubset_card_mono) (auto simp: finite_contents)
      then have "\<exists>r v'. depth_first links (visit bs s) (ls @ cs) v1 = Some (r, v')" for ls
        by (rule Cons.prems)
      with vis True show ?thesis
        by (cases "links c") (simp_all add: depth_first.simps [of _ _ "c # cs"])
    qed
  qed
qed

end

text \<open>What a walk that returns has done is shown by induction on its steps.\<close>

lemma depth_first_induct [consumes 1, case_names empty refused failed entered]:
  assumes "depth_first links vis stack v = Some (r, v')"
    and "\<And>v. P [] v None v"
    and "\<And>c cs v v1 r v'. vis c v = (False, v1) \<Longrightarrow> P cs v1 r v' \<Longrightarrow> P (c # cs) v r v'"
    and "\<And>c cs v v1 e. vis c v = (True, v1) \<Longrightarrow> links c = Inl e \<Longrightarrow> P (c # cs) v (Some e) v1"
    and "\<And>c cs v v1 ls r v'. vis c v = (True, v1) \<Longrightarrow> links c = Inr ls \<Longrightarrow> P (ls @ cs) v1 r v' \<Longrightarrow> P (c # cs) v r v'"
  shows "P stack v r v'"
proof -
  have "lk = links \<longrightarrow> vs = vis \<longrightarrow> P st w (fst y) (snd y)" if "depth_first lk vs st w = Some y" for lk vs st w y
    using that
  proof (rule depth_first.raw_induct [rotated])
    fix df lk vs st w y
    assume IH: "\<And>lk vs st w y. df lk vs st w = Some y \<Longrightarrow> lk = links \<longrightarrow> vs = vis \<longrightarrow> P st w (fst y) (snd y)"
      and eq: "(case st of [] \<Rightarrow> Some (None, w)
        | c # cs \<Rightarrow> let (deeper, v') = vs c w in
            if deeper then case lk c of Inl e \<Rightarrow> Some (Some e, v') | Inr ls \<Rightarrow> df lk vs (ls @ cs) v'
            else df lk vs cs v') = Some y"
    show "lk = links \<longrightarrow> vs = vis \<longrightarrow> P st w (fst y) (snd y)"
    proof (intro impI)
      assume "lk = links" "vs = vis"
      with eq IH assms(2-5) show "P st w (fst y) (snd y)"
        by (cases st) (auto split: prod.splits if_splits sum.splits)
    qed
  qed
  from this [OF assms(1)] show ?thesis by simp
qed

text \<open>The nodes that a walk enters, in order, and what it counts.\<close>

lemma below_trans: "below links d c \<Longrightarrow> below links root d \<Longrightarrow> below links root c"
  by (induction rule: below.induct) (auto intro: below.link)

lemma walk_visits:
  "depth_first links (visit bs s) stack v = Some (r, v') \<Longrightarrow>
     \<exists>new. wv_visited v' = wv_visited v @ new \<and> (wv_complete v' \<longrightarrow> wv_complete v) \<and>
       (\<forall>c \<in> set new. (\<exists>n. bs_get_size bs s c = Inr n) \<and> c \<notin> set (wv_visited v) \<and> (\<exists>d \<in> set stack. below links d c)) \<and>
       distinct new \<and>
       (\<forall>e. r = Some e \<longrightarrow> (\<exists>c \<in> set new. links c = Inl e)) \<and>
       (r = None \<and> wv_complete v' \<longrightarrow>
          set stack \<subseteq> set (wv_visited v') \<and>
          (\<forall>c \<in> set new. \<exists>ls. links c = Inr ls \<and> set ls \<subseteq> set (wv_visited v')) \<and>
          wv_count v' = wv_count v + word_of_nat (length stack + (\<Sum>c \<leftarrow> new. length (projr (links c)))))"
proof (induction rule: depth_first_induct)
  case (empty v)
  then show ?case by simp
next
  case (refused c cs v v1 r v')
  from visit_refused [OF refused(1)] refused(2) show ?case by (elim exE, intro exI) (auto simp: algebra_simps)
next
  case (failed c cs v v1 e)
  from visit_entered [OF failed(1)] failed(2) show ?case by (intro exI [of _ "[c]"]) (auto intro: below.root)
next
  case (entered c cs v v1 ls r v')
  from visit_entered [OF entered(1)] obtain n where v1: "bs_get_size bs s c = Inr n" "c \<notin> set (wv_visited v)"
    "wv_visited v1 = wv_visited v @ [c]" "wv_complete v1 = wv_complete v" "wv_count v1 = wv_count v + 1" by blast
  from entered(3) obtain new where new: "wv_visited v' = wv_visited v1 @ new" "wv_complete v' \<longrightarrow> wv_complete v1"
    "\<forall>c \<in> set new. (\<exists>n. bs_get_size bs s c = Inr n) \<and> c \<notin> set (wv_visited v1) \<and> (\<exists>d \<in> set (ls @ cs). below links d c)"
    "distinct new" "\<forall>e. r = Some e \<longrightarrow> (\<exists>c \<in> set new. links c = Inl e)"
    "r = None \<and> wv_complete v' \<longrightarrow> set (ls @ cs) \<subseteq> set (wv_visited v') \<and>
       (\<forall>c \<in> set new. \<exists>ls. links c = Inr ls \<and> set ls \<subseteq> set (wv_visited v')) \<and>
       wv_count v' = wv_count v1 + word_of_nat (length (ls @ cs) + (\<Sum>c \<leftarrow> new. length (projr (links c))))" by blast
  have root: "below links c c" by (rule below.root)
  have "\<exists>d \<in> set (c # cs). below links d x" if "d \<in> set (ls @ cs)" "below links d x" for d x
    using that entered(2) below_trans [OF that(2), of c] below.link [OF root entered(2)] by auto
  with new(3) have reach: "\<forall>x \<in> set new. \<exists>d \<in> set (c # cs). below links d x" by blast
  show ?case
    using v1 new(1,2,4,5,6) reach root entered(2) new(3)
    by (intro exI [of _ "c # new"]) (auto simp: algebra_simps)
qed

lemma walk_incomplete:
  "depth_first links (visit bs s) stack v = Some (r, v') \<Longrightarrow> wv_complete v \<Longrightarrow> \<not> wv_complete v' \<Longrightarrow>
     \<exists>d \<in> set stack. \<exists>c e. below links d c \<and> bs_get_size bs s c = Inl e"
proof (induction rule: depth_first_induct)
  case (refused c cs v v1 r v')
  show ?case
  proof (cases "bs_get_size bs s c")
    case (Inl e)
    then show ?thesis by (auto intro: below.root)
  next
    case (Inr n)
    with refused(1) have "wv_complete v1 = wv_complete v" by (auto simp: visit_def Let_def split: if_splits)
    with refused show ?thesis by auto
  qed
next
  case (failed c cs v v1 e)
  with visit_entered [OF failed(1)] show ?case by simp
next
  case (entered c cs v v1 ls r v')
  from visit_entered [OF entered(1)] entered(4) have "wv_complete v1" by auto
  with entered(3,5) obtain d x e where d: "d \<in> set (ls @ cs)" "below links d x" "bs_get_size bs s x = Inl e" by blast
  then show ?case
    using below_trans [OF d(2), of c] below.link [OF below.root [of links c] entered(2)] by (cases "d \<in> set ls") auto
qed simp

text \<open>A walk from one root, started with the variables of the command.\<close>

lemma walk_from_root:
  assumes run: "depth_first links (visit bs s) [c] start_vars = Some (r, v)"
  shows "r = None \<and> wv_complete v \<longleftrightarrow>
      (\<forall>d. below links c d \<longrightarrow> (\<exists>n. bs_get_size bs s d = Inr n) \<and> (\<exists>ls. links d = Inr ls))" (is "?ok \<longleftrightarrow> ?held")
    and "r = None \<and> wv_complete v \<Longrightarrow> set (wv_visited v) = {d. below links c d} \<and> distinct (wv_visited v) \<and>
      wv_count v = word_of_nat (1 + (\<Sum>d \<in> {d. below links c d}. length (projr (links d))))"
proof -
  let ?new = "wv_visited v"
  from walk_visits [OF run] have new: "\<forall>d \<in> set ?new. (\<exists>n. bs_get_size bs s d = Inr n) \<and> below links c d"
    "distinct ?new" "\<forall>e. r = Some e \<longrightarrow> (\<exists>d \<in> set ?new. links d = Inl e)"
    "r = None \<and> wv_complete v \<longrightarrow> c \<in> set ?new \<and> (\<forall>d \<in> set ?new. \<exists>ls. links d = Inr ls \<and> set ls \<subseteq> set ?new) \<and>
      wv_count v = word_of_nat (1 + (\<Sum>d \<leftarrow> ?new. length (projr (links d))))"
    by (auto simp: start_vars_def)
  have all: "set ?new = {d. below links c d}" if "?ok"
  proof -
    have "d \<in> set ?new" if "below links c d" for d
      using that
    proof (induction rule: below.induct)
      case root
      show ?case using new(4) \<open>?ok\<close> by blast
    next
      case (link x ls d)
      with new(4) \<open>?ok\<close> show ?case by force
    qed
    with new(1) show ?thesis by blast
  qed
  show "?ok \<longleftrightarrow> ?held"
  proof
    assume "?ok"
    with all new(1,4) show ?held by blast
  next
    assume held: ?held
    have "wv_complete v"
      using walk_incomplete [OF run] held by (fastforce simp: start_vars_def)
    moreover have "r = None" using new(1,3) held by (cases r) force+
    ultimately show ?ok by simp
  qed
  show "?ok \<Longrightarrow> set ?new = {d. below links c d} \<and> distinct ?new \<and>
      wv_count v = word_of_nat (1 + (\<Sum>d \<in> {d. below links c d}. length (projr (links d))))"
    using all new(2,4) by (metis sum_list_distinct_conv_sum_set)
qed

definition report :: "go_error option \<Rightarrow> walk_vars \<Rightarrow> check_report" where
  "report r v = \<lparr>cr_failed = r, cr_size = wv_size v, cr_count = wv_count v, cr_complete = wv_complete v, cr_errors = wv_errors v\<rparr>"

lemma command_walks:
  assumes "block_store bs contents" and "walks_depth_first (ce_walk ce)"
    and "ce_open ce (path_join [data_dir_path cl, ''blockstore'']) = Inr s" and "ce_parse ce arg = Inr c"
  shows "\<exists>r v. depth_first (get_links (ce_dag_get ce s) (ce_is_raw ce)) (visit bs s) [c] start_vars = Some (r, v) \<and>
     cmd_test_blockstore ce bs cl arg = Some (Inr (report r v))"
proof -
  obtain r v where run: "depth_first (get_links (ce_dag_get ce s) (ce_is_raw ce)) (visit bs s) [c] start_vars = Some (r, v)"
    using block_store.walk_returns [OF assms(1)] by metis
  with assms(2-4) have "cmd_test_blockstore ce bs cl arg = Some (Inr (report r v))"
    by (simp add: walks_depth_first_def cmd_test_blockstore_def new_manager_def report_def)
  with run show ?thesis by blast
qed

section \<open>Properties\<close>

text \<open>C16. What \<open>check-cid\<close> reports. When the store opens and the argument parses, the command returns: the
  walk ends on every finite store. It reports neither a failure nor an incomplete tree exactly when
  every identifier below the root, through the links, has a size in the store and can be read as
  a node. Then the count it prints is one more than the number of links below the root: a node with
  several links to it is counted once for each, although it is walked once.\<close>

theorem check_cid_correct:
  assumes "block_store bs contents" and "walks_depth_first (ce_walk ce)"
    and "ce_open ce (path_join [data_dir_path cl, ''blockstore'']) = Inr s" and "ce_parse ce arg = Inr c"
  shows "\<exists>rep. cmd_test_blockstore ce bs cl arg = Some (Inr rep) \<and>
     (cr_failed rep = None \<and> cr_complete rep \<longleftrightarrow>
        (\<forall>d. below (get_links (ce_dag_get ce s) (ce_is_raw ce)) c d \<longrightarrow>
           (\<exists>n. bs_get_size bs s d = Inr n) \<and> (\<exists>ls. get_links (ce_dag_get ce s) (ce_is_raw ce) d = Inr ls))) \<and>
     (cr_failed rep = None \<and> cr_complete rep \<longrightarrow>
        cr_count rep = word_of_nat (1 + (\<Sum>d \<in> {d. below (get_links (ce_dag_get ce s) (ce_is_raw ce)) c d}.
          length (projr (get_links (ce_dag_get ce s) (ce_is_raw ce) d)))))"
proof -
  let ?links = "get_links (ce_dag_get ce s) (ce_is_raw ce)"
  obtain r v where run: "depth_first ?links (visit bs s) [c] start_vars = Some (r, v)"
    and rep: "cmd_test_blockstore ce bs cl arg = Some (Inr (report r v))"
    using command_walks [OF assms(1-4)] by blast
  from rep walk_from_root [OF run] show ?thesis by (auto simp: report_def)
qed

text \<open>A walk that failed can be reported as a complete tree. Only a missing size clears the flag, and a
  failed walk just prints its error: when every identifier below the root has a size but one of them cannot
  be read, the command prints that it failed and that the tree is complete.\<close>

lemma failed_walk_reports_complete:
  assumes "block_store bs contents" and "walks_depth_first (ce_walk ce)"
    and "ce_open ce (path_join [data_dir_path cl, ''blockstore'']) = Inr s" and "ce_parse ce arg = Inr c"
    and "\<forall>d. below (get_links (ce_dag_get ce s) (ce_is_raw ce)) c d \<longrightarrow> (\<exists>n. bs_get_size bs s d = Inr n)"
    and "below (get_links (ce_dag_get ce s) (ce_is_raw ce)) c d" and "ce_dag_get ce s d = Inl e"
  shows "\<exists>rep. cmd_test_blockstore ce bs cl arg = Some (Inr rep) \<and> cr_failed rep \<noteq> None \<and> cr_complete rep"
proof -
  let ?links = "get_links (ce_dag_get ce s) (ce_is_raw ce)"
  obtain r v where run: "depth_first ?links (visit bs s) [c] start_vars = Some (r, v)"
    and rep: "cmd_test_blockstore ce bs cl arg = Some (Inr (report r v))"
    using command_walks [OF assms(1-4)] by blast
  have "wv_complete v"
    using walk_incomplete [OF run] assms(5) by (fastforce simp: start_vars_def)
  have "?links d = Inl e" using assms(7) by (simp add: get_links_def)
  with walk_from_root(1) [OF run] assms(6) \<open>wv_complete v\<close> have "r \<noteq> None" by force
  with rep \<open>wv_complete v\<close> show ?thesis by (auto simp: report_def)
qed

section \<open>Concrete trees\<close>

text \<open>A root that links twice to one leaf: three visits, two blocks.\<close>

definition demo_check :: "mem_store \<Rightarrow> (cid \<Rightarrow> go_error + cid list) \<Rightarrow> mem_store check_env" where
  "demo_check st dag = \<lparr>ce_open = (\<lambda>p. Inr st), ce_parse = (\<lambda>a. Inr (Cid a)), ce_dag_get = (\<lambda>s. dag),
     ce_is_raw = (\<lambda>c. c = Cid ''leaf''), ce_walk = (\<lambda>links vis c v. depth_first links vis [c] v)\<rparr>"

definition check_cli :: cli where
  "check_cli = \<lparr>cl_data_dir = ''/data'', cl_lookup_type = None, cl_lookup_url = None, cl_routing_type = None,
     cl_disable_retrieval = None, cl_log_resources = None, cl_home = Inr ''/root''\<rparr>"

definition demo_tree :: mem_store where
  "demo_tree = [(Cid ''root'', ''abc''), (Cid ''leaf'', ''de'')]"

definition demo_dag :: "cid \<Rightarrow> go_error + cid list" where
  "demo_dag c = (if c = Cid ''root'' then Inr [Cid ''leaf'', Cid ''leaf'']
                 else if c = Cid ''leaf'' then Inr [] else Inl NotFound)"

lemma demo_walks [simp]: "walks_depth_first (ce_walk (demo_check st dag))"
  by (simp add: walks_depth_first_def demo_check_def)

lemma demo_check_sel [simp]:
  "ce_open (demo_check st dag) p = Inr st" "ce_parse (demo_check st dag) a = Inr (Cid a)"
  "ce_dag_get (demo_check st dag) s = dag" "ce_is_raw (demo_check st dag) = (\<lambda>c. c = Cid ''leaf'')"
  by (simp_all add: demo_check_def)

lemma demo_below:
  "below (get_links demo_dag (\<lambda>c. c = Cid ''leaf'')) (Cid ''root'') d \<longleftrightarrow> d = Cid ''root'' \<or> d = Cid ''leaf''" (is "?L \<longleftrightarrow> ?R")
proof
  show "?L \<Longrightarrow> ?R"
    by (induction rule: below.induct) (auto simp: get_links_def demo_dag_def split: if_splits)
  have "below (get_links demo_dag (\<lambda>c. c = Cid ''leaf'')) (Cid ''root'') (Cid ''leaf'')"
    by (rule below.link [OF below.root, where ls = "[Cid ''leaf'', Cid ''leaf'']"]) (simp_all add: get_links_def demo_dag_def)
  then show "?R \<Longrightarrow> ?L" by (auto intro: below.root)
qed

lemma check_cid_correct_witness:
  "\<exists>rep. cmd_test_blockstore (demo_check demo_tree demo_dag) mem_blockstore check_cli ''root'' = Some (Inr rep) \<and>
     cr_failed rep = None \<and> cr_complete rep \<and> cr_count rep = 3"
proof -
  have set: "{d. below (get_links demo_dag (\<lambda>c. c = Cid ''leaf'')) (Cid ''root'') d} = {Cid ''root'', Cid ''leaf''}"
    by (auto simp: demo_below)
  have held: "\<forall>d. below (get_links demo_dag (\<lambda>c. c = Cid ''leaf'')) (Cid ''root'') d \<longrightarrow>
      (\<exists>n. bs_get_size mem_blockstore demo_tree d = Inr n) \<and>
      (\<exists>ls. get_links demo_dag (\<lambda>c. c = Cid ''leaf'') d = Inr ls)"
    by (auto simp: demo_below demo_tree_def get_links_def demo_dag_def)
  have sum: "(\<Sum>d \<in> {Cid ''root'', Cid ''leaf''}. length (projr (get_links demo_dag (\<lambda>c. c = Cid ''leaf'') d))) = 2"
    by (simp add: get_links_def demo_dag_def)
  note correct = check_cid_correct [OF mem.block_store_axioms demo_walks, of demo_tree demo_dag check_cli demo_tree "''root''" "Cid ''root''"]
  from correct held show ?thesis
    by (simp only: demo_check_sel set sum simp_thms) auto
qed

end
