(* ===== verification/Spec2Isabelle.thy ===== *)
theory Spec2Isabelle
  imports Running_App Command_Process Command_Line Metrics Pay_Channels Check_Cid
begin

text \<open>
  A verification library for autoretrieve, a proxy that serves bitswap peers with blocks it
  retrieves from Filecoin storage providers.

  \<^bold>\<open>The program.\<close> A peer's message reaches \<open>bitswap.Provider.ReceiveMessage\<close> (src/bitswap/provider.go),
  which looks each wanted block up in the blockstore and answers from it, or registers a callback
  with \<open>blocks.Manager.AwaitBlock\<close> (src/blocks/manager.go) and starts a retrieval. The manager wraps a
  blockstore; a put through it announces the block on a channel, a notifier goroutine calls the
  waiters of announced blocks, and a ticker drops waiters whose context is done or who waited too
  long. Between the manager and the datastore there can be \<open>blocks.RandomPruner\<close>
  (src/blocks/randompruner.go), which deletes random unpinned blocks once the store is too large.
  Answers go through a task queue to worker goroutines that send messages. Around this core are
  the configuration (src/config.go, src/main.go), the lookup of retrieval candidates
  (src/endpoint/estuary.go, src/minerpeergetter/minerpeergetter.go), the chain message pusher
  (src/messagepusher/msgpusher.go), the payment channels (src/paychannelapi.go,
  src/paychannelmanager/lassiepaychannelmanager.go), the wallet's key store (src/keystore/keystore.go),
  the metrics (src/metrics), and the assembly of it all with the Estuary heartbeat (src/autoretrieve.go)
  and the commands (src/main.go).

  \<^bold>\<open>The theories\<close>, in the order in which they build on each other:
  \<^item> \<open>Go_Prelude\<close>: bytes, identifiers, error values, times, and the lists and maps all share.
  \<^item> \<open>Go_Strings\<close>, \<open>Go_Paths\<close>: what the code uses of the packages \<open>strings\<close>, \<open>fmt\<close>, \<open>path\<close>.
  \<^item> \<open>Blockstore\<close>: the third-party blockstore interface as a record of operations, the locales
    \<open>block_reader\<close>, \<open>block_store\<close> and \<open>reliable_block_store\<close> with the laws the code relies on, and a store
    in memory that satisfies them.
  \<^item> \<open>Block_Manager\<close>: the manager, one operation at a time (\<open>await_block\<close>, \<open>manager_put\<close>,
    \<open>notify_wait_callbacks\<close>, \<open>cleanup_pass\<close>, ...), with what a cleanup tick and a put do.
  \<^item> \<open>Manager_Runs\<close>: the manager's goroutines as interleaved steps between lock operations and
    channel operations; which events can lose a wake-up, every callback is accounted for, whoever waits for an
    announced block is told in the notifier's turn, the channel is bounded, and
    the one way in which a put can strand a waiter.
  \<^item> \<open>Random_Pruner\<close>: the pruner, with the candidate file and the removal loop of a prune
    operation; it is again a \<open>block_store\<close> (a \<open>sublocale\<close>), it deletes only what it may, it ends, and
    at most one prune operation runs.
  \<^item> \<open>Bitswap_Util\<close>, \<open>Bitswap_Provider\<close>: routing table types; the provider's handlers, the callback
    it registers, the retrieval goroutine and the workers. \<open>ReceiveMessage\<close> refines an abstract
    contract over the contents of the store.
  \<^item> \<open>Provider_Steps\<close>: the provider and the manager together. A call of \<open>ReceiveMessage\<close> is a \<open>handler\<close> that
    stops between its lookups, the two halves of \<open>AwaitBlock\<close> and the start of the retrieval; a retrieval under
    way writes past the manager through its link system; what every step keeps, and that each is a step of the manager or leaves it alone.
  \<^item> \<open>Message_Handlers\<close>: the lock is held by at most one handler and every message is handled to
    its end; a handler that nothing interrupts serves its message as the abstract contract promises, and can do what the
    function \<open>receive_message\<close> does; a block that comes between the two lookups is not missed.
  \<^item> \<open>Provider_Runs\<close>: every answer was asked for, a want is
    answered once its block is put through the manager, and three ways in which answers go
    missing or come twice.
  \<^item> \<open>Candidate_Finder\<close>, \<open>Config\<close>, \<open>Message_Pusher\<close>: the Estuary endpoint with the miner peer
    getter; the configuration and its extraction; the nonces of pushed messages.
  \<^item> \<open>Pay_Channels\<close>: which channel a retrieval is paid from, with nil pointers as panics.
  \<^item> \<open>Go_Files\<close>, \<open>Disk_Keystore\<close>, \<open>Peer_Key\<close>: files with faults; the key store over them, as a
    \<open>sublocale\<close> of the contract \<open>key_store\<close>; the host's key, which stays the same once it is there.
  \<^item> \<open>Metrics\<close>: measures, views and the handler that registers them over the locale
    \<open>view_registry\<close>; each measure has one exported view.
  \<^item> \<open>Go_Durations\<close>, \<open>Estuary_Heartbeat\<close>: \<open>time.ParseDuration\<close>; one heartbeat, the ticker, and the loop,
    which is equivalent to a schedule and panics on the intervals the schedule does not allow.
  \<^item> \<open>Check_Cid\<close>, \<open>Estuary_Registration\<close>: the commands \<open>check-cid\<close> and \<open>register-estuary\<close>.
  \<^item> \<open>Application\<close>: \<open>New\<close> and \<open>cmd\<close>, with the start of the pruner on the opened store and one line of the
    resource statistics. A start that succeeds is the one that was configured, and every
    configuration the program starts with is well typed.
  \<^item> \<open>Running_App\<close>: the started program. The blockstore is the pruner when one is configured and the
    datastore otherwise; the provider, the manager and the pruner's polls are steps over it. The
    settings stay the configured ones, what the manager does refines the pruner's own steps, and
    the wake-ups lost are those of blocks that came past the manager, as all do that a retrieval stores.
  \<^item> \<open>Command_Process\<close>: the goroutines of \<open>main\<close>: the watcher of the interrupt, the command, and
    the exit; the handler that dumps the stacks of all goroutines.
  \<^item> \<open>Command_Line\<close>: the declared flags and commands, and the configuration that \<open>gen-config\<close> writes
    and a later run uses.

  \<^bold>\<open>State and effects.\<close> A Go struct is a record, a sequence of statements a function that passes the
  state on, an \<open>error\<close> result an option or a sum. Goroutines that share state are inductive step
  relations: a step is what one goroutine does while it holds the lock, or between two channel
  operations; a handler looks a want up and queues its answer in one step, and the notifier takes the waiters off the list
  under the lock and calls them in one step, although the code calls them after it unlocked. Callbacks are values, and the record \<open>cb_env\<close> says what running one does; the provider
  gives its closure as \<open>block_callback\<close>. Calls to third-party objects that only consume
  them (the task queue, metrics, the network) are recorded in order in \<open>pworld\<close>.

  A call that may panic has an \<open>outcome\<close>. The steps of starting thread the file system and the list of what
  was opened (\<open>boot\<close>).

  \<^bold>\<open>Parameters.\<close> The wrapped blockstore, the datastore's disk usage, the text form of
  identifiers, the clock, contexts, the random numbers and the temporary file of a prune operation,
  the Lotus gateway, payment channel manager and wallet, the HTTP client, the URL parser, the JSON, YAML, base32
  and byte-count codecs, the key library, the walk of a DAG, the registry of views and the libp2p host are
  arguments. Hypotheses on them state documented behaviour only, and every theorem with a
  hypothesis is followed by a witness that applies it to concrete values.

  \<^bold>\<open>Fuel and termination.\<close> The cleanup loop terminates by the number of entries not yet visited. The
  removal loop of a prune operation may not end, so it takes fuel and \<open>None\<close> is not returning:
  \<open>prune_terminates\<close> gives enough fuel (eleven iterations per stored block and eleven more) when the
  identifiers can be read back, and \<open>unflushed_candidates_spin\<close> shows that without that no
  fuel is enough. The walk of \<open>check-cid\<close> is a partial function of its stack; \<open>walk_returns\<close> shows that it
  returns on every block store, because each node entered is held and was not entered before. The loop
  that doubles the buffer of a stack dump is a partial function too; \<open>stacktrace_bounded\<close> shows that it
  returns, and how large the buffer gets. A handler makes at most four steps for each entry of its
  message. What \<open>main\<close> and the running program do without end are step relations.

  \<^bold>\<open>Not modelled.\<close> Log messages, tracing, and what the commands print apart from their reports; the
  inside of the third-party parts that \<open>New\<close> makes, which only fail or not; the HTTP server itself, of
  which the handlers are modelled; the argument parser of the cli library, whose results the flags are
  looked up in; the periodic timers of the manager and the pruner, whose
  ticks are steps that can happen at any time; the boundary of the multipart form of a registration; the
  descriptions of measures. Data races on the pruner's size, which the code updates without a lock, are
  not modelled: each update is one step.
\<close>

end
